(* ===== verification/Prelude.thy ===== *)
theory Prelude
  imports Main
begin

text \<open>
  Shared vocabulary of the development: the exceptions the Python code can raise, the
  result type every fallible definition returns, sequencing over it, Python dictionaries
  as association lists in insertion order, and the list lemmas the components share.
\<close>

named_theorems result_simps \<open>unfolding a result of a sequenced computation\<close>
named_theorems dict_simps \<open>reading and writing Python dictionaries\<close>

section \<open>Results: a value or a raised exception\<close>

datatype pyexc =
    ValueError string
  | TypeError
  | OverflowError
  | KeyError
  | AttributeError

datatype 'a result = Ok 'a | Raise pyexc

fun rbind :: "'a result \<Rightarrow> ('a \<Rightarrow> 'b result) \<Rightarrow> 'b result" where
  "rbind (Ok x) f = f x"
| "rbind (Raise e) f = Raise e"

lemma rbind_Ok_iff [result_simps]:
  "rbind m f = Ok y \<longleftrightarrow> (\<exists>x. m = Ok x \<and> f x = Ok y)"
  by (cases m) auto

lemma rbind_Raise_iff:
  "rbind m f = Raise e \<longleftrightarrow> m = Raise e \<or> (\<exists>x. m = Ok x \<and> f x = Raise e)"
  by (cases m) auto

lemma rbind_cong [fundef_cong]:
  "m = m' \<Longrightarrow> (\<And>x. m' = Ok x \<Longrightarrow> f x = f' x) \<Longrightarrow> rbind m f = rbind m' f'"
  by (cases m') auto

fun is_ok :: "'a result \<Rightarrow> bool" where
  "is_ok (Ok x) = True"
| "is_ok (Raise e) = False"

lemma is_ok_iff: "is_ok m \<longleftrightarrow> (\<exists>x. m = Ok x)"
  by (cases m) auto

lemma is_ok_rbind:
  "is_ok (rbind m f) \<longleftrightarrow> (\<exists>x. m = Ok x \<and> is_ok (f x))"
  by (cases m) auto

text \<open>A list comprehension whose element expression may raise: left to right, first error wins.\<close>

fun rmap :: "('a \<Rightarrow> 'b result) \<Rightarrow> 'a list \<Rightarrow> 'b list result" where
  "rmap f [] = Ok []"
| "rmap f (x # xs) = rbind (f x) (\<lambda>y. rbind (rmap f xs) (\<lambda>ys. Ok (y # ys)))"

lemma rmap_cong [fundef_cong]:
  "xs = ys \<Longrightarrow> (\<And>x. x \<in> set ys \<Longrightarrow> f x = g x) \<Longrightarrow> rmap f xs = rmap g ys"
proof (induction ys arbitrary: xs)
  case (Cons y ys)
  then have "rmap f ys = rmap g ys" and "f y = g y" by auto
  with Cons.prems show ?case by simp
qed simp

lemma rmap_Ok_iff [result_simps]:
  "rmap f xs = Ok ys \<longleftrightarrow> list_all2 (\<lambda>x y. f x = Ok y) xs ys"
proof (induction xs arbitrary: ys)
  case (Cons x xs)
  then show ?case
    by (cases ys) (auto simp: rbind_Ok_iff)
qed auto

lemma rmap_Ok_set: "rmap f xs = Ok ys \<Longrightarrow> y \<in> set ys \<Longrightarrow> \<exists>x \<in> set xs. f x = Ok y"
proof (induction xs arbitrary: ys)
  case (Cons x xs)
  then obtain z zs where "f x = Ok z" "rmap f xs = Ok zs" "ys = z # zs"
    by (auto simp: rbind_Ok_iff)
  with Cons show ?case by auto
qed simp

lemma set_rmap: "rmap f xs = Ok ys \<Longrightarrow> set ys = {y. \<exists>x \<in> set xs. f x = Ok y}"
proof (induction xs arbitrary: ys)
  case (Cons x xs)
  then obtain y zs where "f x = Ok y" "rmap f xs = Ok zs" "ys = y # zs" by (auto simp: rbind_Ok_iff)
  with Cons.IH[of zs] show ?case by auto
qed simp

lemma rmap_Cons_Ok:
  "rmap f (x # xs) = Ok ys \<longleftrightarrow> (\<exists>z zs. f x = Ok z \<and> rmap f xs = Ok zs \<and> ys = z # zs)"
  by (auto simp: rbind_Ok_iff)

lemma rmap_all_ok: "(\<And>x. x \<in> set xs \<Longrightarrow> f x = Ok (g x)) \<Longrightarrow> rmap f xs = Ok (map g xs)"
  by (induction xs) auto

lemma is_ok_rmap: "is_ok (rmap f xs) \<longleftrightarrow> (\<forall>x \<in> set xs. is_ok (f x))"
proof (induction xs)
  case (Cons x xs)
  then show ?case by (cases "f x"; cases "rmap f xs") auto
qed simp

text \<open>A generator under \<open>any\<close> / \<open>all\<close> whose element may raise: it stops at the first deciding element.\<close>

fun rany :: "('a \<Rightarrow> bool result) \<Rightarrow> 'a list \<Rightarrow> bool result" where
  "rany f [] = Ok False"
| "rany f (x # xs) = rbind (f x) (\<lambda>b. if b then Ok True else rany f xs)"

lemma rany_cong [fundef_cong]:
  "xs = ys \<Longrightarrow> (\<And>x. x \<in> set ys \<Longrightarrow> f x = g x) \<Longrightarrow> rany f xs = rany g ys"
proof (induction ys arbitrary: xs)
  case (Cons y ys)
  then have "rany f ys = rany g ys" and "f y = g y" by auto
  with Cons.prems(1) show ?case by (simp cong: rbind_cong if_cong)
qed simp

text \<open>
  A loop that threads a state through the elements and stops at the first one whose step
  answers False, and the loop that answers True at the first one that does.
\<close>

fun rwhile_true :: "('a \<Rightarrow> 's \<Rightarrow> (bool \<times> 's) result) \<Rightarrow> 'a list \<Rightarrow> 's \<Rightarrow> (bool \<times> 's) result" where
  "rwhile_true f [] s = Ok (True, s)"
| "rwhile_true f (x # xs) s =
     rbind (f x s) (\<lambda>(b, s'). if b then rwhile_true f xs s' else Ok (False, s'))"

lemma rwhile_true_cong [fundef_cong]:
  "xs = ys \<Longrightarrow> (\<And>x s. x \<in> set ys \<Longrightarrow> f x s = g x s) \<Longrightarrow> s = t \<Longrightarrow>
   rwhile_true f xs s = rwhile_true g ys t"
proof (induction ys arbitrary: xs s t)
  case (Cons y ys)
  then have eq: "rwhile_true f ys = rwhile_true g ys" and "f y t = g y t" by auto
  with Cons.prems(1,3) show ?case by (simp only: rwhile_true.simps eq)
qed simp

lemma rwhile_true_verdict:
  "rwhile_true f xs s = Ok (b, s') \<Longrightarrow>
   (\<And>x s r. x \<in> set xs \<Longrightarrow> f x s = Ok r \<Longrightarrow> fst r = P x) \<Longrightarrow> b = (\<forall>x \<in> set xs. P x)"
proof (induction xs arbitrary: s)
  case (Cons x xs)
  from Cons.prems(1) obtain r where r: "f x s = Ok r" by (cases "f x s") auto
  with Cons.prems(2) have "fst r = P x" by auto
  with r Cons show ?case by (cases r) (auto split: if_splits)
qed simp

lemma rwhile_true_total:
  "(\<And>x s. x \<in> set xs \<Longrightarrow> is_ok (f x s)) \<Longrightarrow> is_ok (rwhile_true f xs s)"
proof (induction xs arbitrary: s)
  case (Cons x xs)
  then have "is_ok (f x s)" by simp
  with Cons show ?case by (cases "f x s") auto
qed simp

lemma rwhile_true_inv:
  "rwhile_true f xs s = Ok (b, s') \<Longrightarrow> I s \<Longrightarrow>
   (\<And>x s b s'. x \<in> set xs \<Longrightarrow> I s \<Longrightarrow> f x s = Ok (b, s') \<Longrightarrow> I s') \<Longrightarrow> I s'"
proof (induction xs arbitrary: s)
  case (Cons x xs)
  from Cons.prems(1) obtain b1 s1 where r: "f x s = Ok (b1, s1)" by (cases "f x s") auto
  with Cons.prems(2,3) have s1: "I s1" by auto
  have tail: "\<And>y s b s'. y \<in> set xs \<Longrightarrow> I s \<Longrightarrow> f y s = Ok (b, s') \<Longrightarrow> I s'"
    using Cons.prems(3) by (meson list.set_intros(2))
  show ?case
  proof (cases b1)
    case True
    with r Cons.prems(1) have "rwhile_true f xs s1 = Ok (b, s')" by simp
    then show ?thesis by (rule Cons.IH[OF _ s1 tail])
  next
    case False
    with r s1 Cons.prems(1) show ?thesis by simp
  qed
qed simp

section \<open>Dictionaries\<close>

text \<open>
  A Python \<open>dict\<close> keeps insertion order: an association list with one entry per key.
  Storing to a present key replaces the value in place, storing to a new key appends.
\<close>

type_synonym 'v dict = "(string \<times> 'v) list"

fun dput :: "'k \<Rightarrow> 'v \<Rightarrow> ('k \<times> 'v) list \<Rightarrow> ('k \<times> 'v) list" where
  "dput k v [] = [(k, v)]"
| "dput k v ((k', v') # d) = (if k = k' then (k, v) # d else (k', v') # dput k v d)"

definition dupdate :: "('k \<times> 'v) list \<Rightarrow> ('k \<times> 'v) list \<Rightarrow> ('k \<times> 'v) list" where
  "dupdate d e = foldl (\<lambda>acc (k, v). dput k v acc) d e"

lemma map_of_dput [dict_simps]: "map_of (dput k v d) = (map_of d)(k \<mapsto> v)"
  by (induction k v d rule: dput.induct) auto

lemma keys_dput [dict_simps]: "fst ` set (dput k v d) = insert k (fst ` set d)"
  by (induction k v d rule: dput.induct) auto

lemma distinct_dput [dict_simps]:
  "distinct (map fst d) \<Longrightarrow> distinct (map fst (dput k v d))"
proof (induction k v d rule: dput.induct)
  case (2 k v k' v' d)
  then show ?case
    using keys_dput[of k v d] by (auto simp: image_iff)
qed simp

lemma dput_not_Nil [simp]: "dput k v d \<noteq> []"
  by (induction k v d rule: dput.induct) auto

lemma dupdate_Nil [simp]: "dupdate d [] = d"
  by (simp add: dupdate_def)

lemma dupdate_Cons [simp]: "dupdate d ((k, v) # e) = dupdate (dput k v d) e"
  by (simp add: dupdate_def)

lemma distinct_dupdate:
  "distinct (map fst d) \<Longrightarrow> distinct (map fst (dupdate d e))"
proof (induction e arbitrary: d)
  case (Cons p e)
  then show ?case by (cases p) (simp add: distinct_dput)
qed simp

lemma keys_dupdate: "fst ` set (dupdate d e) = fst ` set d \<union> fst ` set e"
proof (induction e arbitrary: d)
  case (Cons p e)
  then show ?case by (cases p) (auto simp: keys_dput)
qed simp

lemma map_of_dupdate: "map_of (dupdate d e) = map_of d ++ map_of (rev e)"
proof (induction e arbitrary: d)
  case (Cons p e)
  then show ?case by (cases p) (auto simp: map_of_dput map_add_def fun_eq_iff split: option.splits)
qed simp

lemma set_dput_le: "set (dput k v d) \<subseteq> insert (k, v) (set d)"
  by (induction k v d rule: dput.induct) auto

lemma set_dupdate: "set (dupdate d e) \<subseteq> set d \<union> set e"
proof (induction e arbitrary: d)
  case (Cons p e)
  obtain k v where p: "p = (k, v)" by force
  have "set (dupdate (dput k v d) e) \<subseteq> set (dput k v d) \<union> set e" by (rule Cons.IH)
  with set_dput_le[of k v d] p show ?case by auto
qed simp

lemma map_of_dupdate_in: "map_of (dupdate [] e) k = Some v \<Longrightarrow> (k, v) \<in> set e"
  using set_dupdate[of "[]" e] by (auto dest: map_of_SomeD)

section \<open>Lists\<close>

text \<open>Keeping the first occurrence of each element, as the code's \<open>seen\<close> sets do.\<close>

fun uniq_acc :: "'a list \<Rightarrow> 'a list \<Rightarrow> 'a list" where
  "uniq_acc seen [] = []"
| "uniq_acc seen (x # xs) =
     (if x \<in> set seen then uniq_acc seen xs else x # uniq_acc (x # seen) xs)"

definition uniq :: "'a list \<Rightarrow> 'a list" where
  "uniq xs = uniq_acc [] xs"

lemma set_uniq_acc: "set (uniq_acc seen xs) = set xs - set seen"
  by (induction seen xs rule: uniq_acc.induct) auto

lemma distinct_uniq_acc: "distinct (uniq_acc seen xs)"
  by (induction seen xs rule: uniq_acc.induct) (auto simp: set_uniq_acc)

lemma set_uniq [simp]: "set (uniq xs) = set xs"
  by (simp add: uniq_def set_uniq_acc)

lemma distinct_uniq [simp]: "distinct (uniq xs)"
  by (simp add: uniq_def distinct_uniq_acc)

lemma uniq_acc_distinct:
  "distinct xs \<Longrightarrow> set xs \<inter> set seen = {} \<Longrightarrow> uniq_acc seen xs = xs"
  by (induction seen xs rule: uniq_acc.induct) auto

lemma uniq_idem [simp]: "uniq (uniq xs) = uniq xs"
  by (simp add: uniq_def uniq_acc_distinct distinct_uniq_acc)

lemma uniq_eq_Nil [simp]: "uniq xs = [] \<longleftrightarrow> xs = []"
  using set_uniq[of xs] by (metis set_empty)

lemma filter_shorter_iff: "length (filter P xs) \<noteq> length xs \<longleftrightarrow> (\<exists>x \<in> set xs. \<not> P x)"
  by (metis filter_id_conv length_filter_less less_irrefl)

end
