(* ===== verification/Py_Values.thy ===== *)
theory Py_Values
  imports Prelude Complex_Main "HOL-Library.Char_ord" "HOL-Library.List_Lexorder"
begin

text \<open>
  The Python values the rule engine handles and the standard-library operations the code
  calls on them: \<open>str.strip\<close>, \<open>str.lower\<close>, \<open>str.isdigit\<close>, \<open>str()\<close>, \<open>float()\<close>,
  comparison of floats, truth values and \<open>dict.get\<close>.  A \<open>char\<close> stands for the code
  point of the same number, so strings range over Latin-1.  A finite float is the exact
  rational it denotes; \<open>float()\<close> rounds to the nearest binary64 value, ties to even.
  What is left to the record \<open>runtime\<close> is library code whose text is not part of this
  repository: the regular expression engine, ISO date parsing, the printed form of
  floats, dates, lists and dictionaries, and the iso639 package.
\<close>

section \<open>Values\<close>

datatype pyfloat = FFin rat | FInf bool | FNan

text \<open>A datetime: wall-clock microseconds since 0001-01-01 and, unless naive, the UTC offset.\<close>

datatype pydatetime = PDT (wall: int) (offset: "int option")

datatype pyval =
    PNone
  | PBool bool
  | PInt int
  | PFloat pyfloat
  | PStr string
  | PDate int
  | PDatetime pydatetime
  | PList "pyval list"
  | PDict "(string \<times> pyval) list"
  | PUnavailable

record runtime =
  text_of :: "pyval \<Rightarrow> string"
  isoformat :: "pydatetime \<Rightarrow> string"
  parse_iso_date :: "string \<Rightarrow> int option"
  parse_iso_datetime :: "string \<Rightarrow> int option"
  compile_regex :: "string \<Rightarrow> (string \<Rightarrow> bool) option"
  match_language :: "string \<Rightarrow> string option"

section \<open>Characters and strings\<close>

abbreviation code :: "char \<Rightarrow> nat" where
  "code c \<equiv> of_char c"

definition py_isspace :: "char \<Rightarrow> bool" where
  "py_isspace c \<longleftrightarrow> code c \<in> {9..13} \<union> {28..32} \<or> code c = 133 \<or> code c = 160"

definition py_lower_char :: "char \<Rightarrow> char" where
  "py_lower_char c =
     (if 65 \<le> code c \<and> code c \<le> 90 \<or> 192 \<le> code c \<and> code c \<le> 222 \<and> code c \<noteq> 215
      then char_of (code c + 32) else c)"

definition py_lower :: "string \<Rightarrow> string" where
  "py_lower s = map py_lower_char s"

definition py_upper_char :: "char \<Rightarrow> string" where
  "py_upper_char c =
     (if 97 \<le> code c \<and> code c \<le> 122 \<or> 224 \<le> code c \<and> code c \<le> 254 \<and> code c \<noteq> 247
      then [char_of (code c - 32)]
      else if code c = 223 then ''SS'' else [c])"

definition py_upper :: "string \<Rightarrow> string" where
  "py_upper s = concat (map py_upper_char s)"

definition py_casefold :: "string \<Rightarrow> string" where
  "py_casefold s = concat (map (\<lambda>c. if code c = 223 then ''ss'' else [py_lower_char c]) s)"

definition rstrip_with :: "(char \<Rightarrow> bool) \<Rightarrow> string \<Rightarrow> string" where
  "rstrip_with p s = rev (dropWhile p (rev s))"

definition strip_with :: "(char \<Rightarrow> bool) \<Rightarrow> string \<Rightarrow> string" where
  "strip_with p s = rstrip_with p (dropWhile p s)"

definition py_strip :: "string \<Rightarrow> string" where
  "py_strip s = strip_with py_isspace s"

text \<open>\<open>str.isdigit\<close> also accepts the superscripts two, three and one, which \<open>int()\<close> refuses.\<close>

definition is_decimal :: "char \<Rightarrow> bool" where
  "is_decimal c \<longleftrightarrow> 48 \<le> code c \<and> code c \<le> 57"

definition is_digit_char :: "char \<Rightarrow> bool" where
  "is_digit_char c \<longleftrightarrow> is_decimal c \<or> code c = 178 \<or> code c = 179 \<or> code c = 185"

definition py_isdigit :: "string \<Rightarrow> bool" where
  "py_isdigit s \<longleftrightarrow> s \<noteq> [] \<and> list_all is_digit_char s"

fun starts_with :: "string \<Rightarrow> string \<Rightarrow> bool" where
  "starts_with [] s = True"
| "starts_with (c # p) [] = False"
| "starts_with (c # p) (d # s) = (c = d \<and> starts_with p s)"

definition ends_with :: "string \<Rightarrow> string \<Rightarrow> bool" where
  "ends_with p s = starts_with (rev p) (rev s)"

fun is_infix :: "string \<Rightarrow> string \<Rightarrow> bool" where
  "is_infix p [] = (p = [])"
| "is_infix p (c # s) = (starts_with p (c # s) \<or> is_infix p s)"

fun join :: "string \<Rightarrow> string list \<Rightarrow> string" where
  "join sep [] = []"
| "join sep [x] = x"
| "join sep (x # y # zs) = x @ sep @ join sep (y # zs)"

lemma starts_with_iff: "starts_with p s \<longleftrightarrow> (\<exists>t. s = p @ t)"
  by (induction p s rule: starts_with.induct) auto

lemma starts_with_take: "starts_with p s \<longleftrightarrow> take (length p) s = p"
  by (induction p s rule: starts_with.induct) auto

lemma starts_with_refl [simp]: "starts_with s s"
  by (simp add: starts_with_iff)

lemma starts_with_append [simp]: "starts_with p (p @ t)"
  by (auto simp: starts_with_iff)

lemma starts_with_trans: "starts_with p q \<Longrightarrow> starts_with q s \<Longrightarrow> starts_with p s"
  by (auto simp: starts_with_iff)

lemma starts_with_length: "starts_with p s \<Longrightarrow> length p \<le> length s"
  by (auto simp: starts_with_iff)

subsection \<open>Stripping and case\<close>

lemma rstrip_with_Nil [simp]: "rstrip_with p [] = []"
  by (simp add: rstrip_with_def)

lemma rstrip_with_id: "s = [] \<or> \<not> p (last s) \<Longrightarrow> rstrip_with p s = s"
proof (cases s rule: rev_cases)
  case (snoc ys y)
  moreover assume "s = [] \<or> \<not> p (last s)"
  ultimately show ?thesis by (simp add: rstrip_with_def)
qed simp

lemma rstrip_with_last: "rstrip_with p s \<noteq> [] \<Longrightarrow> \<not> p (last (rstrip_with p s))"
  unfolding rstrip_with_def by (metis hd_dropWhile last_rev rev_is_Nil_conv)

lemma rstrip_with_idem [simp]: "rstrip_with p (rstrip_with p s) = rstrip_with p s"
  using rstrip_with_last rstrip_with_id by metis

lemma rstrip_with_decomp: "\<exists>t. s = rstrip_with p s @ t \<and> list_all p t"
proof -
  have "rev s = takeWhile p (rev s) @ dropWhile p (rev s)" by simp
  then have "s = rstrip_with p s @ rev (takeWhile p (rev s))"
    unfolding rstrip_with_def by (metis rev_append rev_rev_ident)
  moreover have "list_all p (rev (takeWhile p (rev s)))"
    by (auto simp: list_all_iff dest: set_takeWhileD)
  ultimately show ?thesis by blast
qed

lemma hd_rstrip: "rstrip_with p s \<noteq> [] \<Longrightarrow> hd (rstrip_with p s) = hd s"
  using rstrip_with_decomp[of s p] by (metis hd_append2)

lemma strip_with_hd: "strip_with p s \<noteq> [] \<Longrightarrow> \<not> p (hd (strip_with p s))"
proof -
  assume ne: "strip_with p s \<noteq> []"
  then have "dropWhile p s \<noteq> []" by (metis rstrip_with_Nil strip_with_def)
  then have "\<not> p (hd (dropWhile p s))" by (rule hd_dropWhile)
  with ne show ?thesis by (simp add: strip_with_def hd_rstrip)
qed

lemma strip_with_idem [simp]: "strip_with p (strip_with p s) = strip_with p s"
proof (cases "strip_with p s = []")
  case True
  then show ?thesis by (simp add: strip_with_def)
next
  case False
  then have "dropWhile p (strip_with p s) = strip_with p s"
    using strip_with_hd[OF False] by (cases "strip_with p s") auto
  then show ?thesis by (metis rstrip_with_idem strip_with_def)
qed

lemma strip_with_id:
  "s = [] \<or> (\<not> p (hd s) \<and> \<not> p (last s)) \<Longrightarrow> strip_with p s = s"
  by (cases s) (auto simp: strip_with_def rstrip_with_id)

lemma py_strip_Nil [simp]: "py_strip [] = []"
  by (simp add: py_strip_def strip_with_def)

lemma py_strip_idem [simp]: "py_strip (py_strip s) = py_strip s"
  by (simp add: py_strip_def)

lemma py_lower_char_idem [simp]: "py_lower_char (py_lower_char c) = py_lower_char c"
proof -
  have "code c < 256" by (rule nat_of_char_less_256)
  then show ?thesis by (auto simp: py_lower_char_def)
qed

lemma py_lower_idem [simp]: "py_lower (py_lower s) = py_lower s"
  by (simp add: py_lower_def)

lemma py_lower_Nil [simp]: "py_lower [] = []" "py_lower s = [] \<longleftrightarrow> s = []"
  by (simp_all add: py_lower_def)

lemma py_lower_append [simp]: "py_lower (s @ t) = py_lower s @ py_lower t"
  by (simp add: py_lower_def)

section \<open>Numbers\<close>

fun show_nat :: "nat \<Rightarrow> string" where
  "show_nat n = (if n < 10 then [char_of (n + 48)] else show_nat (n div 10) @ [char_of (n mod 10 + 48)])"

declare show_nat.simps [simp del]

definition show_int :: "int \<Rightarrow> string" where
  "show_int i = (if i < 0 then CHR ''-'' # show_nat (nat (- i)) else show_nat (nat i))"

definition digits_value :: "string \<Rightarrow> int" where
  "digits_value s = foldl (\<lambda>a c. a * 10 + (int (code c) - 48)) 0 s"

text \<open>\<open>int(s)\<close> on a string of digit characters.\<close>

definition int_of_digits :: "string \<Rightarrow> int result" where
  "int_of_digits s =
     (if s \<noteq> [] \<and> list_all is_decimal s then Ok (digits_value s)
      else Raise (ValueError ''invalid literal for int() with base 10''))"

lemma digits_value_snoc: "digits_value (s @ [c]) = digits_value s * 10 + (int (code c) - 48)"
  by (simp add: digits_value_def)

lemma show_nat_decimal: "list_all is_decimal (show_nat n) \<and> show_nat n \<noteq> []"
proof (induction n rule: show_nat.induct)
  case (1 n)
  have digit: "k < 10 \<Longrightarrow> is_decimal (char_of (k + 48))" for k :: nat
    by (simp add: is_decimal_def)
  show ?case
    using 1 digit[of n] digit[of "n mod 10"] by (subst (1 2) show_nat.simps) auto
qed

lemma digits_value_show_nat [simp]: "digits_value (show_nat n) = int n"
proof (induction n rule: show_nat.induct)
  case (1 n)
  show ?case
  proof (cases "n < 10")
    case True
    then show ?thesis by (subst show_nat.simps) (simp add: digits_value_def)
  next
    case False
    with 1 show ?thesis by (subst show_nat.simps) (simp add: digits_value_snoc zdiv_int zmod_int)
  qed
qed

lemma is_decimal_imp_digit: "list_all is_decimal s \<Longrightarrow> list_all is_digit_char s"
  by (auto simp: list_all_iff is_digit_char_def)

lemma int_of_digits_show_nat: "int_of_digits (show_nat n) = Ok (int n)"
  by (simp add: int_of_digits_def show_nat_decimal)

subsection \<open>Binary64\<close>

definition round_half_even :: "rat \<Rightarrow> int" where
  "round_half_even x =
     (let f = floor x; d = x - of_int f
      in if d < 1/2 then f else if d > 1/2 then f + 1 else if even f then f else f + 1)"

definition rat_pow2 :: "int \<Rightarrow> rat" where
  "rat_pow2 k = (if 0 \<le> k then 2 ^ nat k else 1 / 2 ^ nat (- k))"

fun ilog2 :: "int \<Rightarrow> int" where
  "ilog2 n = (if n < 2 then 0 else 1 + ilog2 (n div 2))"

declare ilog2.simps [simp del]

text \<open>The exponent \<open>e\<close> with \<open>2^e \<le> x < 2^(e+1)\<close>, for positive \<open>x\<close>.\<close>

definition binade :: "rat \<Rightarrow> int" where
  "binade x =
     (let (n, d) = quotient_of x; e = ilog2 n - ilog2 d
      in if rat_pow2 e \<le> x then e else e - 1)"

definition round_double :: "rat \<Rightarrow> pyfloat" where
  "round_double x =
     (if x = 0 then FFin 0
      else let a = \<bar>x\<bar>; q = max (binade a - 52) (- 1074);
               r = of_int (round_half_even (a / rat_pow2 q)) * rat_pow2 q
           in if r \<ge> rat_pow2 1024 then FInf (x < 0)
              else FFin (if x < 0 then - r else r))"

fun float_of_int :: "int \<Rightarrow> pyfloat result" where
  "float_of_int n =
     (case round_double (of_int n) of FInf _ \<Rightarrow> Raise OverflowError | f \<Rightarrow> Ok f)"

fun float_eq :: "pyfloat \<Rightarrow> pyfloat \<Rightarrow> bool" where
  "float_eq (FFin x) (FFin y) = (x = y)"
| "float_eq (FInf a) (FInf b) = (a = b)"
| "float_eq _ _ = False"

fun float_less :: "pyfloat \<Rightarrow> pyfloat \<Rightarrow> bool" where
  "float_less (FFin x) (FFin y) = (x < y)"
| "float_less (FFin _) (FInf neg) = (\<not> neg)"
| "float_less (FInf neg) (FFin _) = neg"
| "float_less (FInf a) (FInf b) = (a \<and> \<not> b)"
| "float_less _ _ = False"

definition float_le :: "pyfloat \<Rightarrow> pyfloat \<Rightarrow> bool" where
  "float_le x y \<longleftrightarrow> float_less x y \<or> float_eq x y"

fun is_finite_float :: "pyfloat \<Rightarrow> bool" where
  "is_finite_float (FFin _) = True"
| "is_finite_float _ = False"

fun is_integer_float :: "pyfloat \<Rightarrow> bool" where
  "is_integer_float (FFin x) = (of_int (floor x) = x)"
| "is_integer_float _ = False"

subsection \<open>Reading a float\<close>

definition float_space :: "char \<Rightarrow> bool" where
  "float_space c \<longleftrightarrow> code c \<in> {9..13} \<or> code c = 32 \<or> code c = 133 \<or> code c = 160"

text \<open>An underscore counts only between two digits.\<close>

fun drop_underscores :: "char \<Rightarrow> string \<Rightarrow> string option" where
  "drop_underscores prev [] = (if prev = CHR ''_'' then None else Some [])"
| "drop_underscores prev (c # s) =
     (if c = CHR ''_'' then
        (if is_decimal prev then drop_underscores c s else None)
      else if prev = CHR ''_'' \<and> \<not> is_decimal c then None
      else map_option ((#) c) (drop_underscores c s))"

definition take_digits :: "string \<Rightarrow> string \<times> string" where
  "take_digits s = (takeWhile is_decimal s, dropWhile is_decimal s)"

fun take_sign :: "string \<Rightarrow> bool \<times> string" where
  "take_sign [] = (False, [])"
| "take_sign (c # s) =
     (if c = CHR ''-'' then (True, s) else if c = CHR ''+'' then (False, s) else (False, c # s))"

fun parse_exponent :: "string \<Rightarrow> int option" where
  "parse_exponent [] = Some 0"
| "parse_exponent (c # s) =
     (if c = CHR ''e'' then
        (let (neg, t) = take_sign s
         in if t \<noteq> [] \<and> list_all is_decimal t
            then Some (if neg then - digits_value t else digits_value t) else None)
      else None)"

fun take_fraction :: "string \<Rightarrow> string \<times> string" where
  "take_fraction [] = ([], [])"
| "take_fraction (c # s) = (if c = CHR ''.'' then take_digits s else ([], c # s))"

definition rat_pow10 :: "int \<Rightarrow> rat" where
  "rat_pow10 k = (if 0 \<le> k then 10 ^ nat k else 1 / 10 ^ nat (- k))"

definition parse_unsigned :: "bool \<Rightarrow> string \<Rightarrow> pyfloat option" where
  "parse_unsigned neg s =
     (if s = ''inf'' \<or> s = ''infinity'' then Some (FInf neg)
      else if s = ''nan'' then Some FNan
      else let (whole, r) = take_digits s; (frac, r') = take_fraction r
           in if whole = [] \<and> frac = [] then None
              else map_option
                (\<lambda>e. let x = rat_of_int (digits_value (whole @ frac)) * rat_pow10 (e - int (length frac))
                     in round_double (if neg then - x else x))
                (parse_exponent r'))"

definition parse_float :: "string \<Rightarrow> pyfloat option" where
  "parse_float s =
     (case drop_underscores (CHR '' '') (strip_with float_space s) of
        None \<Rightarrow> None
      | Some t \<Rightarrow> (let (neg, u) = take_sign t in parse_unsigned neg (py_lower u)))"

section \<open>Operations on values\<close>

text \<open>\<open>str(v)\<close>: strings, integers, truth values and \<open>None\<close> print as the language says; the rest is the runtime's.\<close>

fun py_str :: "runtime \<Rightarrow> pyval \<Rightarrow> string" where
  "py_str rt (PStr s) = s"
| "py_str rt PNone = ''None''"
| "py_str rt (PBool b) = (if b then ''True'' else ''False'')"
| "py_str rt (PInt i) = show_int i"
| "py_str rt PUnavailable = ''RULE_VALUE_UNAVAILABLE''"
| "py_str rt v = text_of rt v"

fun truthy :: "pyval \<Rightarrow> bool" where
  "truthy PNone = False"
| "truthy (PBool b) = b"
| "truthy (PInt i) = (i \<noteq> 0)"
| "truthy (PFloat f) = (f \<noteq> FFin 0)"
| "truthy (PStr s) = (s \<noteq> [])"
| "truthy (PList xs) = (xs \<noteq> [])"
| "truthy (PDict d) = (d \<noteq> [])"
| "truthy v = True"

text \<open>\<open>d.get(k)\<close> on a dictionary value, and \<open>d.get(k, default)\<close>.\<close>

definition dget :: "pyval dict \<Rightarrow> string \<Rightarrow> pyval" where
  "dget d k = (case map_of d k of None \<Rightarrow> PNone | Some v \<Rightarrow> v)"

definition dget_or :: "pyval dict \<Rightarrow> string \<Rightarrow> pyval \<Rightarrow> pyval" where
  "dget_or d k v0 = (case map_of d k of None \<Rightarrow> v0 | Some v \<Rightarrow> v)"

definition has_key :: "string \<Rightarrow> pyval dict \<Rightarrow> bool" where
  "has_key k d \<longleftrightarrow> map_of d k \<noteq> None"

fun hashable :: "pyval \<Rightarrow> bool" where
  "hashable (PList _) = False"
| "hashable (PDict _) = False"
| "hashable v = True"

fun is_dict :: "pyval \<Rightarrow> bool" where
  "is_dict (PDict _) = True"
| "is_dict _ = False"

fun is_list :: "pyval \<Rightarrow> bool" where
  "is_list (PList _) = True"
| "is_list _ = False"

lemma is_dict_iff: "is_dict v \<longleftrightarrow> (\<exists>d. v = PDict d)"
  by (cases v) auto

lemma is_list_iff: "is_list v \<longleftrightarrow> (\<exists>xs. v = PList xs)"
  by (cases v) auto

text \<open>Sizes, for recursion through dictionaries and lists.\<close>

lemma size_in_list: "v \<in> set xs \<Longrightarrow> size v < size (PList xs)"
  by (induction xs) auto

lemma size_in_dict: "(k, v) \<in> set d \<Longrightarrow> size v < size (PDict d)"
  by (induction d) auto

lemma map_of_size: "map_of d k = Some v \<Longrightarrow> size v < size (PDict d)"
  by (rule size_in_dict, rule map_of_SomeD)

lemma dget_list_size [termination_simp]:
  "dget d k = PList xs \<Longrightarrow> c \<in> set xs \<Longrightarrow> size c < Suc (size_list (size_prod (\<lambda>_. 0) size) d)"
proof -
  assume a: "dget d k = PList xs" "c \<in> set xs"
  then have "map_of d k = Some (PList xs)"
    by (auto simp: dget_def split: option.splits)
  then have "size (PList xs) < size (PDict d)" by (rule map_of_size)
  moreover have "size c < size (PList xs)" using a(2) by (rule size_in_list)
  ultimately show ?thesis by simp
qed

lemma dget_list_size' [termination_simp]:
  "dget d k = PList xs \<Longrightarrow> c \<in> set xs \<Longrightarrow> size c < Suc (size_list (\<lambda>x. Suc (size (snd x))) d)"
proof -
  have "size_prod (\<lambda>_. 0) size = (\<lambda>x :: string \<times> pyval. Suc (size (snd x)))"
    by (rule ext) (simp add: size_prod_simp)
  then show "dget d k = PList xs \<Longrightarrow> c \<in> set xs \<Longrightarrow> size c < Suc (size_list (\<lambda>x. Suc (size (snd x))) d)"
    using dget_list_size[of d k xs c] by simp
qed

lemma dget_Cons [dict_simps]: "dget ((k', v) # d) k = (if k = k' then v else dget d k)"
  by (simp add: dget_def)

lemma dget_Nil [dict_simps]: "dget [] k = PNone"
  by (simp add: dget_def)

lemma dget_dput: "dget (dput k v d) x = (if k = x then v else dget d x)"
  by (simp add: dget_def dict_simps)

lemma dget_dupdate: "x \<notin> fst ` set e \<Longrightarrow> dget (dupdate d e) x = dget d x"
  by (induction e arbitrary: d) (auto simp: dget_dput)

text \<open>A runtime for concrete examples.\<close>

definition demo_runtime :: runtime where
  "demo_runtime = \<lparr>text_of = (\<lambda>v. []), isoformat = (\<lambda>d. []), parse_iso_date = (\<lambda>s. None),
     parse_iso_datetime = (\<lambda>s. None), compile_regex = (\<lambda>p. None), match_language = (\<lambda>s. None)\<rparr>"

end
