(* ===== verification/Paths.thy ===== *)
theory Paths
  imports Py_Values "HOL-Library.Product_Lexorder"
begin

text \<open>
  Path text of \<open>backend/core/utils/filesystem.py\<close>: normalisation, path mappings and
  their scopes, the variants a stored path has under the configured mappings, equivalence
  of two stored paths, the lookup of a local path, and the prefix tests of the rule engine
  and of the disk resolver.  The reference for the prefix tests is containment of the
  lists of path components.
\<close>

section \<open>Normalisation\<close>

abbreviation is_slash :: "char \<Rightarrow> bool" where
  "is_slash c \<equiv> c = CHR ''/''"

definition forward_slashes :: "string \<Rightarrow> string" where
  "forward_slashes s = map (\<lambda>c. if c = CHR 0x5C then CHR ''/'' else c) s"

definition rstrip_slash :: "string \<Rightarrow> string" where
  "rstrip_slash s = rstrip_with is_slash s"

definition normalize_fpath :: "bool \<Rightarrow> bool \<Rightarrow> string \<Rightarrow> string" where
  "normalize_fpath strip_ending_slash lower path =
     (let s = py_strip path
      in if s = [] then []
         else let s = forward_slashes s;
                  s = (if strip_ending_slash then rstrip_slash s else s)
              in if lower then py_lower s else s)"

text \<open>The same function on an arbitrary value: a falsy one is the empty path, others are printed first.\<close>

definition normalize_fpath_value :: "runtime \<Rightarrow> bool \<Rightarrow> bool \<Rightarrow> pyval \<Rightarrow> string" where
  "normalize_fpath_value rt strip_ending_slash lower v =
     (if truthy v then normalize_fpath strip_ending_slash lower (py_str rt v) else [])"

lemma forward_slashes_no_backslash: "CHR 0x5C \<notin> set (forward_slashes s)"
  by (auto simp: forward_slashes_def)

lemma forward_slashes_id: "CHR 0x5C \<notin> set s \<Longrightarrow> forward_slashes s = s"
  by (induction s) (auto simp: forward_slashes_def)

lemma forward_slashes_Nil [simp]: "forward_slashes s = [] \<longleftrightarrow> s = []"
  by (simp add: forward_slashes_def)

lemma not_space_slash [simp]: "\<not> py_isspace CHR ''/''"
  by (simp add: py_isspace_def)

lemma py_isspace_backslash [simp]: "\<not> py_isspace CHR 0x5C"
  by (simp add: py_isspace_def)

lemma forward_slash_space: "py_isspace (if c = CHR 0x5C then CHR ''/'' else c) = py_isspace c"
  by auto

lemma hd_forward_slashes: "s \<noteq> [] \<Longrightarrow> py_isspace (hd (forward_slashes s)) = py_isspace (hd s)"
  by (cases s) (auto simp: forward_slashes_def)

lemma last_forward_slashes: "s \<noteq> [] \<Longrightarrow> py_isspace (last (forward_slashes s)) = py_isspace (last s)"
  by (cases s rule: rev_cases) (auto simp: forward_slashes_def)

lemma lower_space [simp]: "py_isspace (py_lower_char c) = py_isspace c"
proof -
  have "code c < 256" by (rule nat_of_char_less_256)
  then show ?thesis by (auto simp: py_lower_char_def py_isspace_def)
qed

lemma code_eq_iff:
  "c = CHR ''/'' \<longleftrightarrow> code c = 47"
  "c = CHR 0x5C \<longleftrightarrow> code c = 92"
  using of_char_eq_iff[where 'a = nat, of c "CHR ''/''"] of_char_eq_iff[where 'a = nat, of c "CHR 0x5C"]
  by simp_all

lemma lower_char_slash [simp]:
  "py_lower_char c = CHR ''/'' \<longleftrightarrow> c = CHR ''/''"
  "py_lower_char c = CHR 0x5C \<longleftrightarrow> c = CHR 0x5C"
proof -
  have b: "code c < 256" by (rule nat_of_char_less_256)
  have "code (py_lower_char c) = 47 \<longleftrightarrow> code c = 47"
    and "code (py_lower_char c) = 92 \<longleftrightarrow> code c = 92"
    using b by (auto simp: py_lower_char_def)
  then show "py_lower_char c = CHR ''/'' \<longleftrightarrow> c = CHR ''/''"
    and "py_lower_char c = CHR 0x5C \<longleftrightarrow> c = CHR 0x5C"
    by (simp_all add: code_eq_iff)
qed

lemma py_strip_no_outer: "py_strip s \<noteq> [] \<Longrightarrow> \<not> py_isspace (hd (py_strip s)) \<and> \<not> py_isspace (last (py_strip s))"
  unfolding py_strip_def
  by (metis rstrip_with_last strip_with_def strip_with_hd)

lemma py_strip_id: "s = [] \<or> (\<not> py_isspace (hd s) \<and> \<not> py_isspace (last s)) \<Longrightarrow> py_strip s = s"
  unfolding py_strip_def by (rule strip_with_id)

lemma normalize_fpath_no_backslash: "CHR 0x5C \<notin> set (normalize_fpath strip low s)"
proof -
  have "set (rstrip_slash t) \<subseteq> set t" for t
    unfolding rstrip_slash_def using rstrip_with_decomp[of t is_slash] by (metis set_append Un_upper1)
  then have "CHR 0x5C \<notin> set (if strip then rstrip_slash (forward_slashes t) else forward_slashes t)" for t
    using forward_slashes_no_backslash[of t] by auto
  then show ?thesis
    by (auto simp: normalize_fpath_def Let_def py_lower_def image_iff eq_commute[of "CHR 0x5C"])
qed

lemma normalize_fpath_idem:
  "normalize_fpath False low (normalize_fpath False low s) = normalize_fpath False low s"
proof (cases "py_strip s = []")
  case True
  then show ?thesis by (simp add: normalize_fpath_def)
next
  case False
  let ?f = "forward_slashes (py_strip s)"
  let ?t = "if low then py_lower ?f else ?f"
  have eq: "normalize_fpath False low s = ?t"
    using False by (simp add: normalize_fpath_def)
  have ne: "?f \<noteq> []" using False by simp
  have "\<not> py_isspace (hd ?f)" "\<not> py_isspace (last ?f)"
    using False py_strip_no_outer hd_forward_slashes last_forward_slashes by auto
  then have "\<not> py_isspace (hd ?t)" "\<not> py_isspace (last ?t)"
    using ne by (auto simp: py_lower_def hd_map last_map)
  then have strip: "py_strip ?t = ?t" by (intro py_strip_id) simp
  have "CHR 0x5C \<notin> set ?t"
    using normalize_fpath_no_backslash[of False low s] eq by simp
  then have "forward_slashes ?t = ?t" by (rule forward_slashes_id)
  with strip eq show ?thesis by (auto simp: normalize_fpath_def)
qed

section \<open>Containment by prefix\<close>

text \<open>
  \<open>path == root or path.startswith(root + "/")\<close>: the test every component uses for
  "is this path at or below that root".
\<close>

definition at_or_below :: "string \<Rightarrow> string \<Rightarrow> bool" where
  "at_or_below path mnt \<longleftrightarrow> path = mnt \<or> starts_with (mnt @ ''/'') path"

definition path_is_within_mount :: "string \<Rightarrow> string \<Rightarrow> bool" where
  "path_is_within_mount path mount =
     (if mount = ''/'' then starts_with ''/'' path else at_or_below path mount)"

text \<open>The rule engine's path test on two values of any type.\<close>

definition matches_path_prefix :: "runtime \<Rightarrow> pyval \<Rightarrow> pyval \<Rightarrow> bool" where
  "matches_path_prefix rt actual expected =
     (let actual_path = normalize_fpath_value rt False True actual;
          expected_path = normalize_fpath_value rt True True expected
      in if actual_path = [] \<or> expected_path = [] then False
         else at_or_below actual_path expected_path)"

text \<open>Reference: containment of component lists.\<close>

fun components :: "string \<Rightarrow> string list" where
  "components [] = [[]]"
| "components (c # s) =
     (if is_slash c then [] # components s
      else (case components s of [] \<Rightarrow> [[c]] | w # ws \<Rightarrow> (c # w) # ws))"

lemma components_not_Nil [simp]: "components s \<noteq> []"
  by (induction s) (auto split: list.splits)

lemma join_components [simp]: "join ''/'' (components s) = s"
proof (induction s)
  case (Cons c s)
  show ?case
  proof (cases "components s")
    case (Cons w ws)
    with Cons.IH show ?thesis by (cases ws) auto
  qed simp
qed simp

lemma components_append_slash: "components (s @ CHR ''/'' # t) = components s @ components t"
proof (induction s)
  case (Cons c s)
  then show ?case by (cases "components s") auto
qed simp

lemma join_append:
  "xs \<noteq> [] \<Longrightarrow> ys \<noteq> [] \<Longrightarrow> join sep (xs @ ys) = join sep xs @ sep @ join sep ys"
proof (induction sep xs rule: join.induct)
  case (2 sep x)
  then show ?case by (cases ys) auto
qed auto

lemma at_or_below_components:
  "at_or_below path mnt \<longleftrightarrow> take (length (components mnt)) (components path) = components mnt"
proof
  assume "at_or_below path mnt"
  then show "take (length (components mnt)) (components path) = components mnt"
    by (auto simp: at_or_below_def starts_with_iff components_append_slash)
next
  assume "take (length (components mnt)) (components path) = components mnt"
  then obtain r where r: "components path = components mnt @ r"
    by (metis append_take_drop_id)
  show "at_or_below path mnt"
  proof (cases "r = []")
    case True
    with r have "join ''/'' (components path) = join ''/'' (components mnt)" by simp
    then show ?thesis by (simp add: at_or_below_def)
  next
    case False
    with r have "path = mnt @ ''/'' @ join ''/'' r"
      using join_append[of "components mnt" r "''/''"] by (metis components_not_Nil join_components)
    then show ?thesis by (auto simp: at_or_below_def starts_with_iff)
  qed
qed

lemma at_or_below_refl [simp]: "at_or_below p p"
  by (simp add: at_or_below_def)

lemma at_or_below_trans: "at_or_below p q \<Longrightarrow> at_or_below q r \<Longrightarrow> at_or_below p r"
  by (auto simp: at_or_below_def starts_with_iff)

lemma at_or_below_antisym: "at_or_below p q \<Longrightarrow> at_or_below q p \<Longrightarrow> p = q"
  by (auto simp: at_or_below_def starts_with_iff)

text \<open>Two roots over one path are nested: what makes "the longest root" a unique choice.\<close>

lemma at_or_below_linear:
  assumes "at_or_below p q" "at_or_below p r"
  shows "at_or_below q r \<or> at_or_below r q"
proof -
  let ?p = "components p" and ?q = "components q" and ?r = "components r"
  from assms have "take (length ?q) ?p = ?q" "take (length ?r) ?p = ?r"
    by (simp_all add: at_or_below_components)
  then have "take (length ?r) ?q = ?r \<or> take (length ?q) ?r = ?q"
    by (metis linorder_linear min.absorb1 min.absorb2 take_take)
  then show ?thesis by (simp add: at_or_below_components)
qed

lemma at_or_below_same_length:
  "at_or_below p q \<Longrightarrow> at_or_below p r \<Longrightarrow> length q = length r \<Longrightarrow> q = r"
  using at_or_below_linear[of p q r]
  by (auto simp: at_or_below_def starts_with_iff)

section \<open>Path mappings\<close>

text \<open>
  A stored mapping.  A prefix that is absent reads as the empty string; the service type
  and the configuration id may be absent.
\<close>

record path_mapping =
  source_prefix :: string
  local_prefix :: string
  map_service_type :: "string option"
  map_service_config_id :: "int option"

text \<open>\<open>str(value or "")\<close> of an optional string.\<close>

definition or_empty :: "string option \<Rightarrow> string" where
  "or_empty v = (case v of None \<Rightarrow> [] | Some s \<Rightarrow> s)"

text \<open>\<open>not value\<close> for an optional string and an optional id.\<close>

definition no_text :: "string option \<Rightarrow> bool" where
  "no_text v \<longleftrightarrow> or_empty v = []"

definition no_id :: "int option \<Rightarrow> bool" where
  "no_id v \<longleftrightarrow> v = None \<or> v = Some 0"

definition mapping_applies_to_scope :: "path_mapping \<Rightarrow> string option \<Rightarrow> int option \<Rightarrow> bool" where
  "mapping_applies_to_scope m service_type service_config_id =
     (let mapping_service_type = py_lower (or_empty (map_service_type m))
      in case map_service_config_id m of
           Some cid \<Rightarrow> service_config_id = Some cid
         | None \<Rightarrow>
             if mapping_service_type \<noteq> []
             then (case service_type of None \<Rightarrow> False
                   | Some t \<Rightarrow> mapping_service_type = py_lower t)
             else True)"

definition mapping_rank :: "string option \<Rightarrow> int option \<Rightarrow> path_mapping \<Rightarrow> nat" where
  "mapping_rank service_type service_config_id m =
     (if service_config_id \<noteq> None \<and> map_service_config_id m = service_config_id then 0
      else if \<not> no_text service_type \<and>
              py_lower (or_empty (map_service_type m)) = py_lower (or_empty service_type) \<and>
              no_id (map_service_config_id m) then 1
      else if no_text (map_service_type m) \<and> no_id (map_service_config_id m) then 2
      else 3)"

definition sorted_mappings :: "string option \<Rightarrow> int option \<Rightarrow> path_mapping list \<Rightarrow> path_mapping list" where
  "sorted_mappings service_type service_config_id ms =
     sort_key (\<lambda>m. (mapping_rank service_type service_config_id m,
                    - int (length (source_prefix m)))) ms"

definition mapped_variant :: "string \<Rightarrow> path_mapping \<Rightarrow> string option" where
  "mapped_variant normalized m =
     (let source = normalize_fpath True False (source_prefix m);
          local = normalize_fpath True False (local_prefix m)
      in if source = [] \<or> local = [] then None
         else if at_or_below normalized source
         then Some (normalize_fpath True False (local @ drop (length source) normalized))
         else None)"

fun somes :: "'a option list \<Rightarrow> 'a list" where
  "somes [] = []"
| "somes (None # xs) = somes xs"
| "somes (Some x # xs) = x # somes xs"

lemma set_somes [simp]: "set (somes xs) = {x. Some x \<in> set xs}"
  by (induction xs rule: somes.induct) auto

definition mapped_path_variants ::
  "string option \<Rightarrow> path_mapping list \<Rightarrow> string option \<Rightarrow> int option \<Rightarrow> string set" where
  "mapped_path_variants path ms service_type service_config_id =
     (let normalized = normalize_fpath True False (or_empty path)
      in if no_text path \<or> normalized = [] then {}
         else set (filter (\<lambda>v. v \<noteq> [])
                (normalized #
                 somes (map (mapped_variant normalized)
                   (filter (\<lambda>m. mapping_applies_to_scope m service_type service_config_id)
                     (sorted_mappings service_type service_config_id ms))))))"

definition paths_equivalent ::
  "string option \<Rightarrow> string option \<Rightarrow> path_mapping list \<Rightarrow>
   string option \<Rightarrow> int option \<Rightarrow> string option \<Rightarrow> int option \<Rightarrow> bool" where
  "paths_equivalent left right ms ltype lid rtype rid =
     (mapped_path_variants left ms ltype lid \<inter> mapped_path_variants right ms rtype rid \<noteq> {})"

lemma mapped_path_variants_iff:
  "v \<in> mapped_path_variants path ms t i \<longleftrightarrow>
     (\<not> no_text path \<and> v \<noteq> [] \<and> normalize_fpath True False (or_empty path) \<noteq> [] \<and>
      (v = normalize_fpath True False (or_empty path) \<or>
       (\<exists>m \<in> set ms. mapping_applies_to_scope m t i \<and>
          mapped_variant (normalize_fpath True False (or_empty path)) m = Some v)))"
  by (auto simp: mapped_path_variants_def Let_def sorted_mappings_def image_iff)

section \<open>The local path of a reported path\<close>

text \<open>
  A candidate \<open>Path\<close> object: the reported path as it is, or a local prefix joined with the
  components below the source prefix.  Whether one exists on disk is the environment's
  answer, the argument \<open>present\<close>.
\<close>

datatype local_path = AsReported string | Under string "string list"

definition mapping_source :: "path_mapping \<Rightarrow> string" where
  "mapping_source m =
     (let raw_source = py_strip (source_prefix m);
          source = normalize_fpath True False raw_source
      in if source = [] \<and> forward_slashes raw_source = ''/'' then ''/'' else source)"

definition mapping_matches :: "string \<Rightarrow> path_mapping \<Rightarrow> bool" where
  "mapping_matches normalized m =
     (let source = mapping_source m
      in source \<noteq> [] \<and>
         (if source = ''/'' then starts_with ''/'' normalized else at_or_below normalized source))"

definition mapped_local_path :: "string \<Rightarrow> path_mapping \<Rightarrow> local_path" where
  "mapped_local_path normalized m =
     (let suffix = dropWhile is_slash (drop (length (mapping_source m)) normalized)
      in Under (py_strip (local_prefix m)) (filter (\<lambda>part. part \<noteq> []) (components suffix)))"

fun resolve_mapped ::
  "(local_path \<Rightarrow> bool) \<Rightarrow> string option \<Rightarrow> int option \<Rightarrow> string \<Rightarrow> path_mapping list \<Rightarrow> local_path option option" where
  "resolve_mapped present t i normalized [] = None"
| "resolve_mapped present t i normalized (m # ms) =
     (if mapping_applies_to_scope m t i \<and> mapping_matches normalized m
      then (let p = mapped_local_path normalized m in Some (if present p then Some p else None))
      else resolve_mapped present t i normalized ms)"

definition resolve_path ::
  "(local_path \<Rightarrow> bool) \<Rightarrow> string option \<Rightarrow> path_mapping list \<Rightarrow> string option \<Rightarrow> int option \<Rightarrow> local_path option" where
  "resolve_path present path ms t i =
     (case path of
        None \<Rightarrow> None
      | Some raw \<Rightarrow>
          if raw = [] then None
          else (case resolve_mapped present t i (normalize_fpath True False raw) (sorted_mappings t i ms) of
                  Some r \<Rightarrow> r
                | None \<Rightarrow> if present (AsReported raw) then Some (AsReported raw) else None))"

lemma resolve_mapped_present:
  "resolve_mapped present t i n ms = Some (Some p) \<Longrightarrow> present p"
  by (induction ms) (auto simp: Let_def split: if_splits)

lemma resolve_path_present: "resolve_path present path ms t i = Some p \<Longrightarrow> present p"
  by (auto simp: resolve_path_def split: option.splits if_splits dest: resolve_mapped_present)

text \<open>
  The first mapping, in priority order, that applies and matches decides alone: when its
  local path is missing the lookup fails rather than trying a less specific mapping.
\<close>

lemma resolve_mapped_first:
  "resolve_mapped present t i n ms =
     (case filter (\<lambda>m. mapping_applies_to_scope m t i \<and> mapping_matches n m) ms of
        [] \<Rightarrow> None
      | m # _ \<Rightarrow> Some (if present (mapped_local_path n m) then Some (mapped_local_path n m) else None))"
  by (induction ms) (auto simp: Let_def)

section \<open>Properties\<close>

text \<open>C34: a path condition means containment of directories.  The rule engine's string test accepts
  a path for a prefix exactly when both are non-empty after normalisation and the components of the
  prefix are the first components of the path: \<open>/media/tv2\<close> is not below \<open>/media/tv\<close>.\<close>

theorem path_prefix_is_component_prefix:
  "matches_path_prefix rt actual expected \<longleftrightarrow>
     (let a = normalize_fpath_value rt False True actual; e = normalize_fpath_value rt True True expected
      in a \<noteq> [] \<and> e \<noteq> [] \<and> (\<exists>below. components a = components e @ below))"
proof -
  have "at_or_below a e \<longleftrightarrow> (\<exists>below. components a = components e @ below)" for a e
    unfolding at_or_below_components by (metis append_eq_conv_conj append_take_drop_id)
  then show ?thesis by (auto simp: matches_path_prefix_def Let_def)
qed

text \<open>Resolving a path yields something that is there, and only the best mapping is tried.  The
  result exists on disk; when some mapping applies and matches, it is the local path of the first
  such mapping in priority order, and a missing one is not replaced by a less specific mapping.\<close>

theorem resolve_path_uses_first_mapping:
  assumes "resolve_path present (Some raw) ms t i = Some p"
  defines "normalized \<equiv> normalize_fpath True False raw"
  shows "present p \<and>
         (case [m \<leftarrow> sorted_mappings t i ms. mapping_applies_to_scope m t i \<and> mapping_matches normalized m] of
            [] \<Rightarrow> p = AsReported raw
          | m # _ \<Rightarrow> p = mapped_local_path normalized m)"
  using assms(1) resolve_path_present[OF assms(1)]
  by (auto simp: resolve_path_def resolve_mapped_first normalized_def split: list.splits if_splits)

lemma resolve_path_uses_first_mapping_witness:
  "(case [m \<leftarrow> sorted_mappings None None [\<lparr>source_prefix = ''/data/'', local_prefix = ''/mnt'', map_service_type = None, map_service_config_id = None\<rparr>].
         mapping_applies_to_scope m None None \<and> mapping_matches (normalize_fpath True False ''/data/tv/a'') m] of
      [] \<Rightarrow> Under ''/mnt'' [''tv'', ''a''] = AsReported ''/data/tv/a''
    | m # _ \<Rightarrow> Under ''/mnt'' [''tv'', ''a''] = mapped_local_path (normalize_fpath True False ''/data/tv/a'') m)"
proof -
  have "resolve_path (\<lambda>_. True) (Some ''/data/tv/a'')
     [\<lparr>source_prefix = ''/data/'', local_prefix = ''/mnt'', map_service_type = None, map_service_config_id = None\<rparr>] None None =
     Some (Under ''/mnt'' [''tv'', ''a''])"
    by code_simp
  from resolve_path_uses_first_mapping[OF this] show ?thesis by simp
qed

end
