(* ===== verification/Rule_Fields.thy ===== *)
theory Rule_Fields
  imports Py_Values
begin

text \<open>
  The tables of \<open>backend/core/rule_engine.py\<close> and \<open>playback_history_fields.py\<close>: the field
  groups, the labels, the operators each field accepts, the numeric bounds and the fields
  each target scope offers.  A Python set is a list here, a dictionary an association list
  in source order; \<open>{**a, **b}\<close> is concatenation read from the right, so a later entry
  for a field overrides an earlier one, as it does in the code.
\<close>

section \<open>Field groups\<close>

definition history_field_labels :: "(string \<times> string) list" where
  "history_field_labels =
     [(''playback_history.has_activity'', ''Recorded history activity''),
      (''playback_history.play_count'', ''Recorded history plays''),
      (''playback_history.last_activity_at'', ''Last recorded history activity''),
      (''playback_history.days_since_last_activity'', ''Days since recorded history activity''),
      (''playback_history.total_duration_minutes'', ''Recorded history duration (minutes)''),
      (''playback_history.longest_duration_minutes'', ''Longest recorded history playback (minutes)''),
      (''playback_history.unique_user_count'', ''Recorded history user count''),
      (''playback_history.usernames'', ''Recorded history users''),
      (''playback_history.has_completed_watch'', ''Recorded completed watch''),
      (''playback_history.last_completed_at'', ''Last recorded completed watch''),
      (''playback_history.days_since_last_completed'', ''Days since recorded completed watch'')]"

definition history_rule_fields :: "string list" where
  "history_rule_fields = map fst history_field_labels"

definition media_server_genre_fields :: "string list" where
  "media_server_genre_fields = [''plex.genres'', ''jellyfin.genres'', ''emby.genres'']"

definition valid_target_scopes :: "string list" where
  "valid_target_scopes =
     [''movie_version'',
      ''series'',
      ''season'',
      ''episode'']"

definition sonarr_rule_fields :: "string list" where
  "sonarr_rule_fields =
     [''sonarr.series_status'',
      ''sonarr.latest_season_has_unaired_episodes'',
      ''sonarr.latest_season_has_finale'']"

definition arr_id_rule_fields :: "string list" where
  "arr_id_rule_fields =
     [''arr.movie_ids'',
      ''arr.series_ids'']"

definition favorites_rule_fields :: "string list" where
  "favorites_rule_fields =
     [''favorites.exists'',
      ''favorites.usernames'',
      ''favorites.user_count'']"

definition rank_rule_fields :: "string list" where
  "rank_rule_fields =
     [''episode.position_by_air_date'',
      ''season.position_by_air_date'']"

definition collection_rule_fields :: "string list" where
  "collection_rule_fields =
     [''collection.latest_sibling_watched_at'',
      ''collection.days_since_latest_sibling_watched'']"

definition playback_rule_fields :: "string list" where
  "playback_rule_fields =
     [''playback.has_activity'',
      ''playback.play_count'',
      ''playback.total_duration_minutes'',
      ''playback.longest_duration_minutes'',
      ''playback.unique_user_count'',
      ''playback.usernames'',
      ''playback.last_activity_at'',
      ''playback.days_since_last_activity'']"

definition user_scoped_playback_fields :: "string list" where
  "user_scoped_playback_fields =
     [''playback.user_watched_duration_minutes'',
      ''playback.user_watched_percent'']"

definition watch_completion_rule_fields :: "string list" where
  "watch_completion_rule_fields =
     [''playback.fully_watched_usernames'']"

definition season_partial_viewer_fields :: "string list" where
  "season_partial_viewer_fields =
     [''season.partial_viewer_usernames'']"

definition playback_username_fields :: "string list" where
  "playback_username_fields =
     [''playback_history.usernames'',
      ''playback.usernames'',
      ''playback.fully_watched_usernames'',
      ''season.partial_viewer_usernames'']"

definition episode_watch_progress_fields :: "string list" where
  "episode_watch_progress_fields =
     [''season.fully_watched'',
      ''season.watched_percent'',
      ''series.fully_watched'',
      ''series.watched_percent'']"

definition all_playback_rule_fields :: "string list" where
  "all_playback_rule_fields = playback_rule_fields @ history_rule_fields"

definition numeric_fields :: "string list" where
  "numeric_fields =
     [''playback_history.play_count'',
      ''playback_history.days_since_last_activity'',
      ''playback_history.total_duration_minutes'',
      ''playback_history.longest_duration_minutes'',
      ''playback_history.unique_user_count'',
      ''playback_history.days_since_last_completed'',
      ''media.size'',
      ''media.year'',
      ''media.days_since_added'',
      ''arr.days_since_file_added'',
      ''arr.days_since_first_import'',
      ''seerr.days_since_last_requested'',
      ''watch.view_count'',
      ''watch.days_since_last_watched'',
      ''playback.play_count'',
      ''playback.total_duration_minutes'',
      ''playback.longest_duration_minutes'',
      ''playback.unique_user_count'',
      ''playback.days_since_last_activity'',
      ''favorites.user_count'',
      ''episode.position_by_air_date'',
      ''season.position_by_air_date'',
      ''collection.days_since_latest_sibling_watched'',
      ''media_server.user_rating'',
      ''tmdb.days_since_release'',
      ''tmdb.days_since_first_air_date'',
      ''tmdb.days_since_last_air_date'',
      ''season.days_since_air_date'',
      ''season.season_number'',
      ''season.episode_count'',
      ''season.watched_percent'',
      ''season.seasons_from_latest'',
      ''episode.number'',
      ''episode.season_number'',
      ''episode.days_since_air_date'',
      ''tmdb.popularity'',
      ''tmdb.vote_average'',
      ''tmdb.vote_count'',
      ''tmdb.runtime_minutes'',
      ''imdb.rating'',
      ''imdb.vote_count'',
      ''anilist.score'',
      ''anilist.popularity'',
      ''anilist.favourites'',
      ''rottentomatoes.tomato_meter'',
      ''rottentomatoes.tomato_vote_count'',
      ''rottentomatoes.popcorn_meter'',
      ''rottentomatoes.popcorn_vote_count'',
      ''metacritic.metascore'',
      ''metacritic.vote_count'',
      ''metacritic.user_score'',
      ''metacritic.user_vote_count'',
      ''trakt.rating'',
      ''trakt.vote_count'',
      ''letterboxd.score'',
      ''letterboxd.vote_count'',
      ''video.width'',
      ''video.height'',
      ''audio.channels'',
      ''audio.track_count'',
      ''audio.bitrate_kbps'',
      ''subtitle.track_count'',
      ''video.bitrate_kbps'',
      ''video.bit_depth'',
      ''movie.version_count'',
      ''series.tmdb_season_count'',
      ''series.library_season_count'',
      ''series.watched_percent'',
      ''media.duration'',
      ''disk.free_bytes'',
      ''disk.free_percent'']"

definition text_fields :: "string list" where
  "text_fields =
     [''playback_history.usernames'',
      ''tmdb.id'',
      ''imdb.id'',
      ''tvdb.id'',
      ''tmdb.collection_name'',
      ''tmdb.genres'']
     @ media_server_genre_fields
     @ [''media.title'',
      ''tmdb.original_language'',
      ''tmdb.origin_country'',
      ''media_server.collections'',
      ''media.container'',
      ''series.status'',
      ''sonarr.series_status'',
      ''video.codec_family'',
      ''audio.codec_family'',
      ''video.resolution'',
      ''audio.languages'',
      ''subtitle.languages'',
      ''video.color_space'',
      ''video.color_transfer'',
      ''video.color_primaries'',
      ''arr.tags'',
      ''arr.movie_ids'',
      ''arr.series_ids'',
      ''media_server.collections'',
      ''favorites.usernames'',
      ''seerr.requested_by_user_ids'',
      ''playback.usernames'',
      ''playback.fully_watched_usernames'',
      ''season.partial_viewer_usernames'']"

definition multi_value_text_fields :: "string list" where
  "multi_value_text_fields =
     [''playback_history.usernames'',
      ''arr.tags'',
      ''arr.movie_ids'',
      ''arr.series_ids'',
      ''favorites.usernames'',
      ''video.codec_family'',
      ''audio.codec_family'',
      ''audio.languages'',
      ''subtitle.languages'',
      ''tmdb.original_language'',
      ''tmdb.origin_country'',
      ''playback.usernames'',
      ''playback.fully_watched_usernames'',
      ''season.partial_viewer_usernames'']
     @ media_server_genre_fields"

definition language_fields :: "string list" where
  "language_fields =
     [''audio.languages'',
      ''subtitle.languages'',
      ''tmdb.original_language'']"

definition country_fields :: "string list" where
  "country_fields =
     [''tmdb.origin_country'']"

definition library_fields :: "string list" where
  "library_fields =
     [''library.id'']"

definition boolean_fields :: "string list" where
  "boolean_fields =
     [''playback_history.has_activity'',
      ''playback_history.has_completed_watch'',
      ''tmdb.in_collection'',
      ''video.hdr'',
      ''video.dolby_vision'',
      ''subtitle.has_forced'',
      ''season.fully_watched'',
      ''season.is_latest_season'',
      ''series.fully_watched'',
      ''watch.never_watched'',
      ''favorites.exists'',
      ''playback.has_activity'',
      ''arr.monitored'',
      ''sonarr.latest_season_has_unaired_episodes'',
      ''sonarr.latest_season_has_finale'',
      ''seerr.requested'',
      ''seerr.requester_has_watched'',
      ''seerr.requester_watched_after_request'']"

definition temporal_fields :: "string list" where
  "temporal_fields =
     [''playback_history.last_activity_at'',
      ''playback_history.last_completed_at'',
      ''watch.last_viewed_at'',
      ''collection.latest_sibling_watched_at'',
      ''playback.last_activity_at'',
      ''tmdb.release_date'',
      ''tmdb.first_air_date'',
      ''tmdb.last_air_date'',
      ''season.air_date'',
      ''episode.air_date'',
      ''seerr.last_requested_at'']"

definition path_fields :: "string list" where
  "path_fields =
     [''media.path'',
      ''media.file_name'']"

definition fail_closed_list_fields :: "string list" where
  "fail_closed_list_fields = language_fields @ country_fields"

section \<open>Labels\<close>

definition field_labels :: "(string \<times> string) list" where
  "field_labels =
     history_field_labels
     @ [(''library.id'', ''Library''),
      (''media.title'', ''Title''),
      (''media.path'', ''Path''),
      (''media.file_name'', ''Filename''),
      (''media.size'', ''Size''),
      (''media.year'', ''Year''),
      (''media.container'', ''Container''),
      (''media.days_since_added'', ''Days since added''),
      (''arr.days_since_file_added'', ''Days since latest Arr file added''),
      (''arr.days_since_first_import'', ''Days since first Arr import''),
      (''watch.view_count'', ''View count''),
      (''watch.days_since_last_watched'', ''Days since watched''),
      (''watch.last_viewed_at'', ''Last watched''),
      (''tmdb.release_date'', ''TMDB release date''),
      (''tmdb.in_collection'', ''TMDB in collection''),
      (''tmdb.collection_name'', ''TMDB collection name''),
      (''tmdb.genres'', ''TMDB genres''),
      (''plex.genres'', ''Plex genres''),
      (''jellyfin.genres'', ''Jellyfin genres''),
      (''emby.genres'', ''Emby genres''),
      (''tmdb.original_language'', ''TMDB original language''),
      (''tmdb.origin_country'', ''TMDB origin country''),
      (''tmdb.runtime_minutes'', ''TMDB runtime (minutes)''),
      (''tmdb.first_air_date'', ''TMDB first air date''),
      (''tmdb.last_air_date'', ''TMDB last air date''),
      (''season.air_date'', ''Season air date''),
      (''tmdb.days_since_release'', ''Days since released''),
      (''tmdb.days_since_first_air_date'', ''Days since first aired''),
      (''tmdb.days_since_last_air_date'', ''Days since last aired''),
      (''season.days_since_air_date'', ''Days since season aired''),
      (''season.season_number'', ''Season number''),
      (''season.episode_count'', ''Episode count''),
      (''season.fully_watched'', ''Season fully watched''),
      (''season.watched_percent'', ''Season watched (%)''),
      (''season.partial_viewer_usernames'', ''Partial viewers in this or earlier seasons''),
      (''season.is_latest_season'', ''Is latest season''),
      (''season.seasons_from_latest'', ''Seasons from latest''),
      (''episode.number'', ''Episode number''),
      (''episode.season_number'', ''Episode season number''),
      (''episode.air_date'', ''Episode air date''),
      (''episode.days_since_air_date'', ''Days since episode aired''),
      (''watch.never_watched'', ''Never watched''),
      (''playback.has_activity'', ''Playback activity''),
      (''playback.play_count'', ''Playback plays''),
      (''playback.total_duration_minutes'', ''Playback duration (minutes)''),
      (''playback.longest_duration_minutes'', ''Longest playback (minutes)''),
      (''playback.unique_user_count'', ''Playback user count''),
      (''playback.usernames'', ''Playback users''),
      (''playback.fully_watched_usernames'', ''Fully watched by users''),
      (''playback.last_activity_at'', ''Last playback activity''),
      (''playback.days_since_last_activity'', ''Days since playback activity''),
      (''playback.user_watched_duration_minutes'', ''Playback duration by user (minutes)''),
      (''playback.user_watched_percent'', ''Playback watched by user (%)''),
      (''tmdb.popularity'', ''TMDB popularity''),
      (''tmdb.vote_average'', ''TMDB rating''),
      (''tmdb.vote_count'', ''TMDB votes''),
      (''tmdb.id'', ''TMDB ID''),
      (''imdb.id'', ''IMDb ID''),
      (''imdb.rating'', ''IMDb rating''),
      (''imdb.vote_count'', ''IMDb votes''),
      (''tvdb.id'', ''TVDB ID''),
      (''anilist.score'', ''AniList score''),
      (''anilist.popularity'', ''AniList popularity''),
      (''anilist.favourites'', ''AniList favourites''),
      (''rottentomatoes.tomato_meter'', ''Rotten Tomatoes Tomatometer''),
      (''rottentomatoes.tomato_vote_count'', ''Rotten Tomatoes Tomatometer votes''),
      (''rottentomatoes.popcorn_meter'', ''Rotten Tomatoes Popcornmeter''),
      (''rottentomatoes.popcorn_vote_count'', ''Rotten Tomatoes Popcornmeter votes''),
      (''metacritic.metascore'', ''Metacritic metascore''),
      (''metacritic.vote_count'', ''Metacritic critic count''),
      (''metacritic.user_score'', ''Metacritic user score''),
      (''metacritic.user_vote_count'', ''Metacritic user votes''),
      (''trakt.rating'', ''Trakt rating''),
      (''trakt.vote_count'', ''Trakt votes''),
      (''letterboxd.score'', ''Letterboxd score''),
      (''letterboxd.vote_count'', ''Letterboxd votes''),
      (''series.status'', ''Series status''),
      (''series.fully_watched'', ''Series fully watched''),
      (''series.watched_percent'', ''Series watched (%)''),
      (''series.tmdb_season_count'', ''TMDB season count''),
      (''series.library_season_count'', ''Library season count''),
      (''movie.version_count'', ''Movie version count''),
      (''video.codec_family'', ''Video codec family''),
      (''audio.codec_family'', ''Audio codec family''),
      (''video.hdr'', ''HDR''),
      (''video.dolby_vision'', ''Dolby Vision''),
      (''video.width'', ''Video width''),
      (''video.height'', ''Video height''),
      (''video.bitrate_kbps'', ''Video bitrate (kbps)''),
      (''video.bit_depth'', ''Video bit depth''),
      (''video.resolution'', ''Resolution''),
      (''audio.channels'', ''Audio channels''),
      (''audio.track_count'', ''Audio track count''),
      (''audio.bitrate_kbps'', ''Audio bitrate (kbps)''),
      (''audio.languages'', ''Audio languages''),
      (''subtitle.languages'', ''Subtitle languages''),
      (''subtitle.track_count'', ''Subtitle track count''),
      (''subtitle.has_forced'', ''Has forced subtitles''),
      (''video.color_space'', ''Video color space''),
      (''video.color_transfer'', ''Video color transfer''),
      (''video.color_primaries'', ''Video color primaries''),
      (''media.duration'', ''Duration (ms)''),
      (''media_server.collections'', ''Media server collections''),
      (''arr.tags'', ''Arr tags''),
      (''arr.movie_ids'', ''Radarr movie IDs''),
      (''arr.series_ids'', ''Sonarr series IDs''),
      (''arr.monitored'', ''Arr monitored''),
      (''sonarr.latest_season_has_unaired_episodes'', ''Latest season has unaired episodes''),
      (''sonarr.latest_season_has_finale'', ''Latest season has finale''),
      (''sonarr.series_status'', ''Sonarr series status''),
      (''seerr.requested'', ''Seerr requested''),
      (''seerr.requested_by_user_ids'', ''Seerr requester IDs''),
      (''seerr.requester_has_watched'', ''Seerr requester has watched''),
      (''seerr.requester_watched_after_request'', ''Seerr requester watched after requesting''),
      (''seerr.last_requested_at'', ''Seerr latest active request''),
      (''seerr.days_since_last_requested'', ''Days since latest active Seerr request''),
      (''favorites.exists'', ''Favorited or watchlisted''),
      (''favorites.usernames'', ''Favorite/watchlist users''),
      (''favorites.user_count'', ''Favorite/watchlist user count''),
      (''episode.position_by_air_date'', ''Episode position by air date''),
      (''season.position_by_air_date'', ''Season position by air date''),
      (''collection.latest_sibling_watched_at'', ''Collection sibling last watched''),
      (''collection.days_since_latest_sibling_watched'', ''Days since collection sibling watched''),
      (''media_server.user_rating'', ''Media server user rating''),
      (''disk.free_bytes'', ''Disk free''),
      (''disk.free_percent'', ''Disk free (%)'')]"

definition operator_labels :: "(string \<times> string) list" where
  "operator_labels =
     [(''equals'', ''is''),
      (''not_equals'', ''is not''),
      (''greater_than'', ''>''),
      (''greater_than_or_equal'', ''>=''),
      (''less_than'', ''<''),
      (''less_than_or_equal'', ''<=''),
      (''before'', ''is before''),
      (''on_or_before'', ''is on or before''),
      (''after'', ''is after''),
      (''on_or_after'', ''is on or after''),
      (''in'', ''in''),
      (''not_in'', ''not in''),
      (''contains_any'', ''matches any''),
      (''not_contains_any'', ''matches none''),
      (''contains_all'', ''matches all''),
      (''not_contains_all'', ''does not match all''),
      (''contains_substring'', ''contains''),
      (''not_contains_substring'', ''does not contain''),
      (''exists'', ''exists''),
      (''not_exists'', ''missing''),
      (''is_true'', ''is true''),
      (''is_false'', ''is false''),
      (''matches_any_regex'', ''matches regex''),
      (''not_matches_any_regex'', ''does not match regex'')]"

definition rescaled_field_notes :: "(string \<times> string) list" where
  "rescaled_field_notes =
     [(''metacritic.user_score'', ''Metacritic publishes this as 0-10; Reclaimerr stores it as a percentage''),
      (''letterboxd.score'', ''Letterboxd publishes this as 0-5; Reclaimerr stores it as a percentage'')]"

text \<open>A template \<open>"a{value}b"\<close> is the pair of the text before and after the value.\<close>

definition boolean_reason_companions :: "(string \<times> (string \<times> string \<times> string) list) list" where
  "boolean_reason_companions =
     [(''season.fully_watched'', [(''season.watched_percent'', '''', (''% of Sonarr'' @ [CHR 0x27] @ ''s episode list watched''))]),
      (''series.fully_watched'', [(''series.watched_percent'', '''', (''% of Sonarr'' @ [CHR 0x27] @ ''s episode list watched''))]),
      (''watch.never_watched'', [(''watch.view_count'', '''', '' views''), (''watch.last_viewed_at'', ''last watched '', '''')]),
      (''playback.has_activity'', [(''playback.play_count'', '''', '' plays''), (''playback.last_activity_at'', ''last played '', '''')]),
      (''favorites.exists'', [(''favorites.usernames'', ''users: '', '''')]),
      (''tmdb.in_collection'', [(''tmdb.collection_name'', ''collection: '', '''')]),
      (''seerr.requested'', [(''seerr.requested_by_user_ids'', ''requester IDs: '', ''''), (''seerr.last_requested_at'', ''last requested '', '''')]),
      (''arr.monitored'', [(''arr.movie_ids'', ''Radarr movie '', ''''), (''arr.series_ids'', ''Sonarr series '', '''')]),
      (''sonarr.latest_season_has_unaired_episodes'', [(''sonarr.series_status'', ''Sonarr status: '', '''')]),
      (''sonarr.latest_season_has_finale'', [(''sonarr.series_status'', ''Sonarr status: '', '''')]),
      (''season.is_latest_season'', [(''season.season_number'', ''season '', '''')])]"

section \<open>Operators\<close>

definition list_operators :: "string list" where
  "list_operators =
     [''in'',
      ''not_in'',
      ''contains_any'',
      ''not_contains_any'',
      ''contains_all'',
      ''not_contains_all'',
      ''matches_any_regex'',
      ''not_matches_any_regex'']"

definition valueless_operators :: "string list" where
  "valueless_operators =
     [''exists'',
      ''not_exists'',
      ''is_true'',
      ''is_false'']"

definition numeric_operators :: "string list" where
  "numeric_operators =
     [''equals'',
      ''not_equals'',
      ''greater_than'',
      ''greater_than_or_equal'',
      ''less_than'',
      ''less_than_or_equal'',
      ''exists'',
      ''not_exists'']"

definition text_operators :: "string list" where
  "text_operators =
     [''equals'',
      ''not_equals'',
      ''in'',
      ''not_in'',
      ''contains_any'',
      ''not_contains_any'',
      ''contains_all'',
      ''not_contains_all'',
      ''exists'',
      ''not_exists'']"

definition library_operators :: "string list" where
  "library_operators =
     [''in'',
      ''not_in'',
      ''contains_any'',
      ''not_contains_any'',
      ''contains_all'',
      ''not_contains_all'',
      ''exists'',
      ''not_exists'']"

definition boolean_operators :: "string list" where
  "boolean_operators =
     [''is_true'',
      ''is_false'',
      ''exists'',
      ''not_exists'']"

definition seerr_requester_id_operators :: "string list" where
  "seerr_requester_id_operators =
     [''in'',
      ''not_in'',
      ''contains_any'',
      ''not_contains_any'',
      ''contains_all'',
      ''not_contains_all'',
      ''exists'',
      ''not_exists'']"

definition multi_value_text_operators :: "string list" where
  "multi_value_text_operators =
     [''contains_any'',
      ''not_contains_any'',
      ''contains_all'',
      ''not_contains_all'',
      ''exists'',
      ''not_exists'']"

definition tag_substring_operators :: "string list" where
  "tag_substring_operators =
     [''contains_substring'',
      ''not_contains_substring'']"

definition regex_operators :: "string list" where
  "regex_operators =
     [''matches_any_regex'',
      ''not_matches_any_regex'']"

definition temporal_operators :: "string list" where
  "temporal_operators =
     [''exists'',
      ''not_exists'',
      ''before'',
      ''on_or_before'',
      ''after'',
      ''on_or_after'']"

definition user_scoped_playback_operators :: "string list" where
  "user_scoped_playback_operators =
     [''equals'',
      ''not_equals'',
      ''greater_than'',
      ''greater_than_or_equal'',
      ''less_than'',
      ''less_than_or_equal'']"

definition path_library_inclusion_operators :: "string list" where
  "path_library_inclusion_operators =
     [''contains_any'',
      ''contains_all'',
      ''in'',
      ''equals'']"

definition path_library_unsupported_operators :: "string list" where
  "path_library_unsupported_operators =
     [''not_in'',
      ''not_contains_any'',
      ''not_contains_all'',
      ''not_equals'',
      ''exists'',
      ''not_exists'']"

definition path_operators :: "string list" where
  "path_operators = text_operators @ [''matches_any_regex'']"

definition for_fields :: "string list \<Rightarrow> string list \<Rightarrow> (string \<times> string list) list" where
  "for_fields fs operators = map (\<lambda>f. (f, operators)) fs"

definition operator_table :: "(string \<times> string list) list" where
  "operator_table =
     for_fields numeric_fields numeric_operators
     @ for_fields text_fields text_operators
     @ for_fields library_fields library_operators
     @ for_fields boolean_fields boolean_operators
     @ for_fields temporal_fields temporal_operators
     @ for_fields path_fields path_operators
     @ [(''tmdb.genres'', multi_value_text_operators)]
     @ for_fields media_server_genre_fields multi_value_text_operators
     @ [(''media_server.collections'', multi_value_text_operators),
        (''playback.usernames'', multi_value_text_operators),
        (''playback_history.usernames'', multi_value_text_operators),
        (''playback.fully_watched_usernames'', multi_value_text_operators),
        (''season.partial_viewer_usernames'', multi_value_text_operators),
        (''favorites.usernames'', multi_value_text_operators),
        (''seerr.requested_by_user_ids'', seerr_requester_id_operators),
        (''arr.movie_ids'', seerr_requester_id_operators),
        (''arr.series_ids'', seerr_requester_id_operators),
        (''arr.tags'', text_operators @ tag_substring_operators @ regex_operators),
        (''playback.user_watched_duration_minutes'', user_scoped_playback_operators),
        (''playback.user_watched_percent'', user_scoped_playback_operators)]"

definition field_allowed_operators :: "string \<Rightarrow> string list option" where
  "field_allowed_operators field = map_of (rev operator_table) field"

section \<open>Numeric bounds\<close>

text \<open>field, minimum, maximum if any, whether an integer is required\<close>

definition field_numeric_bounds :: "(string \<times> rat \<times> rat option \<times> bool) list" where
  "field_numeric_bounds =
     [(''tmdb.vote_average'', 0, Some 10, False),
      (''imdb.rating'', 0, Some 10, False),
      (''media_server.user_rating'', 0, Some 10, False),
      (''rottentomatoes.tomato_meter'', 0, Some 100, True),
      (''rottentomatoes.popcorn_meter'', 0, Some 100, True),
      (''metacritic.metascore'', 0, Some 100, True),
      (''metacritic.user_score'', 0, Some 100, True),
      (''trakt.rating'', 0, Some 100, True),
      (''letterboxd.score'', 0, Some 100, True),
      (''anilist.score'', 0, Some 100, True),
      (''tmdb.vote_count'', 0, None, True),
      (''imdb.vote_count'', 0, None, True),
      (''rottentomatoes.tomato_vote_count'', 0, None, True),
      (''rottentomatoes.popcorn_vote_count'', 0, None, True),
      (''metacritic.vote_count'', 0, None, True),
      (''metacritic.user_vote_count'', 0, None, True),
      (''trakt.vote_count'', 0, None, True),
      (''letterboxd.vote_count'', 0, None, True),
      (''anilist.popularity'', 0, None, True),
      (''anilist.favourites'', 0, None, True)]"

section \<open>Fields by target scope\<close>

definition movie_version_fields :: "string list" where
  "movie_version_fields =
     [''anilist.favourites'',
      ''anilist.popularity'',
      ''anilist.score'',
      ''arr.monitored'',
      ''arr.movie_ids'',
      ''arr.tags'',
      ''audio.channels'',
      ''audio.bitrate_kbps'',
      ''audio.codec_family'',
      ''audio.languages'',
      ''audio.track_count'',
      ''disk.free_bytes'',
      ''disk.free_percent'',
      ''imdb.id'',
      ''imdb.rating'',
      ''imdb.vote_count'',
      ''letterboxd.score'',
      ''letterboxd.vote_count'',
      ''metacritic.metascore'',
      ''metacritic.user_score'',
      ''metacritic.user_vote_count'',
      ''metacritic.vote_count'',
      ''library.id'',
      ''media.title'',
      ''media.days_since_added'',
      ''arr.days_since_file_added'',
      ''arr.days_since_first_import'',
      ''media.container'',
      ''media.duration'',
      ''media.file_name'',
      ''media.path'',
      ''media.size'',
      ''media.year'',
      ''media_server.collections'',
      ''media_server.user_rating'',
      ''favorites.exists'',
      ''favorites.usernames'',
      ''favorites.user_count'',
      ''collection.latest_sibling_watched_at'',
      ''collection.days_since_latest_sibling_watched'',
      ''seerr.requested'',
      ''seerr.last_requested_at'',
      ''seerr.days_since_last_requested'',
      ''seerr.requested_by_user_ids'',
      ''seerr.requester_has_watched'',
      ''seerr.requester_watched_after_request'',
      ''rottentomatoes.popcorn_meter'',
      ''rottentomatoes.popcorn_vote_count'',
      ''rottentomatoes.tomato_meter'',
      ''rottentomatoes.tomato_vote_count'',
      ''subtitle.languages'',
      ''subtitle.has_forced'',
      ''subtitle.track_count'',
      ''tmdb.days_since_release'',
      ''tmdb.id'',
      ''tmdb.in_collection'',
      ''tmdb.collection_name'',
      ''tmdb.genres'']
     @ media_server_genre_fields
     @ [''tmdb.original_language'',
      ''tmdb.origin_country'',
      ''tmdb.popularity'',
      ''tmdb.release_date'',
      ''tmdb.runtime_minutes'',
      ''tmdb.vote_average'',
      ''tmdb.vote_count'',
      ''trakt.rating'',
      ''trakt.vote_count'',
      ''video.codec_family'',
      ''video.bitrate_kbps'',
      ''video.bit_depth'',
      ''video.color_primaries'',
      ''video.color_space'',
      ''video.color_transfer'',
      ''video.dolby_vision'',
      ''video.hdr'',
      ''video.height'',
      ''video.resolution'',
      ''video.width'',
      ''watch.days_since_last_watched'',
      ''watch.last_viewed_at'',
      ''watch.never_watched'',
      ''watch.view_count'']
     @ playback_rule_fields
     @ history_rule_fields
     @ user_scoped_playback_fields
     @ watch_completion_rule_fields
     @ [''movie.version_count'']"

definition series_fields :: "string list" where
  "series_fields =
     [''arr.days_since_first_import'',
      ''anilist.favourites'',
      ''anilist.popularity'',
      ''anilist.score'',
      ''arr.monitored'',
      ''arr.series_ids'',
      ''arr.tags'',
      ''audio.channels'',
      ''audio.codec_family'',
      ''disk.free_bytes'',
      ''disk.free_percent'',
      ''imdb.id'',
      ''imdb.rating'',
      ''imdb.vote_count'',
      ''letterboxd.score'',
      ''letterboxd.vote_count'',
      ''metacritic.metascore'',
      ''metacritic.user_score'',
      ''metacritic.user_vote_count'',
      ''metacritic.vote_count'',
      ''library.id'',
      ''media.title'',
      ''media.days_since_added'',
      ''arr.days_since_file_added'',
      ''media.file_name'',
      ''media.path'',
      ''media.size'',
      ''media.year'',
      ''media_server.collections'',
      ''media_server.user_rating'',
      ''favorites.exists'',
      ''favorites.usernames'',
      ''favorites.user_count'',
      ''seerr.requested'',
      ''seerr.last_requested_at'',
      ''seerr.days_since_last_requested'',
      ''seerr.requested_by_user_ids'',
      ''seerr.requester_has_watched'',
      ''seerr.requester_watched_after_request'',
      ''rottentomatoes.popcorn_meter'',
      ''rottentomatoes.popcorn_vote_count'',
      ''rottentomatoes.tomato_meter'',
      ''rottentomatoes.tomato_vote_count'',
      ''series.status'',
      ''series.fully_watched'',
      ''series.library_season_count'',
      ''series.tmdb_season_count'',
      ''series.watched_percent'',
      ''sonarr.latest_season_has_unaired_episodes'',
      ''sonarr.latest_season_has_finale'',
      ''sonarr.series_status'',
      ''subtitle.languages'',
      ''tmdb.days_since_first_air_date'',
      ''tmdb.days_since_last_air_date'',
      ''tmdb.first_air_date'',
      ''tmdb.last_air_date'',
      ''tmdb.genres'']
     @ media_server_genre_fields
     @ [''tmdb.id'',
      ''tmdb.original_language'',
      ''tmdb.origin_country'',
      ''tmdb.popularity'',
      ''tmdb.vote_average'',
      ''tmdb.vote_count'',
      ''trakt.rating'',
      ''trakt.vote_count'',
      ''tvdb.id'',
      ''video.codec_family'',
      ''video.dolby_vision'',
      ''video.hdr'',
      ''video.height'',
      ''video.width'',
      ''watch.days_since_last_watched'',
      ''watch.last_viewed_at'',
      ''watch.never_watched'',
      ''watch.view_count'']
     @ playback_rule_fields
     @ history_rule_fields
     @ [''playback.user_watched_duration_minutes'']
     @ watch_completion_rule_fields"

definition season_fields :: "string list" where
  "season_fields =
     [''anilist.favourites'',
      ''anilist.popularity'',
      ''anilist.score'',
      ''arr.monitored'',
      ''arr.series_ids'',
      ''arr.tags'',
      ''audio.channels'',
      ''audio.codec_family'',
      ''audio.languages'',
      ''disk.free_bytes'',
      ''disk.free_percent'',
      ''imdb.id'',
      ''imdb.rating'',
      ''imdb.vote_count'',
      ''letterboxd.score'',
      ''letterboxd.vote_count'',
      ''metacritic.metascore'',
      ''metacritic.user_score'',
      ''metacritic.user_vote_count'',
      ''metacritic.vote_count'',
      ''library.id'',
      ''media.title'',
      ''media.days_since_added'',
      ''arr.days_since_file_added'',
      ''media.file_name'',
      ''media.path'',
      ''media.size'',
      ''media.year'',
      ''media_server.collections'',
      ''media_server.user_rating'',
      ''favorites.exists'',
      ''favorites.usernames'',
      ''favorites.user_count'',
      ''season.air_date'',
      ''season.days_since_air_date'',
      ''season.episode_count'',
      ''season.fully_watched'',
      ''season.is_latest_season'',
      ''season.season_number'',
      ''season.seasons_from_latest'',
      ''season.position_by_air_date'',
      ''season.watched_percent'']
     @ season_partial_viewer_fields
     @ [''seerr.requested'',
      ''seerr.last_requested_at'',
      ''seerr.days_since_last_requested'',
      ''seerr.requested_by_user_ids'',
      ''seerr.requester_has_watched'',
      ''seerr.requester_watched_after_request'',
      ''rottentomatoes.popcorn_meter'',
      ''rottentomatoes.popcorn_vote_count'',
      ''rottentomatoes.tomato_meter'',
      ''rottentomatoes.tomato_vote_count'',
      ''series.status'',
      ''sonarr.series_status'',
      ''series.library_season_count'',
      ''series.tmdb_season_count'',
      ''subtitle.languages'',
      ''tmdb.days_since_first_air_date'',
      ''tmdb.days_since_last_air_date'',
      ''tmdb.first_air_date'',
      ''tmdb.last_air_date'',
      ''tmdb.genres'']
     @ media_server_genre_fields
     @ [''tmdb.id'',
      ''tmdb.original_language'',
      ''tmdb.origin_country'',
      ''tmdb.popularity'',
      ''tmdb.vote_average'',
      ''tmdb.vote_count'',
      ''trakt.rating'',
      ''trakt.vote_count'',
      ''tvdb.id'',
      ''video.codec_family'',
      ''video.dolby_vision'',
      ''video.hdr'',
      ''video.height'',
      ''video.width'',
      ''watch.days_since_last_watched'',
      ''watch.last_viewed_at'',
      ''watch.never_watched'',
      ''watch.view_count'']
     @ playback_rule_fields
     @ history_rule_fields
     @ [''playback.user_watched_duration_minutes'']
     @ watch_completion_rule_fields"

definition episode_fields :: "string list" where
  "episode_fields =
     [''anilist.favourites'',
      ''anilist.popularity'',
      ''anilist.score'',
      ''arr.monitored'',
      ''arr.series_ids'',
      ''arr.tags'',
      ''disk.free_bytes'',
      ''disk.free_percent'',
      ''episode.air_date'',
      ''episode.days_since_air_date'',
      ''episode.number'',
      ''episode.position_by_air_date'',
      ''episode.season_number'',
      ''imdb.id'',
      ''imdb.rating'',
      ''imdb.vote_count'',
      ''letterboxd.score'',
      ''letterboxd.vote_count'',
      ''metacritic.metascore'',
      ''metacritic.user_score'',
      ''metacritic.user_vote_count'',
      ''metacritic.vote_count'',
      ''library.id'',
      ''media.title'',
      ''media.days_since_added'',
      ''arr.days_since_file_added'',
      ''media.file_name'',
      ''media.path'',
      ''media.size'',
      ''media.year'',
      ''media_server.collections'',
      ''media_server.user_rating'',
      ''favorites.exists'',
      ''favorites.usernames'',
      ''favorites.user_count'',
      ''season.air_date'',
      ''season.days_since_air_date'',
      ''season.episode_count'',
      ''season.fully_watched'',
      ''season.is_latest_season'',
      ''season.season_number'',
      ''season.seasons_from_latest'',
      ''season.watched_percent'',
      ''seerr.requested'',
      ''seerr.last_requested_at'',
      ''seerr.days_since_last_requested'',
      ''seerr.requested_by_user_ids'',
      ''seerr.requester_has_watched'',
      ''seerr.requester_watched_after_request'',
      ''rottentomatoes.popcorn_meter'',
      ''rottentomatoes.popcorn_vote_count'',
      ''rottentomatoes.tomato_meter'',
      ''rottentomatoes.tomato_vote_count'',
      ''series.status'',
      ''sonarr.series_status'',
      ''series.library_season_count'',
      ''series.tmdb_season_count'',
      ''tmdb.days_since_first_air_date'',
      ''tmdb.days_since_last_air_date'',
      ''tmdb.first_air_date'',
      ''tmdb.last_air_date'',
      ''tmdb.genres'']
     @ media_server_genre_fields
     @ [''tmdb.id'',
      ''tmdb.original_language'',
      ''tmdb.origin_country'',
      ''tmdb.popularity'',
      ''tmdb.vote_average'',
      ''tmdb.vote_count'',
      ''trakt.rating'',
      ''trakt.vote_count'',
      ''tvdb.id'',
      ''watch.days_since_last_watched'',
      ''watch.last_viewed_at'',
      ''watch.never_watched'',
      ''watch.view_count'']
     @ playback_rule_fields
     @ history_rule_fields
     @ user_scoped_playback_fields
     @ watch_completion_rule_fields"

definition target_scope_allowed_fields :: "(string \<times> string list) list" where
  "target_scope_allowed_fields =
     [(''movie_version'', movie_version_fields),
      (''series'', series_fields),
      (''season'', season_fields),
      (''episode'', episode_fields)]"

definition label_of :: "(string \<times> string) list \<Rightarrow> string \<Rightarrow> string" where
  "label_of labels key = (case map_of (rev labels) key of None \<Rightarrow> key | Some l \<Rightarrow> l)"

end
