(* ===== verification/Seerr_Identity.thy ===== *)
theory Seerr_Identity
  imports Py_Values
begin

text \<open>
  \<open>backend/core/seerr_identity.py\<close>: requester ids qualified by the Seerr instance that
  issued them, \<open>"<service_config_id>:<user_id>"\<close>.  Parsing is strict; the lemmas show that
  printing and parsing are inverse and that a bare id is never an identity.
\<close>

type_synonym qualified_id = "int \<times> int"

definition qualify_seerr_user_id :: "int \<Rightarrow> int \<Rightarrow> string" where
  "qualify_seerr_user_id service_config_id user_id =
     show_int service_config_id @ '':'' @ show_int user_id"

definition qualified_text :: "qualified_id \<Rightarrow> string" where
  "qualified_text q = show_int (fst q) @ '':'' @ show_int (snd q)"

text \<open>\<open>str.partition(":")\<close>: the text before the separator, whether it was found, the rest.\<close>

fun partition_colon :: "string \<Rightarrow> string \<times> bool \<times> string" where
  "partition_colon [] = ([], False, [])"
| "partition_colon (c # s) =
     (if c = CHR '':'' then ([], True, s)
      else (case partition_colon s of (a, found, b) \<Rightarrow> (c # a, found, b)))"

text \<open>
  \<open>isdigit\<close> accepts superscript digits that \<open>int\<close> refuses, so the conversion of a part that
  passed the test can still raise.
\<close>

definition parse_qualified_seerr_user_id :: "runtime \<Rightarrow> pyval \<Rightarrow> qualified_id option result" where
  "parse_qualified_seerr_user_id rt value =
     (let text = py_strip (if truthy value then py_str rt value else [])
      in if text = [] then Ok None
         else case partition_colon text of (config_part, separator, user_part) \<Rightarrow>
           if \<not> separator then Ok None
           else if \<not> py_isdigit config_part \<or> \<not> py_isdigit user_part then Ok None
           else rbind (int_of_digits config_part) (\<lambda>c.
                rbind (int_of_digits user_part) (\<lambda>u. Ok (Some (c, u)))))"

fun parse_qualified_seerr_user_ids :: "runtime \<Rightarrow> pyval list \<Rightarrow> qualified_id list result" where
  "parse_qualified_seerr_user_ids rt [] = Ok []"
| "parse_qualified_seerr_user_ids rt (v # vs) =
     rbind (parse_qualified_seerr_user_id rt v) (\<lambda>q.
     rbind (parse_qualified_seerr_user_ids rt vs) (\<lambda>qs.
       Ok (case q of None \<Rightarrow> qs | Some x \<Rightarrow> x # qs)))"

definition seerr_config_id_of :: "runtime \<Rightarrow> pyval \<Rightarrow> int option result" where
  "seerr_config_id_of rt value =
     rbind (parse_qualified_seerr_user_id rt value) (\<lambda>q. Ok (map_option fst q))"

definition seerr_user_id_of :: "runtime \<Rightarrow> pyval \<Rightarrow> int option result" where
  "seerr_user_id_of rt value =
     rbind (parse_qualified_seerr_user_id rt value) (\<lambda>q. Ok (map_option snd q))"

definition normalize_qualified_seerr_user_id :: "runtime \<Rightarrow> pyval \<Rightarrow> string option result" where
  "normalize_qualified_seerr_user_id rt value =
     rbind (parse_qualified_seerr_user_id rt value) (\<lambda>q. Ok (map_option qualified_text q))"

definition is_qualified_seerr_user_id :: "runtime \<Rightarrow> pyval \<Rightarrow> bool result" where
  "is_qualified_seerr_user_id rt value =
     rbind (parse_qualified_seerr_user_id rt value) (\<lambda>q. Ok (q \<noteq> None))"

section \<open>Printing and parsing\<close>

lemma partition_colon_append:
  "CHR '':'' \<notin> set a \<Longrightarrow> partition_colon (a @ CHR '':'' # b) = (a, True, b)"
  by (induction a) auto

lemma partition_colon_none: "CHR '':'' \<notin> set a \<Longrightarrow> partition_colon a = (a, False, [])"
  by (induction a) auto

lemma partition_colon_found:
  "partition_colon s = (a, True, b) \<Longrightarrow> s = a @ CHR '':'' # b \<and> CHR '':'' \<notin> set a"
  by (induction s arbitrary: a) (auto split: if_splits prod.splits)

lemma show_nat_chars: "c \<in> set (show_nat n) \<Longrightarrow> is_decimal c"
  using show_nat_decimal[of n] by (auto simp: list_all_iff)

lemma decimal_not_colon: "is_decimal c \<Longrightarrow> c \<noteq> CHR '':''"
  by (auto simp: is_decimal_def)

lemma decimal_not_space: "is_decimal c \<Longrightarrow> \<not> py_isspace c"
  by (auto simp: is_decimal_def py_isspace_def)

lemma show_int_nat: "0 \<le> i \<Longrightarrow> show_int i = show_nat (nat i)"
  by (simp add: show_int_def)

lemma strip_qualified:
  assumes "0 \<le> c" "0 \<le> u"
  shows "py_strip (qualify_seerr_user_id c u) = qualify_seerr_user_id c u"
proof -
  let ?c = "show_nat (nat c)" and ?u = "show_nat (nat u)"
  have "?c \<noteq> []" "?u \<noteq> []" using show_nat_decimal by blast+
  moreover from this have "\<not> py_isspace (hd ?c)" "\<not> py_isspace (last ?u)"
    using decimal_not_space[OF show_nat_chars, OF hd_in_set]
      decimal_not_space[OF show_nat_chars, OF last_in_set] by blast+
  ultimately show ?thesis
    using assms by (simp add: qualify_seerr_user_id_def show_int_nat py_strip_def strip_with_id)
qed

lemma isdigit_show_nat: "py_isdigit (show_nat n)"
  using show_nat_decimal[of n] is_decimal_imp_digit by (auto simp: py_isdigit_def)

lemma parse_qualify:
  assumes "0 \<le> c" "0 \<le> u"
  shows "parse_qualified_seerr_user_id rt (PStr (qualify_seerr_user_id c u)) = Ok (Some (c, u))"
proof -
  have "CHR '':'' \<notin> set (show_nat (nat c))"
    using show_nat_chars decimal_not_colon by blast
  then have "partition_colon (qualify_seerr_user_id c u) = (show_nat (nat c), True, show_nat (nat u))"
    using assms by (simp add: qualify_seerr_user_id_def show_int_nat partition_colon_append)
  then show ?thesis
    using assms strip_qualified[OF assms]
    by (simp add: parse_qualified_seerr_user_id_def isdigit_show_nat int_of_digits_show_nat
        qualify_seerr_user_id_def)
qed

lemma digits_value_nonneg: "list_all is_decimal s \<Longrightarrow> 0 \<le> digits_value s"
proof (induction s rule: rev_induct)
  case (snoc c s)
  then show ?case by (auto simp: digits_value_snoc is_decimal_def)
qed (simp add: digits_value_def)

lemma int_of_digits_nonneg: "int_of_digits s = Ok n \<Longrightarrow> 0 \<le> n"
  by (auto simp: int_of_digits_def digits_value_nonneg split: if_splits)

lemma parse_qualified_nonneg:
  "parse_qualified_seerr_user_id rt v = Ok (Some (c, u)) \<Longrightarrow> 0 \<le> c \<and> 0 \<le> u"
  by (auto simp: parse_qualified_seerr_user_id_def Let_def result_simps int_of_digits_nonneg
      split: prod.splits if_splits)

lemma qualified_text_eq: "qualified_text (c, u) = qualify_seerr_user_id c u"
  by (simp add: qualified_text_def qualify_seerr_user_id_def)

lemma parse_bare:
  "CHR '':'' \<notin> set s \<Longrightarrow> parse_qualified_seerr_user_id rt (PStr s) = Ok None"
proof -
  assume a: "CHR '':'' \<notin> set s"
  have "set (rstrip_with p t) \<subseteq> set t" for p t
    using rstrip_with_decomp[of t p] by (metis set_append Un_upper1)
  then have "set (py_strip s) \<subseteq> set s"
    unfolding py_strip_def strip_with_def by (metis (no_types) set_dropWhileD subset_iff)
  with a have "CHR '':'' \<notin> set (py_strip s)" by blast
  then show ?thesis by (auto simp: parse_qualified_seerr_user_id_def Let_def partition_colon_none)
qed

text \<open>The canonical form is a fixed point: normalising twice is normalising once.\<close>

lemma normalize_qualified_canonical:
  assumes "normalize_qualified_seerr_user_id rt v = Ok (Some s)"
  shows "normalize_qualified_seerr_user_id rt (PStr s) = Ok (Some s)"
proof -
  from assms obtain c u where p: "parse_qualified_seerr_user_id rt v = Ok (Some (c, u))"
    and s: "s = qualify_seerr_user_id c u"
    by (auto simp: normalize_qualified_seerr_user_id_def result_simps qualified_text_eq)
  from parse_qualified_nonneg[OF p] show ?thesis
    by (simp add: normalize_qualified_seerr_user_id_def s parse_qualify qualified_text_eq)
qed

section \<open>Properties\<close>

text \<open>C35: qualified requester ids round-trip.  Parsing the text written for an instance and a user
  gives back that instance and that user, so users of different instances never share a text.\<close>

theorem qualified_id_roundtrip:
  assumes "0 \<le> c" "0 \<le> u"
  shows "parse_qualified_seerr_user_id rt (PStr (qualify_seerr_user_id c u)) = Ok (Some (c, u))"
  by (rule parse_qualify[OF assms])

lemma qualified_id_roundtrip_witness:
  "parse_qualified_seerr_user_id demo_runtime (PStr (qualify_seerr_user_id 7 3)) = Ok (Some (7, 3))"
  by (rule qualified_id_roundtrip) simp_all

end
