(* ===== verification/Rule_Actions.thy ===== *)
theory Rule_Actions
  imports Seerr_Identity
begin

text \<open>
  \<open>backend/core/rule_actions.py\<close>: the Radarr/Sonarr targets stored in a rule's action, and
  the rewrites of Seerr requester conditions inside a rule definition (removing a deleted
  instance, qualifying bare ids on import, collecting the instances a rule names).  The
  code mutates the definition in place; the model returns the rewritten definition.
\<close>

section \<open>Arr targets of an action\<close>

text \<open>The two literals of \<open>ArrServiceName\<close>.\<close>

datatype arr_service = Radarr | Sonarr

fun arr_service_name :: "arr_service \<Rightarrow> string" where
  "arr_service_name Radarr = ''radarr''"
| "arr_service_name Sonarr = ''sonarr''"

definition arr_target_keys :: "arr_service \<Rightarrow> string \<times> string" where
  "arr_target_keys service =
     (arr_service_name service @ ''_service_config_ids'', arr_service_name service @ ''_service_config_id'')"

text \<open>One stored target: an integer (not a truth value) that is not negative.\<close>

fun arr_target :: "pyval \<Rightarrow> int option" where
  "arr_target (PInt i) = (if i < 0 then None else Some i)"
| "arr_target v = None"

fun somes_of :: "('a \<Rightarrow> 'b option) \<Rightarrow> 'a list \<Rightarrow> 'b list" where
  "somes_of f [] = []"
| "somes_of f (x # xs) = (case f x of None \<Rightarrow> somes_of f xs | Some y \<Rightarrow> y # somes_of f xs)"

lemma set_somes_of: "set (somes_of f xs) = {y. \<exists>x \<in> set xs. f x = Some y}"
  by (induction xs) (auto split: option.splits)

definition raw_arr_targets :: "pyval dict \<Rightarrow> arr_service \<Rightarrow> pyval list" where
  "raw_arr_targets action service =
     (case arr_target_keys service of (plural_key, singular_key) \<Rightarrow>
        if has_key plural_key action
        then (case dget action plural_key of PList xs \<Rightarrow> xs | _ \<Rightarrow> [])
        else [dget action singular_key])"

definition get_arr_service_config_ids :: "pyval dict option \<Rightarrow> arr_service \<Rightarrow> int list" where
  "get_arr_service_config_ids action service =
     (case action of
        None \<Rightarrow> []
      | Some a \<Rightarrow> if a = [] then [] else uniq (somes_of arr_target (raw_arr_targets a service)))"

text \<open>The action after normalisation, and the ids returned.\<close>

definition normalize_arr_service_config_ids :: "pyval dict \<Rightarrow> arr_service \<Rightarrow> pyval dict \<times> int list" where
  "normalize_arr_service_config_ids action service =
     (case arr_target_keys service of (plural_key, singular_key) \<Rightarrow>
        let config_ids = get_arr_service_config_ids (Some action) service;
            action' = dput plural_key (PList (map PInt config_ids)) action;
            single = (case config_ids of [i] \<Rightarrow> PInt i | _ \<Rightarrow> PNone)
        in (dput singular_key single action', config_ids))"

lemma arr_keys_distinct: "fst (arr_target_keys s) \<noteq> snd (arr_target_keys s)"
  by (cases s) (simp_all add: arr_target_keys_def)

lemma somes_of_arr_target_PInt: "list_all ((\<le>) 0) is \<Longrightarrow> somes_of arr_target (map PInt is) = is"
  by (induction "is") auto

lemma arr_target_nonneg: "arr_target v = Some i \<Longrightarrow> 0 \<le> i"
  by (cases v) (auto split: if_splits)

lemma get_arr_subset:
  "set (get_arr_service_config_ids a s) \<subseteq>
     (case a of None \<Rightarrow> {} | Some b \<Rightarrow> set (somes_of arr_target (raw_arr_targets b s)))"
  by (cases a) (simp_all add: get_arr_service_config_ids_def)

lemma get_arr_nonneg:
  assumes "i \<in> set (get_arr_service_config_ids a s)"
  shows "0 \<le> i"
proof (cases a)
  case None
  with assms show ?thesis by (simp add: get_arr_service_config_ids_def)
next
  case (Some b)
  with assms get_arr_subset[of a s] have "i \<in> set (somes_of arr_target (raw_arr_targets b s))"
    by auto
  then obtain v where "arr_target v = Some i"
    unfolding set_somes_of by blast
  then show ?thesis by (rule arr_target_nonneg)
qed

lemma distinct_get_arr [simp]: "distinct (get_arr_service_config_ids a s)"
  by (simp add: get_arr_service_config_ids_def split: option.split)

lemma get_arr_of_normalized:
  assumes "normalize_arr_service_config_ids action service = (action', ids)"
  shows "get_arr_service_config_ids (Some action') service = ids"
proof -
  obtain pk sk where k: "arr_target_keys service = (pk, sk)" by fastforce
  with arr_keys_distinct[of service] have ne: "pk \<noteq> sk" by simp
  let ?ids = "get_arr_service_config_ids (Some action) service"
  define single where "single = (case ?ids of [i] \<Rightarrow> PInt i | _ \<Rightarrow> PNone)"
  have a': "action' = dput sk single (dput pk (PList (map PInt ?ids)) action)" and ids: "ids = ?ids"
    using assms unfolding normalize_arr_service_config_ids_def k Let_def single_def by auto
  have m: "map_of action' pk = Some (PList (map PInt ?ids))"
    using ne by (simp add: a' map_of_dput)
  then have "raw_arr_targets action' service = map PInt ?ids"
    by (simp add: raw_arr_targets_def k has_key_def dget_def)
  moreover have "list_all ((\<le>) 0) ?ids"
    by (auto simp: list_all_iff get_arr_nonneg)
  moreover have "uniq ?ids = ?ids"
    by (simp add: uniq_def uniq_acc_distinct)
  moreover have "action' \<noteq> []" by (simp add: a')
  ultimately show ?thesis
    by (simp add: get_arr_service_config_ids_def somes_of_arr_target_PInt ids)
qed

section \<open>Requester conditions inside a definition\<close>

abbreviation seerr_requester_field :: string where
  "seerr_requester_field \<equiv> ''seerr.requested_by_user_ids''"

text \<open>\<open>node.get("field") == SEERR_REQUESTER_FIELD and "value" in node\<close>\<close>

definition is_requester_condition :: "pyval dict \<Rightarrow> bool" where
  "is_requester_condition node \<longleftrightarrow>
     dget node ''field'' = PStr seerr_requester_field \<and> has_key ''value'' node"

definition requester_values :: "pyval dict \<Rightarrow> pyval list" where
  "requester_values node = (case dget node ''value'' of PList xs \<Rightarrow> xs | raw \<Rightarrow> [raw])"

fun rfilter :: "('a \<Rightarrow> bool result) \<Rightarrow> 'a list \<Rightarrow> 'a list result" where
  "rfilter f [] = Ok []"
| "rfilter f (x # xs) =
     rbind (f x) (\<lambda>b. rbind (rfilter f xs) (\<lambda>ys. Ok (if b then x # ys else ys)))"

text \<open>How much there is to visit below a value: the measure of the traversals.\<close>

fun weight :: "pyval \<Rightarrow> nat" where
  "weight (PList xs) = Suc (sum_list (map weight xs))"
| "weight (PDict d) = Suc (sum_list (map (\<lambda>p. weight (snd p)) d))"
| "weight v = Suc 0"

definition strip_requester_values :: "runtime \<Rightarrow> int \<Rightarrow> pyval dict \<Rightarrow> (pyval dict \<times> bool \<times> bool) result" where
  "strip_requester_values rt config_id node =
     (if is_requester_condition node
      then let values = requester_values node
           in rbind (rfilter (\<lambda>v. rbind (seerr_config_id_of rt v) (\<lambda>i. Ok (i \<noteq> Some config_id))) values)
                (\<lambda>kept. if length kept \<noteq> length values
                   then Ok (dput ''value'' (PList kept) node, True, kept = [])
                   else Ok (node, False, False))
      else Ok (node, False, False))"

lemma sum_list_map_dput:
  "map_of d k = Some w \<Longrightarrow>
     sum_list (map (\<lambda>p. f (snd p)) (dput k v d)) + f w = sum_list (map (\<lambda>p. f (snd p)) d) + (f v :: nat)"
  by (induction k v d rule: dput.induct) (auto split: if_splits)

lemma sum_list_map_dput_le:
  "map_of d k = Some w \<Longrightarrow> f v \<le> (f w :: nat) \<Longrightarrow>
     sum_list (map (\<lambda>p. f (snd p)) (dput k v d)) \<le> sum_list (map (\<lambda>p. f (snd p)) d)"
  using sum_list_map_dput[of d k w f v] by simp

lemma rfilter_subseq:
  "rfilter f xs = Ok ys \<Longrightarrow> sum_list (map g ys) \<le> (sum_list (map g xs) :: nat) \<and> set ys \<subseteq> set xs"
proof (induction xs arbitrary: ys)
  case (Cons x xs)
  then obtain b zs where "f x = Ok b" "rfilter f xs = Ok zs" "ys = (if b then x # zs else zs)"
    by (auto simp: result_simps)
  with Cons.IH[of zs] show ?case by (cases b) auto
qed simp

lemma weight_pos: "0 < weight v"
  by (cases v) auto

lemma weight_PList_kept:
  assumes "rfilter f (requester_values node) = Ok kept" "dget node ''value'' = w"
    and "length kept \<noteq> length (requester_values node)"
  shows "weight (PList kept) \<le> weight w"
proof (cases "\<exists>xs. w = PList xs")
  case True
  then obtain xs where "w = PList xs" ..
  with assms rfilter_subseq[OF assms(1), of weight] show ?thesis by (simp add: requester_values_def)
next
  case False
  then have "requester_values node = [w]"
    using assms(2) by (auto simp: requester_values_def split: pyval.splits)
  with assms have "kept = []" by (auto simp: result_simps split: if_splits)
  then show ?thesis using weight_pos[of w] by simp
qed

lemma has_key_dget: "has_key k d \<Longrightarrow> map_of d k = Some (dget d k)"
  by (auto simp: has_key_def dget_def)

lemma strip_requester_values_weight:
  assumes "strip_requester_values rt c node = Ok (node', ch, em)"
  shows "sum_list (map (\<lambda>p. weight (snd p)) node') \<le> sum_list (map (\<lambda>p. weight (snd p)) node)"
proof (cases "node' = node")
  case False
  with assms obtain kept where r: "is_requester_condition node"
    "rfilter (\<lambda>v. rbind (seerr_config_id_of rt v) (\<lambda>i. Ok (i \<noteq> Some c))) (requester_values node) = Ok kept"
    "length kept \<noteq> length (requester_values node)" "node' = dput ''value'' (PList kept) node"
    by (auto simp: strip_requester_values_def Let_def result_simps split: if_splits)
  then have "map_of node ''value'' = Some (dget node ''value'')"
    by (simp add: is_requester_condition_def has_key_dget)
  then show ?thesis
    using weight_PList_kept[OF r(2) refl r(3)] sum_list_map_dput_le[of node "''value''" _ weight] r(4)
    by simp
qed simp

lemma weight_in_sum: "(k, v) \<in> set d \<Longrightarrow> weight v \<le> sum_list (map (\<lambda>p. weight (snd p)) d)"
  by (induction d) auto

function strip_seerr_config :: "runtime \<Rightarrow> int \<Rightarrow> pyval \<Rightarrow> (pyval \<times> bool \<times> bool) result" where
  "strip_seerr_config rt c (PDict node) =
     rbind (strip_requester_values rt c node) (\<lambda>(node', changed, emptied).
     rbind (rmap (\<lambda>(k, v). rbind (strip_seerr_config rt c v) (\<lambda>(v', ch, em). Ok ((k, v'), ch, em))) node')
       (\<lambda>rs. Ok (PDict (map fst rs),
                 changed \<or> list_ex (\<lambda>(_, ch, _). ch) rs,
                 emptied \<or> list_ex (\<lambda>(_, _, em). em) rs)))"
| "strip_seerr_config rt c (PList xs) =
     rbind (rmap (strip_seerr_config rt c) xs)
       (\<lambda>rs. Ok (PList (map fst rs), list_ex (\<lambda>(_, ch, _). ch) rs, list_ex (\<lambda>(_, _, em). em) rs))"
| "strip_seerr_config rt c PNone = Ok (PNone, False, False)"
| "strip_seerr_config rt c (PBool b) = Ok (PBool b, False, False)"
| "strip_seerr_config rt c (PInt i) = Ok (PInt i, False, False)"
| "strip_seerr_config rt c (PFloat f) = Ok (PFloat f, False, False)"
| "strip_seerr_config rt c (PStr s) = Ok (PStr s, False, False)"
| "strip_seerr_config rt c (PDate d) = Ok (PDate d, False, False)"
| "strip_seerr_config rt c (PDatetime d) = Ok (PDatetime d, False, False)"
| "strip_seerr_config rt c PUnavailable = Ok (PUnavailable, False, False)"
  by pat_completeness auto
termination
proof (relation "measure (\<lambda>(rt, c, v). weight v)", goal_cases)
  case (2 rt c node r node' y ch em p k v)
  then have "weight v \<le> sum_list (map (\<lambda>p. weight (snd p)) node')"
    by (auto intro: weight_in_sum)
  with 2 strip_requester_values_weight[of rt c node node' ch em] show ?case by auto
next
  case (3 rt c xs v)
  then show ?case by (simp add: member_le_sum_list less_Suc_eq_le)
qed auto

subsection \<open>Bare ids\<close>

text \<open>One value of a requester condition: blank ones are skipped, others must be qualified.\<close>

definition unqualified_requester :: "runtime \<Rightarrow> pyval \<Rightarrow> bool result" where
  "unqualified_requester rt value =
     (if value = PNone \<or> py_strip (py_str rt value) = [] then Ok False
      else rbind (is_qualified_seerr_user_id rt value) (\<lambda>q. Ok (\<not> q)))"

fun has_unqualified_seerr_requesters :: "runtime \<Rightarrow> pyval \<Rightarrow> bool result" where
  "has_unqualified_seerr_requesters rt (PDict node) =
     rbind (if is_requester_condition node
            then rany (unqualified_requester rt) (requester_values node) else Ok False)
       (\<lambda>found. if found then Ok True
          else rany (\<lambda>p. has_unqualified_seerr_requesters rt (snd p)) node)"
| "has_unqualified_seerr_requesters rt (PList xs) = rany (has_unqualified_seerr_requesters rt) xs"
| "has_unqualified_seerr_requesters rt v = Ok False"

fun own_config_ids :: "runtime \<Rightarrow> pyval list \<Rightarrow> int set result" where
  "own_config_ids rt [] = Ok {}"
| "own_config_ids rt (v # vs) =
     rbind (seerr_config_id_of rt v) (\<lambda>i. rbind (own_config_ids rt vs)
       (\<lambda>S. Ok (case i of None \<Rightarrow> S | Some c \<Rightarrow> insert c S)))"

fun collect_seerr_config_ids :: "runtime \<Rightarrow> pyval \<Rightarrow> int set result" where
  "collect_seerr_config_ids rt (PDict node) =
     rbind (if is_requester_condition node then own_config_ids rt (requester_values node) else Ok {})
       (\<lambda>found. rbind (rmap (\<lambda>p. collect_seerr_config_ids rt (snd p)) node)
          (\<lambda>Ss. Ok (found \<union> \<Union> (set Ss))))"
| "collect_seerr_config_ids rt (PList xs) =
     rbind (rmap (collect_seerr_config_ids rt) xs) (\<lambda>Ss. Ok (\<Union> (set Ss)))"
| "collect_seerr_config_ids rt v = Ok {}"

subsection \<open>Qualifying bare ids\<close>

text \<open>One value: the value to store and whether it was rewritten.\<close>

definition qualify_requester_value :: "runtime \<Rightarrow> int \<Rightarrow> pyval \<Rightarrow> (pyval \<times> bool) result" where
  "qualify_requester_value rt config_id value =
     (let text = (if value = PNone then [] else py_strip (py_str rt value))
      in if text = [] then Ok (value, False)
         else rbind (is_qualified_seerr_user_id rt (PStr text)) (\<lambda>q.
              if \<not> q \<and> py_isdigit text
              then rbind (int_of_digits text)
                     (\<lambda>u. Ok (PStr (qualify_seerr_user_id config_id u), True))
              else Ok (value, False)))"

definition qualify_requester_values :: "runtime \<Rightarrow> int \<Rightarrow> pyval dict \<Rightarrow> (pyval dict \<times> bool) result" where
  "qualify_requester_values rt config_id node =
     (if is_requester_condition node
      then rbind (rmap (qualify_requester_value rt config_id) (requester_values node))
             (\<lambda>rs. if list_ex snd rs then Ok (dput ''value'' (PList (map fst rs)) node, True)
                  else Ok (node, False))
      else Ok (node, False))"

lemma qualify_requester_value_weight:
  "qualify_requester_value rt c v = Ok (v', ch) \<Longrightarrow> weight v' \<le> weight v"
  using weight_pos[of v]
  by (auto simp: qualify_requester_value_def Let_def result_simps Suc_le_eq split: if_splits)

lemma rmap_fst_weight:
  assumes "\<And>x y b. f x = Ok (y, b) \<Longrightarrow> weight y \<le> weight x" "rmap f xs = Ok rs"
  shows "sum_list (map weight (map fst rs)) \<le> sum_list (map weight xs)"
proof -
  from assms(2) have "list_all2 (\<lambda>x r. f x = Ok r) xs rs" by (simp add: result_simps)
  then show ?thesis
    by (induction rule: list_all2_induct) (auto dest!: assms(1) simp: add_le_mono)
qed

lemma two_entries_weight:
  "map_of d k = Some v \<Longrightarrow> map_of d k' = Some v' \<Longrightarrow> k \<noteq> k' \<Longrightarrow>
     weight v + weight v' \<le> sum_list (map (\<lambda>p. weight (snd p)) d)"
proof (induction d)
  case (Cons p d)
  obtain a w where p: "p = (a, w)" by fastforce
  have le: "map_of d x = Some u \<Longrightarrow> weight u \<le> sum_list (map (\<lambda>p. weight (snd p)) d)" for x u
    by (rule weight_in_sum, rule map_of_SomeD)
  show ?case using Cons le by (fastforce simp: p split: if_splits)
qed simp

lemma set_dput: "p \<in> set (dput k v d) \<Longrightarrow> p = (k, v) \<or> p \<in> set d"
  by (induction k v d rule: dput.induct) (auto split: if_splits)

lemma qualify_requester_values_weight:
  assumes "qualify_requester_values rt c node = Ok (node', ch)" "(k, v) \<in> set node'"
  shows "weight v < weight (PDict node)"
proof -
  have old: "(k, v) \<in> set node \<Longrightarrow> ?thesis"
    by (drule weight_in_sum) simp
  show ?thesis
  proof (cases "(k, v) \<in> set node")
    case False
    with assms have ne: "node' \<noteq> node" and req: "is_requester_condition node"
      by (auto simp: qualify_requester_values_def split: if_splits)
    with assms(1) obtain rs where r: "rmap (qualify_requester_value rt c) (requester_values node) = Ok rs"
      "node' = dput ''value'' (PList (map fst rs)) node"
      by (auto simp: qualify_requester_values_def rbind_Ok_iff split: if_splits)
    with assms(2) False have v: "v = PList (map fst rs)" by (auto dest: set_dput)
    have le: "sum_list (map weight (map fst rs)) \<le> sum_list (map weight (requester_values node))"
      using r(1) by (rule rmap_fst_weight[OF qualify_requester_value_weight, rotated])
    have "weight (PStr seerr_requester_field) + weight (dget node ''value'')
        \<le> sum_list (map (\<lambda>p. weight (snd p)) node)"
      using req has_key_dget[of "''value''" node]
      by (intro two_entries_weight[of node "''field''" _ "''value''"])
        (auto simp: is_requester_condition_def dget_def split: option.splits)
    moreover have "sum_list (map weight (requester_values node)) \<le> weight (dget node ''value'')"
      by (cases "dget node ''value''") (simp_all add: requester_values_def)
    ultimately show ?thesis using le by (simp add: v)
  qed (rule old)
qed

function qualify_seerr_requesters :: "runtime \<Rightarrow> int \<Rightarrow> pyval \<Rightarrow> (pyval \<times> bool) result" where
  "qualify_seerr_requesters rt c (PDict node) =
     rbind (qualify_requester_values rt c node) (\<lambda>(node', changed).
     rbind (rmap (\<lambda>(k, v). rbind (qualify_seerr_requesters rt c v) (\<lambda>(v', ch). Ok ((k, v'), ch))) node')
       (\<lambda>rs. Ok (PDict (map fst rs), changed \<or> list_ex snd rs)))"
| "qualify_seerr_requesters rt c (PList xs) =
     rbind (rmap (qualify_seerr_requesters rt c) xs) (\<lambda>rs. Ok (PList (map fst rs), list_ex snd rs))"
| "qualify_seerr_requesters rt c PNone = Ok (PNone, False)"
| "qualify_seerr_requesters rt c (PBool b) = Ok (PBool b, False)"
| "qualify_seerr_requesters rt c (PInt i) = Ok (PInt i, False)"
| "qualify_seerr_requesters rt c (PFloat f) = Ok (PFloat f, False)"
| "qualify_seerr_requesters rt c (PStr s) = Ok (PStr s, False)"
| "qualify_seerr_requesters rt c (PDate d) = Ok (PDate d, False)"
| "qualify_seerr_requesters rt c (PDatetime d) = Ok (PDatetime d, False)"
| "qualify_seerr_requesters rt c PUnavailable = Ok (PUnavailable, False)"
  by pat_completeness auto
termination
proof (relation "measure (\<lambda>(rt, c, v). weight v)", goal_cases)
  case (2 rt c node r node' ch p k v)
  then show ?case using qualify_requester_values_weight[of rt c node node' ch k v] by auto
next
  case (3 rt c xs v)
  then show ?case by (simp add: member_le_sum_list less_Suc_eq_le)
qed auto

section \<open>What the rewrites achieve\<close>

text \<open>
  Documented behaviour of \<open>str\<close> the rewrites rely on: a list prints with a leading bracket,
  a dictionary with a leading brace, so neither text is ever an id.
\<close>

definition prints_containers :: "runtime \<Rightarrow> bool" where
  "prints_containers rt \<longleftrightarrow>
     (\<forall>xs. \<exists>t. text_of rt (PList xs) = CHR ''['' # t) \<and>
     (\<forall>d. \<exists>t. text_of rt (PDict d) = CHR ''{'' # t)"

definition is_container :: "pyval \<Rightarrow> bool" where
  "is_container v \<longleftrightarrow> is_list v \<or> is_dict v"

lemma strip_keeps_head:
  assumes "\<not> py_isspace c"
  shows "\<exists>t'. py_strip (c # t) = c # t'"
proof -
  have ne: "rstrip_with py_isspace (c # t) \<noteq> []"
    using assms rstrip_with_decomp[of "c # t" py_isspace] by (metis append_Nil list.pred_inject(2))
  then have "hd (rstrip_with py_isspace (c # t)) = c" by (simp add: hd_rstrip)
  with ne have "\<exists>t'. rstrip_with py_isspace (c # t) = c # t'" by (metis list.collapse)
  then show ?thesis using assms by (simp add: py_strip_def strip_with_def)
qed

lemma bracket_text_not_id:
  assumes "c = CHR ''['' \<or> c = CHR ''{''"
  shows "parse_qualified_seerr_user_id rt (PStr (c # t)) = Ok None"
proof -
  have sp: "\<not> py_isspace c" and nd: "\<not> is_digit_char c" and nc: "c \<noteq> CHR '':''"
    using assms by (auto simp: py_isspace_def is_digit_char_def is_decimal_def)
  obtain t' where "py_strip (c # t) = c # t'"
    using strip_keeps_head[OF sp] by blast
  then show ?thesis using nd nc
    by (auto simp: parse_qualified_seerr_user_id_def py_isdigit_def split: prod.splits)
qed

lemma container_text:
  assumes "prints_containers rt" "is_container v"
  obtains c t where "py_str rt v = c # t" "c = CHR ''['' \<or> c = CHR ''{''"
proof (cases v)
  case (PList xs)
  obtain t where "text_of rt (PList xs) = CHR ''['' # t"
    using assms(1) unfolding prints_containers_def by blast
  with PList show ?thesis by (intro that[of "CHR ''[''" t]) simp_all
next
  case (PDict d)
  obtain t where "text_of rt (PDict d) = CHR ''{'' # t"
    using assms(1) unfolding prints_containers_def by blast
  with PDict show ?thesis by (intro that[of "CHR ''{''" t]) simp_all
qed (use assms(2) in \<open>simp_all add: is_container_def\<close>)

lemma container_not_id:
  assumes "prints_containers rt" "is_container v"
  shows "parse_qualified_seerr_user_id rt v = Ok None"
    and "parse_qualified_seerr_user_id rt (PStr (py_strip (py_str rt v))) = Ok None"
    and "\<not> py_isdigit (py_strip (py_str rt v))"
proof -
  obtain c t where c: "py_str rt v = c # t" "c = CHR ''['' \<or> c = CHR ''{''"
    using container_text[OF assms] .
  then have sp: "\<not> py_isspace c" and nd: "\<not> is_digit_char c"
    by (auto simp: py_isspace_def is_digit_char_def is_decimal_def)
  obtain t' where t': "py_strip (py_str rt v) = c # t'"
    using strip_keeps_head[OF sp] c(1) by metis
  show "parse_qualified_seerr_user_id rt (PStr (py_strip (py_str rt v))) = Ok None"
    using bracket_text_not_id[OF c(2)] by (simp add: t')
  show "\<not> py_isdigit (py_strip (py_str rt v))"
    using nd by (simp add: t' py_isdigit_def)
  show "parse_qualified_seerr_user_id rt v = Ok None"
  proof (cases "truthy v")
    case True
    then have "parse_qualified_seerr_user_id rt v = parse_qualified_seerr_user_id rt (PStr (c # t))"
      by (simp add: parse_qualified_seerr_user_id_def c)
    with bracket_text_not_id[OF c(2)] show ?thesis by simp
  qed (simp add: parse_qualified_seerr_user_id_def)
qed

text \<open>The two traversals keep the keys of a dictionary and rewrite the value stored under each.\<close>

abbreviation rewrite_entry ::
  "(pyval \<Rightarrow> (pyval \<times> 'x) result) \<Rightarrow> string \<times> pyval \<Rightarrow> ((string \<times> pyval) \<times> 'x) result" where
  "rewrite_entry f \<equiv> \<lambda>(k, v). rbind (f v) (\<lambda>(v', x). Ok ((k, v'), x))"

lemma rewrite_entry_Ok:
  "rewrite_entry f p = Ok r \<longleftrightarrow> (\<exists>v' x. f (snd p) = Ok (v', x) \<and> r = ((fst p, v'), x))"
  by (cases p) (auto simp: rbind_Ok_iff)

lemma rewrite_entries_map_of:
  assumes "rmap (rewrite_entry f) d = Ok rs"
  shows "map_of (map fst rs) k = None \<and> map_of d k = None \<or>
    (\<exists>v v' x. map_of d k = Some v \<and> f v = Ok (v', x) \<and> map_of (map fst rs) k = Some v')"
  using assms
proof (induction d arbitrary: rs)
  case (Cons p d)
  from Cons.prems obtain z zs where z: "rewrite_entry f p = Ok z" "rmap (rewrite_entry f) d = Ok zs"
    "rs = z # zs"
    unfolding rmap_Cons_Ok by blast
  from z(1) obtain v' x where "f (snd p) = Ok (v', x)" "z = ((fst p, v'), x)"
    unfolding rewrite_entry_Ok by blast
  with Cons.IH[OF z(2)] z(3) show ?case by (cases p) auto
qed simp

lemma rewrite_entries_dget:
  assumes "rmap (rewrite_entry f) d = Ok rs"
  shows "has_key k (map fst rs) = has_key k d"
    and "has_key k d \<Longrightarrow> \<exists>x. f (dget d k) = Ok (dget (map fst rs) k, x)"
  using rewrite_entries_map_of[OF assms, of k] by (auto simp: has_key_def dget_def)

subsection \<open>Qualifying twice changes nothing more\<close>

lemma qualify_kind:
  "qualify_seerr_requesters rt c v = Ok (v', ch) \<Longrightarrow>
     (is_dict v' = is_dict v) \<and> (is_list v' = is_list v) \<and> (is_container v \<or> v' = v)"
  by (cases v) (auto simp: rbind_Ok_iff is_container_def split: prod.splits)

lemma qualify_value_settled:
  assumes "qualify_requester_value rt c v = Ok (v', ch)" "0 \<le> c"
  shows "qualify_requester_value rt c v' = Ok (v', False)"
proof (cases ch)
  case True
  with assms obtain u where "int_of_digits (py_strip (py_str rt v)) = Ok u"
    and v': "v' = PStr (qualify_seerr_user_id c u)"
    by (auto simp: qualify_requester_value_def Let_def rbind_Ok_iff split: if_splits)
  then have u: "0 \<le> u" "v' = PStr (qualify_seerr_user_id c u)" by (simp_all add: int_of_digits_nonneg)
  have "\<exists>t. qualify_seerr_user_id c u = t @ CHR '':'' # show_int u" by (simp add: qualify_seerr_user_id_def)
  then have "qualify_seerr_user_id c u \<noteq> []" by auto
  with u assms(2) show ?thesis
    by (simp add: qualify_requester_value_def strip_qualified is_qualified_seerr_user_id_def parse_qualify)
next
  case False
  with assms(1) have "v' = v"
    by (auto simp: qualify_requester_value_def Let_def rbind_Ok_iff split: if_splits)
  with False assms(1) show ?thesis by simp
qed

lemma qualify_value_container:
  assumes "prints_containers rt" "is_container v"
  shows "qualify_requester_value rt c v = Ok (v, False)"
proof -
  have "v \<noteq> PNone" using assms(2) by (auto simp: is_container_def)
  then show ?thesis
    using container_not_id[OF assms]
    by (simp add: qualify_requester_value_def is_qualified_seerr_user_id_def Let_def)
qed

lemma rmap_no_flag:
  "rmap f xs = Ok rs \<Longrightarrow> \<not> list_ex snd rs \<Longrightarrow> (\<And>v w. f v = Ok (w, False) \<Longrightarrow> w = v) \<Longrightarrow>
     \<forall>v \<in> set xs. f v = Ok (v, False)"
proof (induction xs arbitrary: rs)
  case (Cons x xs)
  then obtain z zs where z: "f x = Ok z" "rmap f xs = Ok zs" "rs = z # zs"
    unfolding rmap_Cons_Ok by blast
  obtain w b where "z = (w, b)" by fastforce
  with z Cons.prems(2) have "f x = Ok (w, False)" "\<not> list_ex snd zs" by auto
  with Cons.IH[OF z(2)] Cons.prems(3) show ?case by auto
qed simp

lemma qualify_requester_values_settled:
  assumes own: "qualify_requester_values rt c node = Ok (node', ch)" and c: "0 \<le> c"
    and req: "is_requester_condition node'"
  shows "\<forall>v \<in> set (requester_values node'). qualify_requester_value rt c v = Ok (v, False)"
proof (cases "is_requester_condition node")
  case False
  with own req show ?thesis by (simp add: qualify_requester_values_def)
next
  case True
  with own obtain rs where rs: "rmap (qualify_requester_value rt c) (requester_values node) = Ok rs"
    and node': "node' = (if list_ex snd rs then dput ''value'' (PList (map fst rs)) node else node)"
    by (auto simp: qualify_requester_values_def rbind_Ok_iff split: if_splits)
  show ?thesis
  proof (cases "list_ex snd rs")
    case ex: True
    then have "requester_values node' = map fst rs"
      by (simp add: node' requester_values_def dget_def map_of_dput)
    moreover have "qualify_requester_value rt c (fst r) = Ok (fst r, False)" if "r \<in> set rs" for r
    proof -
      from rmap_Ok_set[OF rs that] obtain v where "qualify_requester_value rt c v = Ok (fst r, snd r)" by auto
      then show ?thesis using c by (rule qualify_value_settled)
    qed
    ultimately show ?thesis by auto
  next
    case noex: False
    have "w = v" if "qualify_requester_value rt c v = Ok (w, False)" for v w
      using that by (auto simp: qualify_requester_value_def Let_def rbind_Ok_iff split: if_splits)
    with noex rmap_no_flag[OF rs] show ?thesis by (simp add: node')
  qed
qed

lemma rmap_unchanged:
  "(\<And>x. x \<in> set xs \<Longrightarrow> f x = Ok (x, False)) \<Longrightarrow> rmap f xs = Ok (map (\<lambda>x. (x, False)) xs)"
  by (rule rmap_all_ok)

lemma no_change_flags [simp]: "list_ex snd (map (\<lambda>x. (x, False)) xs) = False"
  by (simp add: list_ex_iff)

text \<open>The values of a requester condition after its entries have been rewritten by the traversal.\<close>

lemma requester_after_rewrite:
  assumes rs: "rmap (rewrite_entry f) node = Ok rs"
    and kind: "\<And>v v' x. f v = Ok (v', x) \<Longrightarrow> is_dict v' = is_dict v \<and> is_list v' = is_list v \<and> (is_container v \<or> v' = v)"
    and elems: "\<And>xs v' x. f (PList xs) = Ok (v', x) \<Longrightarrow>
        \<exists>ys. v' = PList ys \<and> (\<forall>y \<in> set ys. \<exists>v \<in> set xs. \<exists>x. f v = Ok (y, x))"
    and req: "is_requester_condition (map fst rs)"
  shows "is_requester_condition node"
    and "\<forall>y \<in> set (requester_values (map fst rs)). \<exists>v \<in> set (requester_values node). \<exists>x. f v = Ok (y, x)"
proof -
  note keys = rewrite_entries_dget[OF rs]
  have hv: "has_key ''value'' node" and hf: "has_key ''field'' node"
    using req keys(1) by (auto simp: is_requester_condition_def has_key_def dget_def split: option.splits)
  obtain x where "f (dget node ''field'') = Ok (PStr seerr_requester_field, x)"
    using keys(2)[OF hf] req by (auto simp: is_requester_condition_def)
  from kind[OF this] have "dget node ''field'' = PStr seerr_requester_field"
    by (auto simp: is_container_def)
  with hv show "is_requester_condition node" by (simp add: is_requester_condition_def)
  obtain y where y: "f (dget node ''value'') = Ok (dget (map fst rs) ''value'', y)"
    using keys(2)[OF hv] by blast
  show "\<forall>y \<in> set (requester_values (map fst rs)). \<exists>v \<in> set (requester_values node). \<exists>x. f v = Ok (y, x)"
  proof (cases "\<exists>xs. dget node ''value'' = PList xs")
    case True
    then obtain xs where xs: "dget node ''value'' = PList xs" ..
    from elems[OF y[unfolded xs]] obtain ys where "dget (map fst rs) ''value'' = PList ys"
      "\<forall>y \<in> set ys. \<exists>v \<in> set xs. \<exists>x. f v = Ok (y, x)" by blast
    then show ?thesis by (simp add: requester_values_def xs)
  next
    case False
    then have "\<not> is_list (dget node ''value'')" by (simp add: is_list_iff)
    moreover from this have "\<not> is_list (dget (map fst rs) ''value'')" using kind[OF y] by simp
    ultimately have "requester_values node = [dget node ''value'']"
      "requester_values (map fst rs) = [dget (map fst rs) ''value'']"
      by (auto simp: requester_values_def split: pyval.splits)
    with y show ?thesis by auto
  qed
qed

lemma rewritten_elements:
  assumes "rmap f xs = Ok rs"
  shows "\<forall>y \<in> set (map fst rs). \<exists>v \<in> set xs. \<exists>x. f v = Ok (y, x)"
proof
  fix y
  assume "y \<in> set (map fst rs)"
  then obtain x where "(y, x) \<in> set rs" by auto
  from rmap_Ok_set[OF assms this] show "\<exists>v \<in> set xs. \<exists>x. f v = Ok (y, x)" by blast
qed

lemma qualify_list:
  assumes "qualify_seerr_requesters rt c (PList xs) = Ok (v', x)"
  shows "\<exists>ys. v' = PList ys \<and> (\<forall>y \<in> set ys. \<exists>v \<in> set xs. \<exists>x. qualify_seerr_requesters rt c v = Ok (y, x))"
proof -
  from assms obtain rs where rs: "rmap (qualify_seerr_requesters rt c) xs = Ok rs" "v' = PList (map fst rs)"
    by (auto simp: rbind_Ok_iff)
  with rewritten_elements[OF rs(1)] show ?thesis by auto
qed

lemma qualify_idem_aux:
  assumes "prints_containers rt" "0 \<le> c"
  shows "qualify_seerr_requesters rt c v = Ok (v', ch) \<Longrightarrow> qualify_seerr_requesters rt c v' = Ok (v', False)"
  using assms
proof (induction rt c v arbitrary: v' ch rule: qualify_seerr_requesters.induct)
  case (1 rt c node)
  from "1.prems" obtain node' ch' rs where own: "qualify_requester_values rt c node = Ok (node', ch')"
    and rs: "rmap (rewrite_entry (qualify_seerr_requesters rt c)) node' = Ok rs"
    and v': "v' = PDict (map fst rs)"
    by (auto simp: rbind_Ok_iff)
  have "qualify_requester_values rt c (map fst rs) = Ok (map fst rs, False)"
  proof (cases "is_requester_condition (map fst rs)")
    case True
    have after: "is_requester_condition node'"
      by (rule requester_after_rewrite(1)[OF rs _ _ True]) (erule qualify_kind qualify_list)+
    have from_old: "\<forall>y \<in> set (requester_values (map fst rs)). \<exists>v \<in> set (requester_values node').
         \<exists>x. qualify_seerr_requesters rt c v = Ok (y, x)"
      by (rule requester_after_rewrite(2)[OF rs _ _ True]) (erule qualify_kind qualify_list)+
    have "qualify_requester_value rt c y = Ok (y, False)" if "y \<in> set (requester_values (map fst rs))" for y
    proof -
      from from_old that obtain v x where v: "v \<in> set (requester_values node')"
        and y: "qualify_seerr_requesters rt c v = Ok (y, x)" by blast
      show ?thesis
      proof (cases "is_container v")
        case True
        with qualify_kind[OF y] have "is_container y" by (auto simp: is_container_def)
        with "1.prems"(2) show ?thesis by (rule qualify_value_container)
      next
        case False
        with qualify_kind[OF y] have "y = v" by simp
        with qualify_requester_values_settled[OF own "1.prems"(3) after] v show ?thesis by simp
      qed
    qed
    then have "rmap (qualify_requester_value rt c) (requester_values (map fst rs))
        = Ok (map (\<lambda>x. (x, False)) (requester_values (map fst rs)))" by (rule rmap_unchanged)
    then show ?thesis by (simp add: qualify_requester_values_def)
  qed (simp add: qualify_requester_values_def)
  moreover have "rmap (rewrite_entry (qualify_seerr_requesters rt c)) (map fst rs)
      = Ok (map (\<lambda>x. (x, False)) (map fst rs))"
  proof (rule rmap_unchanged)
    fix e
    assume "e \<in> set (map fst rs)"
    then obtain r where r: "r \<in> set rs" "e = fst r" by auto
    from rmap_Ok_set[OF rs r(1)] obtain p where p: "p \<in> set node'"
      "rewrite_entry (qualify_seerr_requesters rt c) p = Ok r" by blast
    from p(2) obtain w x where w: "qualify_seerr_requesters rt c (snd p) = Ok (w, x)" "r = ((fst p, w), x)"
      unfolding rewrite_entry_Ok by blast
    have "qualify_seerr_requesters rt c w = Ok (w, False)"
      using "1.IH"[OF own _ p(1), of ch' "fst p" "snd p"] w(1) "1.prems"(2,3) by auto
    then show "rewrite_entry (qualify_seerr_requesters rt c) e = Ok (e, False)"
      by (simp add: r(2) w(2))
  qed
  ultimately show ?case by (simp add: v' list_ex_iff)
next
  case (2 rt c xs)
  then obtain rs where rs: "rmap (qualify_seerr_requesters rt c) xs = Ok rs" "v' = PList (map fst rs)"
    by (auto simp: rbind_Ok_iff)
  have "rmap (qualify_seerr_requesters rt c) (map fst rs) = Ok (map (\<lambda>x. (x, False)) (map fst rs))"
  proof (rule rmap_unchanged)
    fix y
    assume "y \<in> set (map fst rs)"
    with rewritten_elements[OF rs(1)] obtain v x where v: "v \<in> set xs"
      and y: "qualify_seerr_requesters rt c v = Ok (y, x)" by blast
    show "qualify_seerr_requesters rt c y = Ok (y, False)"
      by (rule "2.IH"[OF v y "2.prems"(2,3)])
  qed
  then show ?case by (simp add: rs(2) list_ex_iff)
qed auto

subsection \<open>Removing an instance leaves no condition that names it\<close>

lemma rfilter_sat: "rfilter f xs = Ok ys \<Longrightarrow> y \<in> set ys \<Longrightarrow> f y = Ok True"
proof (induction xs arbitrary: ys)
  case (Cons x xs)
  then obtain b zs where z: "f x = Ok b" "rfilter f xs = Ok zs" "ys = (if b then x # zs else zs)"
    by (auto simp: rbind_Ok_iff)
  with Cons show ?case by (cases b) auto
qed simp

lemma rfilter_all: "rfilter f xs = Ok ys \<Longrightarrow> length ys = length xs \<Longrightarrow> ys = xs"
proof (induction xs arbitrary: ys)
  case (Cons x xs)
  then obtain b zs where z: "f x = Ok b" "rfilter f xs = Ok zs" "ys = (if b then x # zs else zs)"
    by (auto simp: rbind_Ok_iff)
  have "length zs \<le> length xs"
    using z(2) by (induction xs arbitrary: zs) (fastforce simp: rbind_Ok_iff split: if_splits)+
  with z Cons show ?case by (cases b) auto
qed simp

lemma strip_kind:
  "strip_seerr_config rt c v = Ok (v', x) \<Longrightarrow>
     (is_dict v' = is_dict v) \<and> (is_list v' = is_list v) \<and> (is_container v \<or> v' = v)"
  by (cases v) (auto simp: rbind_Ok_iff is_container_def split: prod.splits)

lemma strip_list:
  assumes "strip_seerr_config rt c (PList xs) = Ok (v', x)"
  shows "\<exists>ys. v' = PList ys \<and> (\<forall>y \<in> set ys. \<exists>v \<in> set xs. \<exists>x. strip_seerr_config rt c v = Ok (y, x))"
proof -
  from assms obtain rs where rs: "rmap (strip_seerr_config rt c) xs = Ok rs" "v' = PList (map fst rs)"
    by (auto simp: rbind_Ok_iff)
  with rewritten_elements[OF rs(1)] show ?thesis by auto
qed

lemma strip_requester_values_keeps:
  assumes own: "strip_requester_values rt c node = Ok (node', ch, em)"
    and req: "is_requester_condition node'" and v: "v \<in> set (requester_values node')"
  shows "seerr_config_id_of rt v \<noteq> Ok (Some c)"
proof (cases "is_requester_condition node")
  case False
  with own req show ?thesis by (simp add: strip_requester_values_def)
next
  case True
  let ?f = "\<lambda>v. rbind (seerr_config_id_of rt v) (\<lambda>i. Ok (i \<noteq> Some c))"
  from own True obtain kept where kept: "rfilter ?f (requester_values node) = Ok kept"
    and node': "node' = (if length kept \<noteq> length (requester_values node)
        then dput ''value'' (PList kept) node else node)"
    by (auto simp: strip_requester_values_def Let_def rbind_Ok_iff split: if_splits)
  have "v \<in> set kept"
  proof (cases "length kept = length (requester_values node)")
    case True
    with rfilter_all[OF kept] node' v show ?thesis by simp
  next
    case False
    with node' v show ?thesis by (simp add: requester_values_def dget_def map_of_dput)
  qed
  from rfilter_sat[OF kept this] show ?thesis by (auto simp: rbind_Ok_iff)
qed

lemma own_config_ids_mem:
  "own_config_ids rt vs = Ok S \<Longrightarrow> c \<in> S \<Longrightarrow> \<exists>v \<in> set vs. seerr_config_id_of rt v = Ok (Some c)"
proof (induction vs arbitrary: S)
  case (Cons v vs)
  then obtain i T where "seerr_config_id_of rt v = Ok i" "own_config_ids rt vs = Ok T"
    "S = (case i of None \<Rightarrow> T | Some c \<Rightarrow> insert c T)"
    by (auto simp: rbind_Ok_iff)
  with Cons show ?case by (cases i) auto
qed simp

lemma strip_entry_eq:
  "(\<lambda>(k, v). rbind (strip_seerr_config rt c v) (\<lambda>(v', ch, em). Ok ((k, v'), ch, em)))
     = rewrite_entry (strip_seerr_config rt c)"
proof (rule ext, clarify)
  fix k :: string and v :: pyval
  show "rbind (strip_seerr_config rt c v) (\<lambda>(v', ch, em). Ok ((k, v'), ch, em)) =
      rbind (strip_seerr_config rt c v) (\<lambda>(v', x). Ok ((k, v'), x))"
    by (cases "strip_seerr_config rt c v") auto
qed

lemma strip_removes_aux:
  assumes "prints_containers rt"
  shows "strip_seerr_config rt c v = Ok (v', x) \<Longrightarrow> collect_seerr_config_ids rt v' = Ok S \<Longrightarrow> c \<notin> S"
  using assms
proof (induction rt c v arbitrary: v' x S rule: strip_seerr_config.induct)
  case (1 rt c node)
  from "1.prems"(1) obtain node' ch em rs where own: "strip_requester_values rt c node = Ok (node', ch, em)"
    and rs: "rmap (rewrite_entry (strip_seerr_config rt c)) node' = Ok rs"
    and v': "v' = PDict (map fst rs)"
    unfolding strip_seerr_config.simps strip_entry_eq by (auto simp: rbind_Ok_iff)
  from "1.prems"(2) obtain F Ss where
    F: "(if is_requester_condition (map fst rs) then own_config_ids rt (requester_values (map fst rs)) else Ok {}) = Ok F"
    and Ss: "rmap (\<lambda>p. collect_seerr_config_ids rt (snd p)) (map fst rs) = Ok Ss" and S: "S = F \<union> \<Union> (set Ss)"
    by (auto simp: v' rbind_Ok_iff)
  have "c \<notin> F"
  proof (cases "is_requester_condition (map fst rs)")
    case True
    have after: "is_requester_condition node'"
      by (rule requester_after_rewrite(1)[OF rs _ _ True]) (erule strip_kind strip_list)+
    have from_old: "\<forall>y \<in> set (requester_values (map fst rs)). \<exists>v \<in> set (requester_values node').
         \<exists>x. strip_seerr_config rt c v = Ok (y, x)"
      by (rule requester_after_rewrite(2)[OF rs _ _ True]) (erule strip_kind strip_list)+
    have "seerr_config_id_of rt y \<noteq> Ok (Some c)" if y: "y \<in> set (requester_values (map fst rs))" for y
    proof -
      from from_old y obtain v x where v: "v \<in> set (requester_values node')"
        and s: "strip_seerr_config rt c v = Ok (y, x)" by blast
      show ?thesis
      proof (cases "is_container v")
        case True
        with strip_kind[OF s] have "is_container y" by (auto simp: is_container_def)
        with container_not_id(1)[OF "1.prems"(3)] show ?thesis by (simp add: seerr_config_id_of_def)
      next
        case False
        with strip_kind[OF s] have "y = v" by simp
        with strip_requester_values_keeps[OF own after v] show ?thesis by simp
      qed
    qed
    with own_config_ids_mem F True show ?thesis by (metis (full_types))
  qed (use F in simp)
  moreover have "c \<notin> T" if T: "T \<in> set Ss" for T
  proof -
    from rmap_Ok_set[OF Ss T] obtain r where r: "r \<in> set rs" "collect_seerr_config_ids rt (snd (fst r)) = Ok T" by auto
    from rmap_Ok_set[OF rs r(1)] obtain p where p: "p \<in> set node'"
      "rewrite_entry (strip_seerr_config rt c) p = Ok r" by blast
    from p(2) obtain w y where w: "strip_seerr_config rt c (snd p) = Ok (w, y)" "r = ((fst p, w), y)"
      unfolding rewrite_entry_Ok by blast
    have "collect_seerr_config_ids rt w = Ok T" using r(2) by (simp add: w(2))
    with "1.IH"[OF own refl refl p(1), of "fst p" "snd p" w y T] w(1) "1.prems"(3)
    show ?thesis by auto
  qed
  ultimately show ?case by (auto simp: S)
next
  case (2 rt c xs)
  then obtain rs where rs: "rmap (strip_seerr_config rt c) xs = Ok rs" "v' = PList (map fst rs)"
    by (auto simp: rbind_Ok_iff)
  from "2.prems"(2) obtain Ss where Ss: "rmap (collect_seerr_config_ids rt) (map fst rs) = Ok Ss"
    "S = \<Union> (set Ss)" by (auto simp: rs(2) rbind_Ok_iff)
  have "c \<notin> T" if T: "T \<in> set Ss" for T
  proof -
    from rmap_Ok_set[OF Ss(1) T] obtain y where y: "y \<in> set (map fst rs)" "collect_seerr_config_ids rt y = Ok T" by blast
    with rewritten_elements[OF rs(1)] obtain v x where v: "v \<in> set xs"
      "strip_seerr_config rt c v = Ok (y, x)" by blast
    show ?thesis by (rule "2.IH"[OF v y(2) "2.prems"(3)])
  qed
  then show ?case by (auto simp: Ss(2))
qed auto

section \<open>Properties\<close>

definition bracket_runtime :: runtime where
  "bracket_runtime = demo_runtime\<lparr>text_of := (\<lambda>v. case v of PList _ \<Rightarrow> ''[]'' | _ \<Rightarrow> ''{}'')\<rparr>"

lemma bracket_prints: "prints_containers bracket_runtime"
  by (simp add: prints_containers_def bracket_runtime_def)

definition demo_requesters :: "pyval list \<Rightarrow> pyval" where
  "demo_requesters ids =
     PDict [(''type'', PStr ''condition''), (''field'', PStr ''seerr.requested_by_user_ids''),
            (''operator'', PStr ''contains_any''), (''value'', PList ids)]"

text \<open>Qualifying the requesters of an imported rule is idempotent.  A second pass over the rewritten
  definition returns it unchanged and reports no change, for any tree of nodes.  Lists and
  dictionaries are assumed to print with their brackets, as Python prints them.\<close>

theorem qualify_requesters_idempotent:
  assumes "prints_containers rt" "0 \<le> c"
    and "qualify_seerr_requesters rt c v = Ok (v', changed)"
  shows "qualify_seerr_requesters rt c v' = Ok (v', False)"
  by (rule qualify_idem_aux[OF assms(1,2,3)])

lemma qualify_requesters_idempotent_witness:
  "qualify_seerr_requesters bracket_runtime 7 (demo_requesters [PStr ''7:3'', PStr ''7:4'']) =
     Ok (demo_requesters [PStr ''7:3'', PStr ''7:4''], False)"
proof -
  have "qualify_seerr_requesters bracket_runtime 7 (demo_requesters [PStr ''3'', PStr ''7:4'']) =
     Ok (demo_requesters [PStr ''7:3'', PStr ''7:4''], True)"
    by code_simp
  from qualify_requesters_idempotent[OF bracket_prints _ this] show ?thesis by simp
qed

text \<open>Removing a Seerr instance removes it everywhere.  After stripping an instance from a
  definition, no requester condition at any depth, enabled or not, names a user of it.\<close>

theorem strip_removes_instance:
  assumes "prints_containers rt"
    and "strip_seerr_config rt c v = Ok (v', flags)" "collect_seerr_config_ids rt v' = Ok ids"
  shows "c \<notin> ids"
  by (rule strip_removes_aux[OF assms])

lemma strip_removes_instance_witness: "(7 :: int) \<notin> {8}"
proof -
  have "strip_seerr_config bracket_runtime 7 (demo_requesters [PStr ''7:3'', PStr ''8:4'']) =
     Ok (demo_requesters [PStr ''8:4''], True, False)"
    by code_simp
  moreover have "collect_seerr_config_ids bracket_runtime (demo_requesters [PStr ''8:4'']) = Ok {8}"
    by code_simp
  ultimately show ?thesis by (rule strip_removes_instance[OF bracket_prints])
qed

text \<open>Normalised Arr targets read back.  Reading the targets of an action that has been normalised
  gives the list that normalising returned: distinct, non-negative, the plural key winning over
  the legacy one.\<close>

theorem normalized_arr_targets_read_back:
  assumes "normalize_arr_service_config_ids action service = (action', ids)"
  shows "get_arr_service_config_ids (Some action') service = ids \<and> distinct ids \<and> list_all ((\<le>) 0) ids"
proof -
  note r = get_arr_of_normalized[OF assms]
  then have "distinct ids" using distinct_get_arr by metis
  moreover have "list_all ((\<le>) 0) ids" using r get_arr_nonneg unfolding list_all_iff by metis
  ultimately show ?thesis using r by blast
qed

lemma normalized_arr_targets_read_back_witness:
  "get_arr_service_config_ids (Some (fst (normalize_arr_service_config_ids
     [(''radarr_service_config_id'', PInt 4)] Radarr))) Radarr =
   snd (normalize_arr_service_config_ids [(''radarr_service_config_id'', PInt 4)] Radarr)"
  using normalized_arr_targets_read_back[OF prod.collapse[symmetric]] by blast

end
