(* ===== verification/Rule_Operators.thy ===== *)
theory Rule_Operators
  imports Paths Rule_Fields Rule_Actions
begin

text \<open>
  The comparison of one condition: the value helpers, the language and country
  normalisation, the alias expansion of playback usernames, and the operators
  (\<open>_matches_operator\<close> and what it calls in \<open>backend/core/rule_engine.py\<close>,
  \<open>backend/core/utils/language.py\<close>).  A comparison can raise: a number too large for a
  float, an unhashable language value.
\<close>

section \<open>Value helpers\<close>

fun exists_value :: "pyval \<Rightarrow> bool" where
  "exists_value PNone = False"
| "exists_value (PStr s) = (py_strip s \<noteq> [])"
| "exists_value (PList xs) = list_ex exists_value xs"
| "exists_value v = True"

fun as_list :: "pyval \<Rightarrow> pyval list" where
  "as_list PNone = []"
| "as_list (PList xs) = xs"
| "as_list v = [v]"

fun first_scalar :: "pyval \<Rightarrow> pyval" where
  "first_scalar (PList []) = PNone"
| "first_scalar (PList (v # vs)) = v"
| "first_scalar v = v"

fun number :: "pyval \<Rightarrow> pyfloat option result" where
  "number (PBool b) = Ok (Some (FFin (if b then 1 else 0)))"
| "number (PInt i) = rbind (float_of_int i) (\<lambda>f. Ok (Some f))"
| "number (PFloat f) = Ok (Some f)"
| "number (PStr s) = Ok (parse_float s)"
| "number v = Ok None"

definition normalize :: "runtime \<Rightarrow> pyval \<Rightarrow> string" where
  "normalize rt v = py_lower (py_strip (py_str rt v))"

abbreviation day_us :: int where
  "day_us \<equiv> 86400000000"

text \<open>The UTC date of a datetime, as days since 0001-01-01; a naive one counts as UTC.\<close>

fun utc_instant :: "pydatetime \<Rightarrow> int" where
  "utc_instant (PDT w None) = w"
| "utc_instant (PDT w (Some off)) = w - off"

text \<open>\<open>cleaned.replace("Z", "+00:00")\<close>\<close>

definition zulu_offset :: "string \<Rightarrow> string" where
  "zulu_offset s = concat (map (\<lambda>c. if c = CHR ''Z'' then ''+00:00'' else [c]) s)"

fun date_value :: "runtime \<Rightarrow> pyval \<Rightarrow> int option" where
  "date_value rt (PDatetime d) = Some (utc_instant d div day_us)"
| "date_value rt (PDate d) = Some d"
| "date_value rt (PStr s) =
     (let cleaned = py_strip s
      in if cleaned = [] then None
         else (case parse_iso_date rt cleaned of
                 Some d \<Rightarrow> Some d
               | None \<Rightarrow> parse_iso_datetime rt (zulu_offset cleaned)))"
| "date_value rt v = None"

section \<open>Languages and countries\<close>

definition unknown_language_values :: "string list" where
  "unknown_language_values =
     ['''', ''mis'', ''mul'', ''und'', ''undefined'', ''undetermined'', ''unknown'']"

definition language_tag_base :: "string \<Rightarrow> string" where
  "language_tag_base s =
     takeWhile (\<lambda>c. c \<noteq> CHR ''-'') (map (\<lambda>c. if c = CHR ''_'' then CHR ''-'' else c) s)"

fun first_some :: "('a \<Rightarrow> 'b option) \<Rightarrow> 'a list \<Rightarrow> 'b option" where
  "first_some f [] = None"
| "first_some f (x # xs) = (case f x of Some y \<Rightarrow> Some y | None \<Rightarrow> first_some f xs)"

text \<open>The function is memoised on its argument, so an unhashable one raises.\<close>

definition normalize_language :: "runtime \<Rightarrow> pyval \<Rightarrow> string option result" where
  "normalize_language rt value =
     (if \<not> hashable value then Raise TypeError
      else let raw = py_strip (if truthy value then py_str rt value else []);
               normalized = py_lower raw
           in if List.member unknown_language_values normalized then Ok None
              else let tag_base = language_tag_base normalized;
                       candidates = (if tag_base \<noteq> [] \<and> tag_base \<noteq> normalized
                                     then [raw, tag_base] else [raw])
                   in case first_some (match_language rt) candidates of
                        Some part3 \<Rightarrow> Ok (Some part3)
                      | None \<Rightarrow> Ok (Some normalized))"

definition normalized_language_values :: "runtime \<Rightarrow> pyval \<Rightarrow> string list result" where
  "normalized_language_values rt value =
     rbind (rmap (normalize_language rt) (as_list value)) (\<lambda>rs. Ok (somes rs))"

definition normalized_country_values :: "runtime \<Rightarrow> pyval \<Rightarrow> string list" where
  "normalized_country_values rt value =
     filter (\<lambda>s. s \<noteq> [])
       (map (\<lambda>v. py_upper (py_strip (if truthy v then py_str rt v else []))) (as_list value))"

section \<open>Playback usernames\<close>

text \<open>The alias registry in force, if any: each name with the names recorded for its account.\<close>

type_synonym alias_map = "(string \<times> string list) list"

definition watch_user_aliases :: "runtime \<Rightarrow> (pyval \<times> pyval list) list \<Rightarrow> alias_map" where
  "watch_user_aliases rt m =
     dupdate [] (map (\<lambda>(name, al). (normalize rt name, map (normalize rt) al)) m)"

definition expand_alias :: "runtime \<Rightarrow> alias_map \<Rightarrow> pyval \<Rightarrow> string list" where
  "expand_alias rt al name =
     (let normalized = normalize rt name
      in normalized # (case map_of al normalized of None \<Rightarrow> [] | Some ns \<Rightarrow> ns))"

definition expand_playback_username :: "runtime \<Rightarrow> alias_map option \<Rightarrow> pyval \<Rightarrow> string list" where
  "expand_playback_username rt al name =
     (case al of None \<Rightarrow> [normalize rt name] | Some r \<Rightarrow> expand_alias rt r name)"

section \<open>List operators\<close>

definition list_operator_result :: "string \<Rightarrow> bool \<Rightarrow> bool \<Rightarrow> bool" where
  "list_operator_result operator has_any has_all =
     (if operator = ''in'' \<or> operator = ''contains_any'' then has_any
      else if operator = ''not_in'' \<or> operator = ''not_contains_any'' then \<not> has_any
      else if operator = ''contains_all'' then has_all
      else if operator = ''not_contains_all'' then \<not> has_all
      else False)"

definition existing :: "pyval \<Rightarrow> pyval list" where
  "existing v = filter exists_value (as_list v)"

definition matches_path_list :: "runtime \<Rightarrow> pyval \<Rightarrow> string \<Rightarrow> pyval \<Rightarrow> bool" where
  "matches_path_list rt actual operator expected =
     (let actual_paths = map (normalize_fpath_value rt False True) (existing actual);
          expected_paths = map (normalize_fpath_value rt True True) (existing expected);
          prefix = (\<lambda>a e. matches_path_prefix rt (PStr a) (PStr e))
      in if expected_paths = [] then False
         else list_operator_result operator
                (list_ex (\<lambda>a. list_ex (prefix a) expected_paths) actual_paths)
                (list_all (\<lambda>e. list_ex (\<lambda>a. prefix a e) actual_paths) expected_paths))"

definition matches_username_list :: "runtime \<Rightarrow> alias_map option \<Rightarrow> pyval \<Rightarrow> string \<Rightarrow> pyval \<Rightarrow> bool" where
  "matches_username_list rt al actual operator expected =
     (let actual_names = set (map (normalize rt) (existing actual));
          expected_groups = map (expand_playback_username rt al) (existing expected);
          meets = (\<lambda>group. set group \<inter> actual_names \<noteq> {})
      in if expected_groups = [] then False
         else list_operator_result operator (list_ex meets expected_groups) (list_all meets expected_groups))"

text \<open>The two sides of a comparison of value sets, by the field's kind.\<close>

definition list_values :: "runtime \<Rightarrow> string \<Rightarrow> pyval \<Rightarrow> string list result" where
  "list_values rt field v =
     (if List.member language_fields field then normalized_language_values rt v
      else if List.member country_fields field then Ok (normalized_country_values rt v)
      else Ok (map (normalize rt) (existing v)))"

definition matches_list_operator ::
  "runtime \<Rightarrow> alias_map option \<Rightarrow> string \<Rightarrow> pyval \<Rightarrow> string \<Rightarrow> pyval \<Rightarrow> bool result" where
  "matches_list_operator rt al field actual operator expected =
     (if field = ''media.path'' then Ok (matches_path_list rt actual operator expected)
      else if List.member playback_username_fields field
      then Ok (matches_username_list rt al actual operator expected)
      else rbind (list_values rt field actual) (\<lambda>actual_values.
           rbind (list_values rt field expected) (\<lambda>expected_values.
             if List.member fail_closed_list_fields field \<and> (actual_values = [] \<or> expected_values = [])
             then Ok False
             else if expected_values = [] then Ok False
             else Ok (list_operator_result operator
                        (set actual_values \<inter> set expected_values \<noteq> {})
                        (set expected_values \<subseteq> set actual_values)))))"

section \<open>Regular expressions and substrings\<close>

text \<open>\<open>None\<close> when no supplied pattern compiles.\<close>

definition matches_any_regex :: "runtime \<Rightarrow> string \<Rightarrow> pyval list \<Rightarrow> pyval list \<Rightarrow> bool option" where
  "matches_any_regex rt field vals patterns =
     (let compiled = somes (map (\<lambda>p. compile_regex rt (py_str rt p)) (filter exists_value patterns));
          normalized = map (if List.member path_fields field then normalize_fpath_value rt False True
                            else normalize rt) (filter exists_value vals)
      in if compiled = [] then None
         else Some (list_ex (\<lambda>search. list_ex search normalized) compiled))"

definition matches_substring :: "runtime \<Rightarrow> pyval \<Rightarrow> string \<Rightarrow> pyval \<Rightarrow> bool" where
  "matches_substring rt actual operator expected =
     (let needles = map (normalize rt) (existing expected);
          haystacks = map (normalize rt) (existing actual);
          found = list_ex (\<lambda>h. list_ex (\<lambda>n. is_infix n h) needles) haystacks
      in if needles = [] then False
         else if operator = ''contains_substring'' then found else \<not> found)"

section \<open>Scalars\<close>

definition matches_date :: "runtime \<Rightarrow> pyval \<Rightarrow> string \<Rightarrow> pyval \<Rightarrow> bool" where
  "matches_date rt actual operator expected =
     (case (date_value rt (first_scalar actual), date_value rt (first_scalar expected)) of
        (Some l, Some r) \<Rightarrow>
          if operator = ''before'' then l < r
          else if operator = ''on_or_before'' then l \<le> r
          else if operator = ''after'' then l > r
          else if operator = ''on_or_after'' then l \<ge> r
          else False
      | _ \<Rightarrow> False)"

text \<open>\<open>==\<close> of two scalars: as numbers when both are numbers, else as normalised text.\<close>

definition scalars_equal :: "runtime \<Rightarrow> pyval \<Rightarrow> pyval \<Rightarrow> bool result" where
  "scalars_equal rt left right =
     rbind (number left) (\<lambda>l. rbind (number right) (\<lambda>r.
       Ok (case (l, r) of
             (Some x, Some y) \<Rightarrow> float_eq x y
           | _ \<Rightarrow> normalize rt left = normalize rt right)))"

definition matches_order :: "pyval \<Rightarrow> string \<Rightarrow> pyval \<Rightarrow> bool result" where
  "matches_order left operator right =
     rbind (number left) (\<lambda>l. rbind (number right) (\<lambda>r.
       Ok (case (l, r) of
             (Some x, Some y) \<Rightarrow>
               if operator = ''greater_than'' then float_less y x
               else if operator = ''greater_than_or_equal'' then float_le y x
               else if operator = ''less_than'' then float_less x y
               else if operator = ''less_than_or_equal'' then float_le x y
               else False
           | _ \<Rightarrow> False)))"

definition matches_scalar :: "runtime \<Rightarrow> string \<Rightarrow> pyval \<Rightarrow> string \<Rightarrow> pyval \<Rightarrow> bool result" where
  "matches_scalar rt field actual operator expected =
     (let left = first_scalar actual; right = first_scalar expected
      in if left = PNone \<or> right = PNone then Ok False
         else if operator = ''equals'' then
           (if field = ''media.path'' then Ok (matches_path_prefix rt left right)
            else scalars_equal rt left right)
         else if operator = ''not_equals'' then
           (if field = ''media.path'' then Ok (\<not> matches_path_prefix rt left right)
            else rbind (scalars_equal rt left right) (\<lambda>b. Ok (\<not> b)))
         else matches_order left operator right)"

section \<open>One condition\<close>

definition matches_operator ::
  "runtime \<Rightarrow> alias_map option \<Rightarrow> string \<Rightarrow> pyval \<Rightarrow> string \<Rightarrow> pyval \<Rightarrow> bool result" where
  "matches_operator rt al field actual operator expected =
     (if actual = PUnavailable then Ok False
      else if operator = ''exists'' then
        (if List.member language_fields field
         then rbind (normalized_language_values rt actual) (\<lambda>vs. Ok (vs \<noteq> []))
         else Ok (exists_value actual))
      else if operator = ''not_exists'' then
        (if List.member language_fields field
         then rbind (normalized_language_values rt actual) (\<lambda>vs. Ok (vs = []))
         else Ok (\<not> exists_value actual))
      else if operator = ''is_true'' then Ok (actual = PBool True)
      else if operator = ''is_false'' then Ok (actual = PBool False)
      else if List.member regex_operators operator then
        Ok (case matches_any_regex rt field (as_list actual) (as_list expected) of
              None \<Rightarrow> False
            | Some m \<Rightarrow> if operator = ''matches_any_regex'' then m else \<not> m)
      else if List.member list_operators operator then
        matches_list_operator rt al field actual operator expected
      else if List.member tag_substring_operators operator then
        Ok (matches_substring rt actual operator expected)
      else if (List.member multi_value_text_fields field \<or> field = ''media.path'') \<and>
              (operator = ''equals'' \<or> operator = ''not_equals'') then
        matches_list_operator rt al field actual
          (if operator = ''equals'' then ''contains_any'' else ''not_contains_any'') expected
      else if List.member [''before'', ''on_or_before'', ''after'', ''on_or_after''] operator then
        Ok (matches_date rt actual operator expected)
      else matches_scalar rt field actual operator expected)"

section \<open>Properties\<close>

definition negated_list_operator :: "string \<Rightarrow> string \<Rightarrow> bool" where
  "negated_list_operator operator negated \<longleftrightarrow>
     (operator, negated) \<in> {(''in'', ''not_in''), (''contains_any'', ''not_contains_any''),
                             (''contains_all'', ''not_contains_all'')}"

lemma negated_result:
  "negated_list_operator op neg \<Longrightarrow> list_operator_result neg any every = (\<not> list_operator_result op any every)"
  by (auto simp: negated_list_operator_def list_operator_result_def)

lemma list_operator_shape:
  "(\<forall>op. matches_list_operator rt al field a op e = Ok False) \<or>
   (\<exists>any every. \<forall>op. matches_list_operator rt al field a op e = Ok (list_operator_result op any every)) \<or>
   (\<exists>ex. \<forall>op. matches_list_operator rt al field a op e = Raise ex)"
proof (cases "field = ''media.path'' \<or> List.member playback_username_fields field")
  case True
  then show ?thesis
    by (auto simp: matches_list_operator_def matches_path_list_def matches_username_list_def Let_def)
next
  case False
  show ?thesis
  proof (cases "list_values rt field a")
    case (Ok x)
    show ?thesis
    proof (cases "list_values rt field e")
      case (Ok y)
      with \<open>list_values rt field a = Ok x\<close> False show ?thesis
        by (cases "List.member fail_closed_list_fields field \<and> (x = [] \<or> y = []) \<or> y = []")
          (auto simp: matches_list_operator_def)
    qed (use False \<open>list_values rt field a = Ok x\<close> in \<open>auto simp: matches_list_operator_def\<close>)
  qed (use False in \<open>auto simp: matches_list_operator_def\<close>)
qed

text \<open>A negated list operator is the complement, or nothing matches.  If a list operator can be
  evaluated so can its negation, and either the two disagree, or the comparison fails closed: then
  no list operator at all matches, so an empty selection or an unknown value never satisfies a
  condition by way of its negation.\<close>

theorem list_negation_complements_or_fails_closed:
  assumes "matches_list_operator rt al field actual operator expected = Ok b"
    and "negated_list_operator operator negated"
  shows "matches_list_operator rt al field actual negated expected = Ok (\<not> b) \<or>
         (\<forall>op. matches_list_operator rt al field actual op expected = Ok False)"
  using list_operator_shape[of rt al field actual expected] assms(1) negated_result[OF assms(2)] by auto

lemma list_negation_complements_or_fails_closed_witness:
  "matches_list_operator demo_runtime None ''arr.tags'' (PList [PStr ''Keep'']) ''not_in'' (PList [PStr '' keep '']) = Ok (\<not> True) \<or>
   (\<forall>op. matches_list_operator demo_runtime None ''arr.tags'' (PList [PStr ''Keep'']) op (PList [PStr '' keep '']) = Ok False)"
  by (rule list_negation_complements_or_fails_closed[of _ _ _ _ "''in''"]) (code_simp, simp add: negated_list_operator_def)

end
