(* ===== verification/Rule_Format.thy ===== *)
theory Rule_Format
  imports Rule_Operators
begin

text \<open>
  How a matched condition is reported: the rendered value, the sentence shown to the
  user and the JSON record kept with a candidate (\<open>format_rule_value\<close> to \<open>_json_safe\<close>
  in \<open>backend/core/rule_engine.py\<close>).
\<close>

section \<open>Numbers in human units\<close>

definition byte_value_fields :: "string list" where
  "byte_value_fields = [''media.size'', ''disk.free_bytes'']"

definition millisecond_value_fields :: "string list" where
  "millisecond_value_fields = [''media.duration'']"

text \<open>The format specifiers \<open>.0f\<close> and \<open>.2f\<close> of a non-negative finite float.\<close>

definition fixed0 :: "rat \<Rightarrow> string" where
  "fixed0 x = show_int (round_half_even x)"

definition fixed2 :: "rat \<Rightarrow> string" where
  "fixed2 x =
     (let n = round_half_even (x * 100); r = n mod 100
      in show_int (n div 100) @ ''.'' @ (if r < 10 then ''0'' else []) @ show_int r)"

definition trim_fraction :: "string \<Rightarrow> string" where
  "trim_fraction s = rstrip_with (\<lambda>c. c = CHR ''.'') (rstrip_with (\<lambda>c. c = CHR ''0'') s)"

text \<open>The division by 1024 of the loop is exact in binary64 above the smallest normal number.\<close>

fun format_units :: "string list \<Rightarrow> rat \<Rightarrow> string" where
  "format_units [] x = []"
| "format_units (u # us) x =
     (if x < 1024 \<or> u = ''TiB''
      then (if u = ''B'' then fixed0 x else trim_fraction (fixed2 x)) @ '' '' @ u
      else format_units us (x / 1024))"

definition format_bytes :: "pyfloat \<Rightarrow> string" where
  "format_bytes value =
     (case value of
        FFin x \<Rightarrow> (if x < 0 then ''-'' else []) @
                  format_units [''B'', ''KiB'', ''MiB'', ''GiB'', ''TiB''] \<bar>x\<bar>
      | FInf neg \<Rightarrow> (if neg then ''-'' else []) @ ''inf TiB''
      | FNan \<Rightarrow> ''nan TiB'')"

text \<open>
  \<open>abs(value) // 1000\<close> on floats: the remainder is exact, the quotient is rounded, and the
  result is its floor, corrected upwards when rounding went down past an integer.
\<close>

definition float_floordiv_1000 :: "rat \<Rightarrow> int" where
  "float_floordiv_1000 x =
     (let m = x - of_int (floor (x / 1000)) * 1000;
          d = (case round_double (x - m) of FFin y \<Rightarrow> (case round_double (y / 1000) of FFin q \<Rightarrow> q | _ \<Rightarrow> 0) | _ \<Rightarrow> 0);
          f = floor d
      in if d - of_int f > 1/2 then f + 1 else f)"

definition format_milliseconds :: "pyfloat \<Rightarrow> string result" where
  "format_milliseconds value =
     (case value of
        FFin x \<Rightarrow>
          (let total = float_floordiv_1000 \<bar>x\<bar>;
               hours = total div 3600; minutes = total mod 3600 div 60; seconds = total mod 60;
               sign = (if x < 0 then ''-'' else [])
           in Ok (if hours \<noteq> 0 then sign @ show_int hours @ ''h '' @ show_int minutes @ ''m''
                  else if minutes \<noteq> 0 then sign @ show_int minutes @ ''m '' @ show_int seconds @ ''s''
                  else sign @ show_int seconds @ ''s''))
      | _ \<Rightarrow> Raise (ValueError ''cannot convert float NaN to integer''))"

section \<open>Values\<close>

definition format_number :: "runtime \<Rightarrow> string \<Rightarrow> pyval \<Rightarrow> pyfloat result \<Rightarrow> string result" where
  "format_number rt field v as_float =
     (if List.member byte_value_fields field then rbind as_float (\<lambda>f. Ok (format_bytes f))
      else if List.member millisecond_value_fields field then rbind as_float format_milliseconds
      else Ok (py_str rt v))"

fun format_rule_value :: "runtime \<Rightarrow> string \<Rightarrow> pyval \<Rightarrow> string result" where
  "format_rule_value rt field (PInt i) = format_number rt field (PInt i) (float_of_int i)"
| "format_rule_value rt field (PFloat f) = format_number rt field (PFloat f) (Ok f)"
| "format_rule_value rt field v = Ok (py_str rt v)"

definition format_actual :: "runtime \<Rightarrow> string \<Rightarrow> pyval \<Rightarrow> string result" where
  "format_actual rt field actual =
     (if as_list actual = [] then Ok ''missing''
      else rbind (rmap (format_rule_value rt field) (take 4 (as_list actual))) (\<lambda>ts. Ok (join '', '' ts)))"

section \<open>Contexts\<close>

text \<open>
  The field values of one target: what \<open>_build_context\<close> returns.  A field it leaves out
  reads as \<open>None\<close>.
\<close>

type_synonym eval_context = "string \<rightharpoonup> pyval"

definition ctx_get :: "eval_context \<Rightarrow> string \<Rightarrow> pyval" where
  "ctx_get c field = (case c field of None \<Rightarrow> PNone | Some v \<Rightarrow> v)"

definition ctx_get_or :: "eval_context \<Rightarrow> string \<Rightarrow> pyval \<Rightarrow> pyval" where
  "ctx_get_or c field v0 = (case c field of None \<Rightarrow> v0 | Some v \<Rightarrow> v)"

section \<open>Reasons\<close>

fun whole_as_int :: "pyval \<Rightarrow> pyval" where
  "whole_as_int (PFloat (FFin x)) = (if of_int (floor x) = x then PInt (floor x) else PFloat (FFin x))"
| "whole_as_int v = v"

definition nothing_to_show :: "pyval \<Rightarrow> bool" where
  "nothing_to_show v \<longleftrightarrow> v = PUnavailable \<or> v = PNone \<or> v = PStr [] \<or> v = PList []"

fun companion_details :: "runtime \<Rightarrow> eval_context \<Rightarrow> (string \<times> string \<times> string) list \<Rightarrow> string list result" where
  "companion_details rt c [] = Ok []"
| "companion_details rt c ((companion, before, after) # rest) =
     (let value = ctx_get_or c companion PUnavailable
      in if nothing_to_show value then companion_details rt c rest
         else rbind (format_actual rt companion (whole_as_int value)) (\<lambda>t.
              rbind (companion_details rt c rest) (\<lambda>ts. Ok ((before @ t @ after) # ts))))"

definition companion_reason_details :: "runtime \<Rightarrow> string \<Rightarrow> eval_context \<Rightarrow> string list result" where
  "companion_reason_details rt field c =
     companion_details rt c (case map_of boolean_reason_companions field of None \<Rightarrow> [] | Some cs \<Rightarrow> cs)"

definition valueless_reason_details ::
  "runtime \<Rightarrow> string \<Rightarrow> string \<Rightarrow> pyval \<Rightarrow> string list \<Rightarrow> string list result" where
  "valueless_reason_details rt field operator actual details =
     (if operator = ''exists'' then
        (if as_list actual = [] then Ok [] else rbind (format_actual rt field actual) (\<lambda>t. Ok [t]))
      else if operator = ''not_exists'' then Ok []
      else Ok (filter (\<lambda>t. t \<noteq> []) (map py_strip details)))"

definition format_valueless_reason ::
  "runtime \<Rightarrow> string \<Rightarrow> string \<Rightarrow> string \<Rightarrow> string \<Rightarrow> pyval \<Rightarrow> string list \<Rightarrow> string result" where
  "format_valueless_reason rt field_label operator_label field operator actual details =
     rbind (valueless_reason_details rt field operator actual details) (\<lambda>parts.
       Ok (if parts = [] then field_label @ '' '' @ operator_label
           else field_label @ '' '' @ operator_label @ '' ('' @ join ''; '' parts @ '')''))"

definition format_reason ::
  "runtime \<Rightarrow> string \<Rightarrow> string \<Rightarrow> pyval \<Rightarrow> pyval \<Rightarrow> string list \<Rightarrow> string result" where
  "format_reason rt field operator expected actual details =
     (let label = label_of field_labels field; op = label_of operator_labels operator
      in if List.member valueless_operators operator
         then format_valueless_reason rt label op field operator actual details
         else rbind (rmap (format_rule_value rt field) (as_list expected)) (\<lambda>vs.
              rbind (format_actual rt field actual) (\<lambda>a.
                Ok (label @ '' '' @ op @ '' '' @ join '', '' vs @ '' ('' @ a @ '')''))))"

fun json_safe :: "runtime \<Rightarrow> pyval \<Rightarrow> pyval" where
  "json_safe rt (PDatetime d) = PStr (isoformat rt d)"
| "json_safe rt (PList xs) = PList (map (json_safe rt) xs)"
| "json_safe rt (PDict d) = PDict (map (\<lambda>(k, v). (k, json_safe rt v)) d)"
| "json_safe rt (PDate d) = PStr (py_str rt (PDate d))"
| "json_safe rt PUnavailable = PStr (py_str rt PUnavailable)"
| "json_safe rt v = v"

definition build_reason_condition ::
  "runtime \<Rightarrow> string \<Rightarrow> string \<Rightarrow> pyval \<Rightarrow> pyval \<Rightarrow> eval_context \<Rightarrow> pyval dict result" where
  "build_reason_condition rt field operator expected actual c =
     rbind (if operator = ''is_true'' \<or> operator = ''is_false''
            then companion_reason_details rt field c else Ok []) (\<lambda>details.
     rbind (format_reason rt field operator expected actual details) (\<lambda>display.
       Ok ([(''field'', PStr field),
            (''field_label'', PStr (label_of field_labels field)),
            (''operator'', PStr operator),
            (''operator_label'', PStr (label_of operator_labels operator)),
            (''expected'', json_safe rt expected),
            (''actual'', json_safe rt actual),
            (''display'', PStr display)] @
           (if details = [] then [] else [(''details'', PList (map PStr details))]))))"

section \<open>The history sources appended to a reason\<close>

definition is_cased :: "char \<Rightarrow> bool" where
  "is_cased c \<longleftrightarrow> 65 \<le> code c \<and> code c \<le> 90 \<or> 97 \<le> code c \<and> code c \<le> 122 \<or>
     192 \<le> code c \<and> code c \<noteq> 215 \<and> code c \<noteq> 247 \<or> code c = 170 \<or> code c = 181 \<or> code c = 186"

fun title_from :: "bool \<Rightarrow> string \<Rightarrow> string" where
  "title_from inside [] = []"
| "title_from inside (c # s) =
     (if inside then [py_lower_char c]
      else if code c = 223 then ''Ss'' else py_upper_char c) @ title_from (is_cased c) s"

fun source_text :: "runtime \<Rightarrow> pyval \<Rightarrow> string result" where
  "source_text rt (PDict d) =
     (case (map_of d ''server'', map_of d ''provider'') of
        (Some server, Some (PStr provider)) \<Rightarrow>
          Ok (py_str rt server @ '' ('' @
              title_from False (map (\<lambda>c. if c = CHR ''_'' then CHR '' '' else c) provider) @ '')'')
      | (Some _, Some _) \<Rightarrow> Raise AttributeError
      | _ \<Rightarrow> Raise KeyError)"
| "source_text rt v = Raise TypeError"

definition with_history_sources :: "runtime \<Rightarrow> string \<Rightarrow> eval_context \<Rightarrow> pyval dict \<Rightarrow> pyval dict result" where
  "with_history_sources rt field c reason =
     (if \<not> List.member history_rule_fields field then Ok reason
      else let sources = (case ctx_get_or c ''_history_sources'' (PList []) of PList xs \<Rightarrow> xs | _ \<Rightarrow> []);
               reason' = dput ''history_sources'' (PList sources) reason
           in if sources = [] then Ok reason'
              else rbind (rmap (source_text rt) sources) (\<lambda>ts.
                Ok (dput ''display''
                      (PStr (py_str rt (dget reason' ''display'') @ '' [History: '' @ join '', '' ts @ '']'')) reason')))"

end
