(* ===== verification/Rule_Eval.thy ===== *)
theory Rule_Eval
  imports Rule_Format
begin

text \<open>
  The evaluation of a rule tree: the Boolean evaluator of a scan with its matched values
  and reasons (\<open>_evaluate_node\<close>, \<open>_evaluate_condition\<close>), the three-valued evaluator
  (\<open>_evaluate_node_state\<close>), the comparison of one value per user, and the collectors over
  enabled conditions (\<open>backend/core/rule_engine.py\<close>).  A node is the parsed JSON the rule
  stores.  The abstract specification is the tree \<open>rule_tree\<close> with Kleene's strong
  connectives; both evaluators refine it.
\<close>

section \<open>Nodes\<close>

definition node_is_disabled :: "pyval dict \<Rightarrow> bool" where
  "node_is_disabled d \<longleftrightarrow> dget d ''enabled'' = PBool False"

fun disabled_node :: "pyval \<Rightarrow> bool" where
  "disabled_node (PDict d) = node_is_disabled d"
| "disabled_node v = False"

definition node_text :: "runtime \<Rightarrow> pyval dict \<Rightarrow> string \<Rightarrow> string" where
  "node_text rt d k = py_str rt (dget_or d k (PStr []))"

definition group_op :: "runtime \<Rightarrow> pyval dict \<Rightarrow> string" where
  "group_op rt d = py_lower (node_text rt d ''op'')"

fun has_enabled_condition :: "pyval \<Rightarrow> bool" where
  "has_enabled_condition (PDict d) =
     (if node_is_disabled d then False
      else if dget d ''type'' = PStr ''condition'' then True
      else (case dget d ''children'' of
              PList cs \<Rightarrow> list_ex has_enabled_condition cs
            | _ \<Rightarrow> False))"
| "has_enabled_condition v = False"

fun iter_condition_nodes :: "runtime \<Rightarrow> string option \<Rightarrow> pyval \<Rightarrow> pyval dict list" where
  "iter_condition_nodes rt field (PDict d) =
     (if node_is_disabled d then []
      else if dget d ''type'' = PStr ''condition'' then
        (if field = None \<or> field = Some (node_text rt d ''field'') then [d] else [])
      else (case dget d ''children'' of
              PList cs \<Rightarrow> concat (map (iter_condition_nodes rt field) cs)
            | _ \<Rightarrow> []))"
| "iter_condition_nodes rt field v = []"

section \<open>Conditions on one value per user\<close>

text \<open>Numbers compare by their exact values; the per-user totals are numbers.\<close>

fun numeric :: "pyval \<Rightarrow> pyfloat option" where
  "numeric (PBool b) = Some (FFin (if b then 1 else 0))"
| "numeric (PInt i) = Some (FFin (of_int i))"
| "numeric (PFloat f) = Some f"
| "numeric v = None"

definition py_greater :: "pyval \<Rightarrow> pyval \<Rightarrow> bool result" where
  "py_greater v w =
     (case (numeric v, numeric w) of
        (Some x, Some y) \<Rightarrow> Ok (float_less y x)
      | _ \<Rightarrow> (case (v, w) of (PStr s, PStr t) \<Rightarrow> Ok (t < s) | _ \<Rightarrow> Raise TypeError))"

fun py_max :: "pyval \<Rightarrow> pyval list \<Rightarrow> pyval result" where
  "py_max m [] = Ok m"
| "py_max m (v # vs) = rbind (py_greater v m) (\<lambda>b. py_max (if b then v else m) vs)"

text \<open>The aliases of a user are a set; their totals are taken in the order of the registry.\<close>

definition user_total :: "runtime \<Rightarrow> alias_map option \<Rightarrow> pyval dict \<Rightarrow> string \<Rightarrow> pyval result" where
  "user_total rt al totals username =
     py_max (dget_or totals username (PInt 0))
       (map (\<lambda>a. dget_or totals a (PInt 0))
          (filter (\<lambda>a. a \<noteq> username) (uniq (expand_playback_username rt al (PStr username)))))"

fun any_user ::
  "runtime \<Rightarrow> alias_map option \<Rightarrow> string \<Rightarrow> string \<Rightarrow> pyval dict \<Rightarrow> pyval \<Rightarrow> string list \<Rightarrow>
   (bool option \<times> pyval) result" where
  "any_user rt al field operator totals amount [] = Ok (Some False, PNone)"
| "any_user rt al field operator totals amount (u # us) =
     rbind (user_total rt al totals u) (\<lambda>v.
     rbind (matches_operator rt al field v operator amount) (\<lambda>b.
       if b then Ok (Some True, v) else any_user rt al field operator totals amount us))"

definition selected_usernames :: "runtime \<Rightarrow> pyval list \<Rightarrow> string list" where
  "selected_usernames rt raw =
     map py_casefold (filter (\<lambda>s. s \<noteq> []) (map (\<lambda>v. py_strip (py_str rt v)) raw))"

definition evaluate_user_scoped_condition ::
  "runtime \<Rightarrow> alias_map option \<Rightarrow> pyval \<Rightarrow> pyval \<Rightarrow> string \<Rightarrow> string \<Rightarrow> (bool option \<times> pyval) result" where
  "evaluate_user_scoped_condition rt al context_value condition_value operator field =
     (case (context_value, condition_value) of
        (PDict totals, PDict cv) \<Rightarrow>
          (case dget cv ''usernames'' of
             PList raw \<Rightarrow>
               (if selected_usernames rt raw = [] then Ok (None, PUnavailable)
                else any_user rt al field operator totals (dget cv ''amount'') (selected_usernames rt raw))
           | _ \<Rightarrow> Ok (None, PUnavailable))
      | _ \<Rightarrow> Ok (None, PUnavailable))"

section \<open>Three-valued evaluation\<close>

text \<open>
  The state of one condition and the value it was compared with, which the code also keeps
  under \<open>_support_conditions\<close> when a scan or an explanation asks for it.
\<close>

definition condition_state ::
  "runtime \<Rightarrow> alias_map option \<Rightarrow> eval_context \<Rightarrow> pyval dict \<Rightarrow> (bool option \<times> pyval) result" where
  "condition_state rt al c d =
     (let field = node_text rt d ''field''; operator = node_text rt d ''operator'';
          actual = ctx_get c field
      in if List.member user_scoped_playback_fields field
         then evaluate_user_scoped_condition rt al actual (dget d ''value'') operator field
         else if actual = PUnavailable then Ok (None, actual)
         else rbind (matches_operator rt al field actual operator (dget d ''value''))
                (\<lambda>b. Ok (Some b, actual)))"

definition join_states :: "string \<Rightarrow> bool option list \<Rightarrow> bool option" where
  "join_states op states =
     (if op = ''and'' then
        (if Some False \<in> set states then Some False
         else if None \<in> set states then None else Some True)
      else if Some True \<in> set states then Some True
      else if None \<in> set states then None else Some False)"

fun evaluate_node_state ::
  "runtime \<Rightarrow> alias_map option \<Rightarrow> eval_context \<Rightarrow> pyval \<Rightarrow> bool option result" where
  "evaluate_node_state rt al c (PDict d) =
     (if node_is_disabled d then Ok (Some True)
      else if dget d ''type'' = PStr ''group'' then
        (case dget d ''children'' of
           PList cs \<Rightarrow>
             (if \<not> List.member [''and'', ''or''] (group_op rt d) \<or> cs = [] \<or> \<not> list_all is_dict cs
              then Ok (Some False)
              else if filter (\<lambda>n. \<not> disabled_node n) cs = [] then Ok (Some True)
              else rbind (rmap (evaluate_node_state rt al c) (filter (\<lambda>n. \<not> disabled_node n) cs))
                     (\<lambda>states. Ok (join_states (group_op rt d) states)))
         | _ \<Rightarrow> Ok (Some False))
      else if dget d ''type'' \<noteq> PStr ''condition'' then Ok (Some False)
      else rbind (condition_state rt al c d) (\<lambda>(s, _). Ok s))"
| "evaluate_node_state rt al c v = Raise AttributeError"

section \<open>Boolean evaluation\<close>

text \<open>
  The dictionaries the code mutates are threaded as a pair: the matched field values and
  the reasons.  What a failed comparison leaves behind stays in them, as in the code.
\<close>

type_synonym findings = "pyval dict \<times> pyval dict list"

fun matched_value :: "runtime \<Rightarrow> pyval \<Rightarrow> pyval" where
  "matched_value rt (PDatetime d) = PStr (isoformat rt d)"
| "matched_value rt v = v"

definition report_condition ::
  "runtime \<Rightarrow> eval_context \<Rightarrow> string \<Rightarrow> string \<Rightarrow> pyval \<Rightarrow> pyval \<Rightarrow> findings \<Rightarrow> (bool \<times> findings) result" where
  "report_condition rt c field operator expected actual fs =
     rbind (build_reason_condition rt field operator expected actual c) (\<lambda>reason.
     rbind (with_history_sources rt field c reason) (\<lambda>reason'.
       Ok (True, dput field (matched_value rt actual) (fst fs), snd fs @ [reason'])))"

definition scoped_amount :: "pyval \<Rightarrow> pyval" where
  "scoped_amount expected = (case expected of PDict cv \<Rightarrow> dget cv ''amount'' | _ \<Rightarrow> PNone)"

definition evaluate_condition ::
  "runtime \<Rightarrow> alias_map option \<Rightarrow> eval_context \<Rightarrow> pyval dict \<Rightarrow> findings \<Rightarrow> (bool \<times> findings) result" where
  "evaluate_condition rt al c d fs =
     (let field = node_text rt d ''field''; operator = node_text rt d ''operator'';
          expected = dget d ''value''; actual = ctx_get c field
      in if List.member user_scoped_playback_fields field
         then rbind (evaluate_user_scoped_condition rt al actual expected operator field) (\<lambda>(state, actual').
                if state \<noteq> Some True then Ok (False, fs)
                else report_condition rt c field operator (scoped_amount expected) actual' fs)
         else rbind (matches_operator rt al field actual operator expected) (\<lambda>state.
                if \<not> state then Ok (False, fs)
                else report_condition rt c field operator expected actual fs))"

fun evaluate_node ::
  "runtime \<Rightarrow> alias_map option \<Rightarrow> eval_context \<Rightarrow> pyval \<Rightarrow> findings \<Rightarrow> (bool \<times> findings) result" where
  "evaluate_node rt al c (PDict d) fs =
     (if node_is_disabled d then Ok (True, fs)
      else if dget d ''type'' = PStr ''group'' then
        (case dget d ''children'' of
           PList cs \<Rightarrow>
             (if \<not> List.member [''and'', ''or''] (group_op rt d) \<or> cs = [] \<or> \<not> list_all is_dict cs
              then Ok (False, fs)
              else if filter (\<lambda>n. \<not> disabled_node n) cs = [] then Ok (True, fs)
              else if group_op rt d = ''or'' then
                rbind (rmap (\<lambda>n. evaluate_node rt al c n ([], [])) (filter (\<lambda>n. \<not> disabled_node n) cs))
                  (\<lambda>branches.
                     let hits = filter fst branches
                     in if hits = [] then Ok (False, fs)
                        else Ok (True, foldl (\<lambda>acc (b, m, r). (dupdate (fst acc) m, snd acc @ r)) fs hits))
              else rwhile_true (\<lambda>n. evaluate_node rt al c n) (filter (\<lambda>n. \<not> disabled_node n) cs) fs)
         | _ \<Rightarrow> Ok (False, fs))
      else if dget d ''type'' \<noteq> PStr ''condition'' then Ok (False, fs)
      else evaluate_condition rt al c d fs)"
| "evaluate_node rt al c v fs = Raise AttributeError"

section \<open>A whole rule\<close>

text \<open>
  \<open>evaluate_advanced_rule\<close> and \<open>evaluate_advanced_rule_state\<close> after the context has been
  built; \<open>definition_of\<close> is the rule's stored definition.
\<close>

definition rule_root :: "pyval \<Rightarrow> pyval option" where
  "rule_root definition_of =
     (case definition_of of
        PDict d \<Rightarrow> (case dget d ''root'' of PDict r \<Rightarrow> Some (PDict r) | _ \<Rightarrow> None)
      | _ \<Rightarrow> None)"

definition evaluate_advanced_rule ::
  "runtime \<Rightarrow> alias_map option \<Rightarrow> eval_context \<Rightarrow> pyval \<Rightarrow> (bool \<times> findings) result" where
  "evaluate_advanced_rule rt al c definition_of =
     (case rule_root definition_of of
        None \<Rightarrow> Ok (False, [], [])
      | Some r \<Rightarrow>
          if \<not> has_enabled_condition r then Ok (False, [], [])
          else rbind (evaluate_node rt al c r ([], [])) (\<lambda>(outcome, fs).
                 if outcome then Ok (True, fs) else Ok (False, [], [])))"

definition evaluate_advanced_rule_state ::
  "runtime \<Rightarrow> alias_map option \<Rightarrow> eval_context \<Rightarrow> pyval \<Rightarrow> bool option result" where
  "evaluate_advanced_rule_state rt al c definition_of =
     (case rule_root definition_of of
        None \<Rightarrow> Ok (Some False)
      | Some r \<Rightarrow> if \<not> has_enabled_condition r then Ok (Some False)
                  else evaluate_node_state rt al c r)"

definition collect_rule_conditions :: "runtime \<Rightarrow> string option \<Rightarrow> pyval \<Rightarrow> pyval dict list" where
  "collect_rule_conditions rt field definition_of =
     (case rule_root definition_of of None \<Rightarrow> [] | Some r \<Rightarrow> iter_condition_nodes rt field r)"

definition rule_uses_disk_fields :: "runtime \<Rightarrow> pyval \<Rightarrow> bool" where
  "rule_uses_disk_fields rt definition_of \<longleftrightarrow>
     collect_rule_conditions rt (Some ''disk.free_bytes'') definition_of \<noteq> [] \<or>
     collect_rule_conditions rt (Some ''disk.free_percent'') definition_of \<noteq> []"

section \<open>The abstract rule\<close>

text \<open>
  What a definition means: a tree of conjunctions and disjunctions over conditions.  A
  disabled node and a group without enabled children stand for truth, a malformed group
  for falsity.
\<close>

datatype rule_tree = Cond "pyval dict" | All "rule_tree list" | Any "rule_tree list"

fun abs_rule :: "runtime \<Rightarrow> pyval \<Rightarrow> rule_tree" where
  "abs_rule rt (PDict d) =
     (if node_is_disabled d then All []
      else if dget d ''type'' = PStr ''group'' then
        (case dget d ''children'' of
           PList cs \<Rightarrow>
             (if \<not> List.member [''and'', ''or''] (group_op rt d) \<or> cs = [] \<or> \<not> list_all is_dict cs then Any []
              else if filter (\<lambda>n. \<not> disabled_node n) cs = [] then All []
              else (if group_op rt d = ''or'' then Any else All)
                     (map (abs_rule rt) (filter (\<lambda>n. \<not> disabled_node n) cs)))
         | _ \<Rightarrow> Any [])
      else if dget d ''type'' \<noteq> PStr ''condition'' then Any []
      else Cond d)"
| "abs_rule rt v = Any []"

fun kleene :: "(pyval dict \<Rightarrow> bool option) \<Rightarrow> rule_tree \<Rightarrow> bool option" where
  "kleene leaf (Cond d) = leaf d"
| "kleene leaf (All ts) =
     (if \<exists>t \<in> set ts. kleene leaf t = Some False then Some False
      else if \<exists>t \<in> set ts. kleene leaf t = None then None else Some True)"
| "kleene leaf (Any ts) =
     (if \<exists>t \<in> set ts. kleene leaf t = Some True then Some True
      else if \<exists>t \<in> set ts. kleene leaf t = None then None else Some False)"

fun leaves :: "rule_tree \<Rightarrow> pyval dict list" where
  "leaves (Cond d) = [d]"
| "leaves (All ts) = concat (map leaves ts)"
| "leaves (Any ts) = concat (map leaves ts)"

definition leaf_state :: "runtime \<Rightarrow> alias_map option \<Rightarrow> eval_context \<Rightarrow> pyval dict \<Rightarrow> bool option" where
  "leaf_state rt al c d = (case condition_state rt al c d of Ok (s, v) \<Rightarrow> s | Raise e \<Rightarrow> None)"

section \<open>Both evaluators refine the abstract rule\<close>

lemma join_states_kleene:
  "states = map (kleene leaf) ts \<Longrightarrow>
   join_states op states = kleene leaf ((if op = ''and'' then All else Any) ts)"
  by (auto simp: join_states_def image_iff eq_commute[of _ "kleene leaf _"])

lemma three_cases: "x = None \<or> x = Some True \<or> x = Some (False::bool)"
  by (cases x) auto

lemma kleene_All_False: "kleene leaf (All ts) = Some False \<longleftrightarrow> (\<exists>t \<in> set ts. kleene leaf t = Some False)"
  by simp

lemma kleene_All_True: "kleene leaf (All ts) = Some True \<longleftrightarrow> (\<forall>t \<in> set ts. kleene leaf t = Some True)"
proof -
  have "(\<forall>t \<in> set ts. kleene leaf t = Some True) \<longleftrightarrow>
        (\<forall>t \<in> set ts. kleene leaf t \<noteq> Some False \<and> kleene leaf t \<noteq> None)"
    using three_cases by (metis option.distinct(1) option.inject)
  then show ?thesis by (simp split: if_splits) blast
qed

lemma kleene_Any_True: "kleene leaf (Any ts) = Some True \<longleftrightarrow> (\<exists>t \<in> set ts. kleene leaf t = Some True)"
  by simp

lemma kleene_Any_False: "kleene leaf (Any ts) = Some False \<longleftrightarrow> (\<forall>t \<in> set ts. kleene leaf t = Some False)"
proof -
  have "(\<forall>t \<in> set ts. kleene leaf t = Some False) \<longleftrightarrow>
        (\<forall>t \<in> set ts. kleene leaf t \<noteq> Some True \<and> kleene leaf t \<noteq> None)"
    using three_cases by (metis option.distinct(1) option.inject)
  then show ?thesis by (simp split: if_splits) blast
qed

lemmas kleene_groups = kleene_All_False kleene_All_True kleene_Any_True kleene_Any_False

lemma kleene_mono:
  assumes "\<And>d b. d \<in> set (leaves t) \<Longrightarrow> leaf d = Some b \<Longrightarrow> leaf' d = Some b"
  shows "kleene leaf t = Some b \<Longrightarrow> kleene leaf' t = Some b"
  using assms
proof (induction t arbitrary: b)
  case (Cond d)
  then show ?case by simp
next
  case (All ts)
  have IH: "kleene leaf' t = Some b" if "t \<in> set ts" "kleene leaf t = Some b" for t b
    using All.IH[OF that] All.prems(2) that(1) by auto
  show ?case
    using All.prems(1) IH by (cases b) (simp_all only: kleene_groups, blast+)
next
  case (Any ts)
  have IH: "kleene leaf' t = Some b" if "t \<in> set ts" "kleene leaf t = Some b" for t b
    using Any.IH[OF that] Any.prems(2) that(1) by auto
  show ?case
    using Any.prems(1) IH by (cases b) (simp_all only: kleene_groups, blast+)
qed

lemma rmap_map_of: "rmap f xs = Ok ys \<Longrightarrow> (\<And>x y. x \<in> set xs \<Longrightarrow> f x = Ok y \<Longrightarrow> g x = h y) \<Longrightarrow> map g xs = map h ys"
proof (induction xs arbitrary: ys)
  case (Cons x xs)
  then obtain z zs where "f x = Ok z" "rmap f xs = Ok zs" "ys = z # zs"
    by (auto simp: rbind_Ok_iff)
  with Cons show ?case by auto
qed simp

lemma evaluate_node_state_refines:
  "evaluate_node_state rt al c n = Ok s \<Longrightarrow> kleene (leaf_state rt al c) (abs_rule rt n) = s"
proof (induction rt al c n arbitrary: s rule: evaluate_node_state.induct)
  case (1 rt al c d)
  show ?case
  proof (cases "\<exists>cs. \<not> node_is_disabled d \<and> dget d ''type'' = PStr ''group'' \<and> dget d ''children'' = PList cs \<and>
      List.member [''and'', ''or''] (group_op rt d) \<and> cs \<noteq> [] \<and> list_all is_dict cs \<and>
      filter (\<lambda>n. \<not> disabled_node n) cs \<noteq> []")
    case True
    then obtain cs where g: "\<not> node_is_disabled d" "dget d ''type'' = PStr ''group''" "dget d ''children'' = PList cs"
      "List.member [''and'', ''or''] (group_op rt d)" "cs \<noteq> []" "list_all is_dict cs"
      "filter (\<lambda>n. \<not> disabled_node n) cs \<noteq> []" by blast
    from 1(2) g obtain states where st: "rmap (evaluate_node_state rt al c) (filter (\<lambda>n. \<not> disabled_node n) cs) = Ok states"
      and s: "s = join_states (group_op rt d) states" by (auto simp: rbind_Ok_iff simp del: rmap.simps)
    have "map (\<lambda>n. kleene (leaf_state rt al c) (abs_rule rt n)) (filter (\<lambda>n. \<not> disabled_node n) cs) = map (\<lambda>s. s) states"
      by (rule rmap_map_of[OF st]) (rule 1(1)[OF g(1,2,3) _ g(7)], use g in auto)
    then have "states = map (kleene (leaf_state rt al c)) (map (abs_rule rt) (filter (\<lambda>n. \<not> disabled_node n) cs))"
      by (simp add: comp_def)
    from join_states_kleene[OF this, of "group_op rt d"] s g show ?thesis
      by (auto simp del: kleene.simps join_states_def split: if_splits)
  next
    case False
    with 1(2) show ?thesis
      by (auto simp: leaf_state_def rbind_Ok_iff split: if_splits pyval.splits)
  qed
qed simp_all

text \<open>The groups both evaluators recurse into, and what every other node amounts to.\<close>

definition live_group :: "runtime \<Rightarrow> pyval dict \<Rightarrow> pyval list \<Rightarrow> bool" where
  "live_group rt d cs \<longleftrightarrow> \<not> node_is_disabled d \<and> dget d ''type'' = PStr ''group'' \<and>
     dget d ''children'' = PList cs \<and> List.member [''and'', ''or''] (group_op rt d) \<and>
     cs \<noteq> [] \<and> list_all is_dict cs \<and> filter (\<lambda>n. \<not> disabled_node n) cs \<noteq> []"

lemma abs_rule_live_group:
  "live_group rt d cs \<Longrightarrow> abs_rule rt (PDict d) =
     (if group_op rt d = ''or'' then Any else All) (map (abs_rule rt) (filter (\<lambda>n. \<not> disabled_node n) cs))"
  by (auto simp: live_group_def)

lemma evaluate_node_live_group:
  assumes "live_group rt d cs"
  defines "active \<equiv> filter (\<lambda>n. \<not> disabled_node n) cs"
  shows "evaluate_node rt al c (PDict d) fs =
     (if group_op rt d = ''or'' then
        rbind (rmap (\<lambda>n. evaluate_node rt al c n ([], [])) active)
          (\<lambda>branches.
             let hits = filter fst branches
             in if hits = [] then Ok (False, fs)
                else Ok (True, foldl (\<lambda>acc (b, m, r). (dupdate (fst acc) m, snd acc @ r)) fs hits))
      else rwhile_true (\<lambda>n. evaluate_node rt al c n) active fs)"
  using assms by (simp only: live_group_def evaluate_node.simps pyval.simps if_True if_False not_True_eq_False simp_thms)

lemma not_live_group:
  assumes "\<nexists>cs. live_group rt d cs"
  shows "abs_rule rt (PDict d) = All [] \<and> evaluate_node rt al c (PDict d) fs = Ok (True, fs) \<or>
         abs_rule rt (PDict d) = Any [] \<and> evaluate_node rt al c (PDict d) fs = Ok (False, fs) \<or>
         abs_rule rt (PDict d) = Cond d \<and> evaluate_node rt al c (PDict d) fs = evaluate_condition rt al c d fs"
proof (cases "\<not> node_is_disabled d \<and> dget d ''type'' = PStr ''group''")
  case True
  with assms show ?thesis
    by (cases "dget d ''children''") (auto simp: live_group_def)
qed auto

lemma evaluate_condition_verdict:
  assumes "evaluate_condition rt al c d fs = Ok (b, fs')"
  shows "b = (leaf_state rt al c d = Some True)"
proof (cases "List.member user_scoped_playback_fields (node_text rt d ''field'')")
  case True
  with assms show ?thesis
    by (auto simp: evaluate_condition_def leaf_state_def condition_state_def rbind_Ok_iff report_condition_def Let_def
        split: if_splits)
next
  case False
  have un: "matches_operator rt al f PUnavailable op e = Ok False" for f op e
    by (simp add: matches_operator_def)
  from False assms show ?thesis
    by (auto simp: evaluate_condition_def leaf_state_def condition_state_def rbind_Ok_iff report_condition_def Let_def un
        split: if_splits)
qed

lemma evaluate_or_refines:
  assumes "evaluate_node rt al c (PDict d) fs = Ok (b, fs')" "live_group rt d cs" "group_op rt d = ''or''"
    and IH: "\<And>n fs b fs'. n \<in> set (filter (\<lambda>n. \<not> disabled_node n) cs) \<Longrightarrow> evaluate_node rt al c n fs = Ok (b, fs') \<Longrightarrow> b = P n"
  shows "b = (\<exists>n \<in> set (filter (\<lambda>n. \<not> disabled_node n) cs). P n)"
proof -
  let ?active = "filter (\<lambda>n. \<not> disabled_node n) cs"
  obtain branches where br: "rmap (\<lambda>n. evaluate_node rt al c n ([], [])) ?active = Ok branches"
    and b: "b = (filter fst branches \<noteq> [])"
    using assms(1) unfolding evaluate_node_live_group[OF assms(2)] using assms(3)
    by (cases "rmap (\<lambda>n. evaluate_node rt al c n ([], [])) ?active") (auto simp: Let_def split: if_splits)
  have "map P ?active = map fst branches"
    by (rule rmap_map_of[OF br]) (use IH in force)
  then have "P ` set ?active = fst ` set branches" by (metis set_map)
  then show ?thesis unfolding b filter_empty_conv by (metis (mono_tags, lifting) imageE imageI)
qed

lemma evaluate_and_refines:
  assumes "evaluate_node rt al c (PDict d) fs = Ok (b, fs')" "live_group rt d cs" "group_op rt d \<noteq> ''or''"
    and IH: "\<And>n fs b fs'. n \<in> set (filter (\<lambda>n. \<not> disabled_node n) cs) \<Longrightarrow> evaluate_node rt al c n fs = Ok (b, fs') \<Longrightarrow> b = P n"
  shows "b = (\<forall>n \<in> set (filter (\<lambda>n. \<not> disabled_node n) cs). P n)"
proof -
  have "rwhile_true (\<lambda>n. evaluate_node rt al c n) (filter (\<lambda>n. \<not> disabled_node n) cs) fs = Ok (b, fs')"
    using assms(1) unfolding evaluate_node_live_group[OF assms(2)] using assms(3) by simp
  then show ?thesis by (rule rwhile_true_verdict) (metis IH prod.collapse)
qed

text \<open>Induction over a rule: one case per live group, one for every other dictionary.\<close>

lemma size_child: "live_group rt d cs \<Longrightarrow> n \<in> set cs \<Longrightarrow> size n < size (PDict d)"
  using dget_list_size[of d "''children''" cs n] by (simp add: live_group_def)

lemma rule_induct [case_names Group Other Not_Dict]:
  assumes "\<And>d cs. live_group rt d cs \<Longrightarrow> (\<And>n. n \<in> set (filter (\<lambda>n. \<not> disabled_node n) cs) \<Longrightarrow> P n) \<Longrightarrow> P (PDict d)"
    and "\<And>d. \<nexists>cs. live_group rt d cs \<Longrightarrow> P (PDict d)"
    and "\<And>n. \<not> is_dict n \<Longrightarrow> P n"
  shows "P n"
proof (induction n rule: measure_induct_rule[of size])
  case (less n)
  show ?case
  proof (cases n)
    case (PDict d)
    show ?thesis
    proof (cases "\<exists>cs. live_group rt d cs")
      case True
      then obtain cs where g: "live_group rt d cs" by blast
      show ?thesis unfolding PDict
        by (rule assms(1)[OF g]) (use size_child[OF g] less PDict in auto)
    next
      case False
      then show ?thesis unfolding PDict by (rule assms(2))
    qed
  qed (auto intro: assms(3))
qed

lemma evaluate_node_refines:
  "evaluate_node rt al c n fs = Ok (b, fs') \<Longrightarrow> b = (kleene (leaf_state rt al c) (abs_rule rt n) = Some True)"
proof (induction n arbitrary: fs b fs' rule: rule_induct[where rt = rt])
  case (Group d cs)
  let ?P = "\<lambda>n. kleene (leaf_state rt al c) (abs_rule rt n) = Some True"
  have IH: "b = ?P n" if "n \<in> set (filter (\<lambda>n. \<not> disabled_node n) cs)" "evaluate_node rt al c n fs = Ok (b, fs')" for n fs b fs'
    by (rule Group.IH[OF that])
  show ?case
  proof (cases "group_op rt d = ''or''")
    case True
    from evaluate_or_refines[OF Group.prems Group.hyps True, of ?P] IH
    have "b = (\<exists>n \<in> set (filter (\<lambda>n. \<not> disabled_node n) cs). ?P n)" by blast
    then show ?thesis unfolding abs_rule_live_group[OF Group.hyps] by (simp add: True kleene_groups del: kleene.simps abs_rule.simps)
  next
    case False
    from evaluate_and_refines[OF Group.prems Group.hyps False, of ?P] IH
    have "b = (\<forall>n \<in> set (filter (\<lambda>n. \<not> disabled_node n) cs). ?P n)" by blast
    then show ?thesis unfolding abs_rule_live_group[OF Group.hyps] by (simp add: False kleene_groups del: kleene.simps abs_rule.simps)
  qed
next
  case (Other d)
  from not_live_group[OF Other.hyps, of al c fs] Other.prems
  show ?case by (auto dest: evaluate_condition_verdict evaluate_condition_verdict[OF sym] simp del: evaluate_node.simps abs_rule.simps)
next
  case (Not_Dict n)
  then show ?case by (cases n) auto
qed

lemma leaves_collected: "set (leaves (abs_rule rt n)) \<subseteq> set (iter_condition_nodes rt None n)"
proof (induction rt n rule: abs_rule.induct)
  case (1 rt d)
  show ?case
  proof (cases "\<exists>cs. live_group rt d cs")
    case True
    then obtain cs where g: "live_group rt d cs" by blast
    have "set (leaves (abs_rule rt (PDict d))) = (\<Union>n \<in> set (filter (\<lambda>n. \<not> disabled_node n) cs). set (leaves (abs_rule rt n)))"
      using abs_rule_live_group[OF g] by auto
    also have "\<dots> \<subseteq> (\<Union>n \<in> set cs. set (iter_condition_nodes rt None n))"
      using 1 g unfolding live_group_def by fastforce
    finally show ?thesis using g by (simp add: live_group_def del: abs_rule.simps)
  next
    case False
    then show ?thesis by (auto simp: live_group_def split: pyval.splits)
  qed
qed simp_all

end
