(* ===== verification/Rule_Verdict.thy ===== *)
theory Rule_Verdict
  imports Rule_Eval
begin

text \<open>
  What a verdict of the rule engine is worth: evaluation returns on plain values, the two
  evaluators agree, a verdict reached while data is unavailable survives whatever that
  data turns out to be, and every reported reason is a condition that held.
\<close>

section \<open>Evaluation does not raise on plain values\<close>

text \<open>
  A comparison raises on a number no float can hold, on a language value that is a list or
  an object inside a list, and on a per-user total that is not a number.  Plain values are
  those without them: scalars, or lists of scalars.
\<close>

fun fits :: "pyval \<Rightarrow> bool" where
  "fits (PInt i) = is_ok (float_of_int i)"
| "fits (PFloat f) = is_finite_float f"
| "fits (PList xs) = False"
| "fits (PDict d) = False"
| "fits v = True"

definition plain :: "pyval \<Rightarrow> bool" where
  "plain v \<longleftrightarrow> list_all fits (as_list v)"

definition plain_totals :: "pyval \<Rightarrow> bool" where
  "plain_totals v =
     (case v of
        PDict totals \<Rightarrow> list_all (\<lambda>(u, x). fits x \<and> numeric x \<noteq> None) totals
      | _ \<Rightarrow> True)"

text \<open>
  A context also carries keys of its own, which begin with an underscore: the servers a playback
  value comes from under \<open>_history_sources\<close>, a list of objects.  No rule field is called that way,
  and the values under such keys are not field values.
\<close>

definition internal_key :: "string \<Rightarrow> bool" where
  "internal_key f \<longleftrightarrow> starts_with ''_'' f"

lemma no_field_is_internal: "\<not> list_ex (\<lambda>(f, label). internal_key f) field_labels"
  by code_simp

definition plain_context :: "runtime \<Rightarrow> eval_context \<Rightarrow> bool" where
  "plain_context rt c \<longleftrightarrow>
     (\<forall>f. internal_key f \<or>
        (if List.member user_scoped_playback_fields f then plain_totals (ctx_get c f) else plain (ctx_get c f))) \<and>
     (case ctx_get_or c ''_history_sources'' (PList []) of
        PList xs \<Rightarrow> list_all (\<lambda>x. is_ok (source_text rt x)) xs | _ \<Rightarrow> True)"

definition plain_condition :: "runtime \<Rightarrow> pyval dict \<Rightarrow> bool" where
  "plain_condition rt d \<longleftrightarrow>
     \<not> internal_key (node_text rt d ''field'') \<and>
     plain (if List.member user_scoped_playback_fields (node_text rt d ''field'')
            then scoped_amount (dget d ''value'') else dget d ''value'')"

lemma fits_number: "fits v \<Longrightarrow> is_ok (number v)"
  by (cases v) (auto simp: is_ok_iff)

lemma fits_hashable: "fits v \<Longrightarrow> hashable v"
  by (cases v) auto

lemma plain_first_scalar: "plain v \<Longrightarrow> fits (first_scalar v)"
  by (cases v rule: first_scalar.cases) (auto simp: plain_def)

lemma is_ok_rbindI: "is_ok m \<Longrightarrow> (\<And>x. m = Ok x \<Longrightarrow> is_ok (f x)) \<Longrightarrow> is_ok (rbind m f)"
  by (cases m) auto

lemma languages_total: "plain v \<Longrightarrow> is_ok (normalized_language_values rt v)"
  unfolding normalized_language_values_def
  by (intro is_ok_rbindI)
    (auto simp: is_ok_rmap plain_def list_all_iff normalize_language_def Let_def dest: fits_hashable split: option.splits)

lemma list_values_total: "plain v \<Longrightarrow> is_ok (list_values rt field v)"
  by (simp add: list_values_def languages_total)

lemma list_operator_total: "plain a \<Longrightarrow> plain e \<Longrightarrow> is_ok (matches_list_operator rt al field a operator e)"
  by (auto simp: matches_list_operator_def list_values_total intro!: is_ok_rbindI)

lemma scalar_total:
  assumes "plain a" "plain e"
  shows "is_ok (matches_scalar rt field a operator e)"
proof -
  obtain l r where "number (first_scalar a) = Ok l" "number (first_scalar e) = Ok r"
    using fits_number[OF plain_first_scalar[OF assms(1)]] fits_number[OF plain_first_scalar[OF assms(2)]]
    unfolding is_ok_iff by blast
  then show ?thesis by (simp add: matches_scalar_def scalars_equal_def matches_order_def Let_def)
qed

lemma is_ok_ifI: "is_ok x \<Longrightarrow> is_ok y \<Longrightarrow> is_ok (if P then x else y)"
  by simp

lemma matches_operator_total: "plain a \<Longrightarrow> plain e \<Longrightarrow> is_ok (matches_operator rt al field a operator e)"
  unfolding matches_operator_def
  by (intro is_ok_ifI is_ok_rbindI languages_total list_operator_total scalar_total) (simp_all only: is_ok.simps)

definition unitless :: "string \<Rightarrow> bool" where
  "unitless field \<longleftrightarrow> \<not> List.member byte_value_fields field \<and> \<not> List.member millisecond_value_fields field"

lemma format_number_total: "is_finite_float f \<Longrightarrow> is_ok (format_number rt field v (Ok f))"
  by (cases f) (simp_all add: format_number_def format_milliseconds_def Let_def)

lemma float_of_int_finite: "float_of_int i = Ok f \<Longrightarrow> is_finite_float f"
  by (cases "round_double (of_int i)") (auto simp: round_double_def Let_def split: if_splits)

lemma format_rule_value_total:
  assumes "fits v"
  shows "is_ok (format_rule_value rt field v)"
proof (cases v)
  case (PInt i)
  with assms obtain f where f: "float_of_int i = Ok f" by (auto simp: is_ok_iff simp del: float_of_int.simps)
  then have "is_finite_float f" by (rule float_of_int_finite)
  with f show ?thesis by (simp add: PInt format_number_total del: float_of_int.simps)
qed (use assms in \<open>simp_all add: format_number_total\<close>)

lemma format_rule_value_unitless: "unitless field \<Longrightarrow> format_rule_value rt field v = Ok (py_str rt v)"
  by (cases v) (simp_all add: format_number_def unitless_def)

lemma format_actual_total:
  assumes "plain v"
  shows "is_ok (format_actual rt field v)"
proof -
  have "\<forall>x \<in> set (take 4 (as_list v)). fits x"
    using assms set_take_subset[of 4 "as_list v"] by (auto simp: plain_def list_all_iff)
  then have "is_ok (rmap (format_rule_value rt field) (take 4 (as_list v)))"
    by (simp add: is_ok_rmap format_rule_value_total)
  then show ?thesis by (auto simp: format_actual_def intro!: is_ok_rbindI)
qed

lemma format_actual_unitless: "unitless field \<Longrightarrow> is_ok (format_actual rt field v)"
  by (auto simp: format_actual_def is_ok_rmap format_rule_value_unitless intro!: is_ok_rbindI)

lemma companion_details_total:
  "list_all (\<lambda>(f, p, q). unitless f) cs \<Longrightarrow> is_ok (companion_details rt c cs)"
proof (induction cs)
  case (Cons x cs)
  then show ?case
    by (cases x) (auto simp: Let_def format_actual_unitless intro!: is_ok_rbindI)
qed simp

lemma companions_unitless:
  "list_all (\<lambda>(k, cs). list_all (\<lambda>(f, p, q). unitless f) cs) boolean_reason_companions"
  by (simp add: boolean_reason_companions_def unitless_def byte_value_fields_def millisecond_value_fields_def)

lemma companion_reason_details_total: "is_ok (companion_reason_details rt field c)"
proof (cases "map_of boolean_reason_companions field")
  case (Some cs)
  then have "(field, cs) \<in> set boolean_reason_companions" by (rule map_of_SomeD)
  then have "list_all (\<lambda>(f, p, q). unitless f) cs"
    using companions_unitless unfolding list_all_iff by fast
  then show ?thesis
    unfolding companion_reason_details_def Some option.simps by (rule companion_details_total)
qed (simp add: companion_reason_details_def)

lemma build_reason_total:
  assumes "plain expected" "plain actual"
  shows "is_ok (build_reason_condition rt field operator expected actual c)"
proof -
  have "is_ok (format_reason rt field operator expected actual details)" for details
    using assms
    by (auto simp: format_reason_def format_valueless_reason_def valueless_reason_details_def Let_def
        plain_def is_ok_rmap list_all_iff format_actual_total format_rule_value_total intro!: is_ok_rbindI)
  then show ?thesis
    by (auto simp: build_reason_condition_def companion_reason_details_total intro!: is_ok_rbindI)
qed

lemma history_total: "plain_context rt c \<Longrightarrow> is_ok (with_history_sources rt field c reason)"
  by (auto simp: plain_context_def with_history_sources_def Let_def is_ok_rmap list_all_iff
      intro!: is_ok_rbindI split: pyval.splits)

lemma report_total:
  "plain expected \<Longrightarrow> plain actual \<Longrightarrow> plain_context rt c \<Longrightarrow> is_ok (report_condition rt c field operator expected actual fs)"
  by (auto simp: report_condition_def build_reason_total history_total intro!: is_ok_rbindI)


lemma dget_or_totals: "list_all (\<lambda>(u, x). P x) d \<Longrightarrow> P v0 \<Longrightarrow> P (dget_or d k v0)"
proof (cases "map_of d k")
  case (Some v)
  assume "list_all (\<lambda>(u, x). P x) d"
  with map_of_SomeD[OF Some] show ?thesis by (auto simp: dget_or_def Some list_all_iff)
qed (simp add: dget_or_def)

lemma py_max_total:
  "numeric m \<noteq> None \<Longrightarrow> P m \<Longrightarrow> list_all (\<lambda>v. numeric v \<noteq> None \<and> P v) vs \<Longrightarrow>
   \<exists>w. py_max m vs = Ok w \<and> P w"
  by (induction vs arbitrary: m) (auto simp: py_greater_def)

lemma user_total_total:
  assumes "plain_totals (PDict totals)"
  shows "\<exists>w. user_total rt al totals u = Ok w \<and> fits w"
proof -
  have at: "fits (dget_or totals a (PInt 0)) \<and> numeric (dget_or totals a (PInt 0)) \<noteq> None" for a
    by (rule dget_or_totals[where P = "\<lambda>x. fits x \<and> numeric x \<noteq> None"])
      (use assms in \<open>simp_all add: plain_totals_def round_double_def\<close>)
  show ?thesis unfolding user_total_def
    by (rule py_max_total) (use at in \<open>auto simp: list_all_iff\<close>)
qed

lemma any_user_total:
  "plain_totals (PDict totals) \<Longrightarrow> plain amount \<Longrightarrow>
   \<exists>s v. any_user rt al field operator totals amount us = Ok (s, v) \<and> (s = Some True \<longrightarrow> plain v)"
proof (induction us)
  case (Cons u us)
  obtain w where w: "user_total rt al totals u = Ok w" "fits w"
    using user_total_total[OF Cons.prems(1)] by blast
  then have "plain w" by (cases w) (auto simp: plain_def)
  moreover obtain b where "matches_operator rt al field w operator amount = Ok b"
    using matches_operator_total[OF \<open>plain w\<close> Cons.prems(2)] unfolding is_ok_iff by blast
  ultimately show ?case using w Cons by auto
qed simp

lemma evaluate_condition_total:
  assumes "plain_context rt c" "plain_condition rt d"
  shows "is_ok (condition_state rt al c d) \<and> is_ok (evaluate_condition rt al c d fs)"
proof (cases "List.member user_scoped_playback_fields (node_text rt d ''field'')")
  case True
  have "plain_totals (ctx_get c (node_text rt d ''field''))" "plain (scoped_amount (dget d ''value''))"
    using assms True unfolding plain_context_def plain_condition_def by (metis, simp)
  then have "\<exists>s v. evaluate_user_scoped_condition rt al (ctx_get c (node_text rt d ''field'')) (dget d ''value'')
      (node_text rt d ''operator'') (node_text rt d ''field'') = Ok (s, v) \<and> (s = Some True \<longrightarrow> plain v)"
    using any_user_total
    by (auto simp: evaluate_user_scoped_condition_def scoped_amount_def split: pyval.splits)
  then obtain s v where e: "evaluate_user_scoped_condition rt al (ctx_get c (node_text rt d ''field'')) (dget d ''value'')
      (node_text rt d ''operator'') (node_text rt d ''field'') = Ok (s, v)" "s = Some True \<longrightarrow> plain v" by blast
  have "s = Some True \<Longrightarrow> is_ok (report_condition rt c (node_text rt d ''field'') (node_text rt d ''operator'')
      (scoped_amount (dget d ''value'')) v fs)"
    using e(2) by (intro report_total \<open>plain (scoped_amount _)\<close> assms(1)) simp
  then show ?thesis
    using True e(1) by (simp add: condition_state_def evaluate_condition_def Let_def)
next
  case False
  have "plain (ctx_get c (node_text rt d ''field''))" "plain (dget d ''value'')"
    using assms False unfolding plain_context_def plain_condition_def by (metis, simp)
  then obtain b where "matches_operator rt al (node_text rt d ''field'') (ctx_get c (node_text rt d ''field''))
      (node_text rt d ''operator'') (dget d ''value'') = Ok b"
    using matches_operator_total unfolding is_ok_iff by blast
  moreover have "is_ok (report_condition rt c (node_text rt d ''field'') (node_text rt d ''operator'')
      (dget d ''value'') (ctx_get c (node_text rt d ''field'')) fs)"
    by (intro report_total \<open>plain (dget d _)\<close> \<open>plain (ctx_get c _)\<close> assms(1))
  ultimately show ?thesis
    using False by (simp add: condition_state_def evaluate_condition_def Let_def)
qed

definition plain_rule :: "runtime \<Rightarrow> pyval \<Rightarrow> bool" where
  "plain_rule rt n \<longleftrightarrow> is_dict n \<and> list_all (plain_condition rt) (iter_condition_nodes rt None n)"

lemma plain_rule_child:
  "live_group rt d cs \<Longrightarrow> plain_rule rt (PDict d) \<Longrightarrow> n \<in> set cs \<Longrightarrow> plain_rule rt n"
  by (auto simp: plain_rule_def live_group_def list_all_iff)

lemma not_live_group_state:
  assumes "\<nexists>cs. live_group rt d cs"
  shows "abs_rule rt (PDict d) = All [] \<and> evaluate_node_state rt al c (PDict d) = Ok (Some True) \<or>
         abs_rule rt (PDict d) = Any [] \<and> evaluate_node_state rt al c (PDict d) = Ok (Some False) \<or>
         abs_rule rt (PDict d) = Cond d \<and>
           evaluate_node_state rt al c (PDict d) = rbind (condition_state rt al c d) (\<lambda>(s, _). Ok s)"
proof (cases "\<not> node_is_disabled d \<and> dget d ''type'' = PStr ''group''")
  case True
  with assms show ?thesis
    by (cases "dget d ''children''") (auto simp: live_group_def)
qed auto

lemma evaluation_total:
  "plain_context rt c \<Longrightarrow> plain_rule rt n \<Longrightarrow>
   is_ok (evaluate_node_state rt al c n) \<and> (\<forall>fs. is_ok (evaluate_node rt al c n fs))"
proof (induction n rule: rule_induct[where rt = rt])
  case (Group d cs)
  have child: "plain_rule rt n" if "n \<in> set (filter (\<lambda>n. \<not> disabled_node n) cs)" for n
    using plain_rule_child[OF Group.hyps Group.prems(2)] that by simp
  have IH: "is_ok (evaluate_node_state rt al c n)" "is_ok (evaluate_node rt al c n fs)"
    if "n \<in> set (filter (\<lambda>n. \<not> disabled_node n) cs)" for n fs
    using Group.IH[OF that Group.prems(1) child[OF that]] by blast+
  have "is_ok (evaluate_node_state rt al c (PDict d))"
    using Group.hyps IH(1) by (auto simp: live_group_def is_ok_rmap intro!: is_ok_rbindI)
  moreover have "is_ok (evaluate_node rt al c (PDict d) fs)" for fs
    unfolding evaluate_node_live_group[OF Group.hyps]
    using IH(2) by (auto simp: Let_def is_ok_rmap intro!: is_ok_rbindI rwhile_true_total)
  ultimately show ?case by blast
next
  case (Other d)
  have leaf: "plain_condition rt d" if "abs_rule rt (PDict d) = Cond d"
    using leaves_collected[of rt "PDict d"] Other.prems(2) that by (simp add: plain_rule_def list_all_iff)
  have "is_ok (evaluate_node_state rt al c (PDict d))"
    using not_live_group_state[OF Other.hyps, of al c] evaluate_condition_total[OF Other.prems(1) leaf, of al]
    by (auto intro!: is_ok_rbindI simp del: evaluate_node_state.simps abs_rule.simps)
  moreover have "is_ok (evaluate_node rt al c (PDict d) fs)" for fs
    using not_live_group[OF Other.hyps, of al c fs] evaluate_condition_total[OF Other.prems(1) leaf, of al fs]
    by (auto simp del: evaluate_node.simps abs_rule.simps)
  ultimately show ?case by blast
next
  case (Not_Dict n)
  then show ?case by (simp add: plain_rule_def)
qed

section \<open>Filling in unavailable data\<close>

text \<open>
  An information order on contexts, and evaluators that respect it: a condition settled
  with some of the data missing stays settled when more of it is known.
\<close>

locale information_order =
  fixes refines :: "'c \<Rightarrow> 'c \<Rightarrow> bool"
    and covered :: "pyval dict \<Rightarrow> bool"
    and state :: "'c \<Rightarrow> pyval dict \<Rightarrow> bool option"
  assumes settled: "refines c c' \<Longrightarrow> covered d \<Longrightarrow> state c d = Some b \<Longrightarrow> state c' d = Some b"
begin

lemma verdict_settled:
  "refines c c' \<Longrightarrow> list_all covered (leaves t) \<Longrightarrow> kleene (state c) t = Some b \<Longrightarrow> kleene (state c') t = Some b"
  by (rule kleene_mono) (auto simp: list_all_iff intro: settled)

lemma false_stays_false:
  "refines c c' \<Longrightarrow> list_all covered (leaves t) \<Longrightarrow> kleene (state c) t = Some False \<Longrightarrow> kleene (state c') t \<noteq> Some True"
  using verdict_settled by fastforce

end

definition fills :: "eval_context \<Rightarrow> eval_context \<Rightarrow> bool" where
  "fills c c' \<longleftrightarrow> (\<forall>f. internal_key f \<or> ctx_get c f = PUnavailable \<or> ctx_get c' f = ctx_get c f)"

definition reads_field :: "runtime \<Rightarrow> pyval dict \<Rightarrow> bool" where
  "reads_field rt d \<longleftrightarrow> \<not> internal_key (node_text rt d ''field'')"

lemma condition_state_fills:
  assumes "fills c c'" "reads_field rt d" "leaf_state rt al c d = Some b"
  shows "condition_state rt al c' d = condition_state rt al c d"
proof -
  have "ctx_get c (node_text rt d ''field'') \<noteq> PUnavailable"
    using assms(3)
    by (auto simp: leaf_state_def condition_state_def evaluate_user_scoped_condition_def Let_def split: if_splits)
  with assms(1,2) have "ctx_get c' (node_text rt d ''field'') = ctx_get c (node_text rt d ''field'')"
    unfolding fills_def reads_field_def by blast
  then show ?thesis by (simp add: condition_state_def)
qed

interpretation availability: information_order fills "reads_field rt" "leaf_state rt al" for rt al
  by unfold_locales (simp add: condition_state_fills leaf_state_def)

section \<open>Whole rules\<close>

lemma rule_root_dict: "rule_root v = Some r \<Longrightarrow> is_dict r"
proof (cases v)
  case (PDict d)
  assume "rule_root v = Some r"
  then show ?thesis
    by (cases "dget d ''root''") (auto simp: rule_root_def PDict)
qed (simp_all add: rule_root_def)

definition plain_definition :: "runtime \<Rightarrow> pyval \<Rightarrow> bool" where
  "plain_definition rt v \<longleftrightarrow> list_all (plain_condition rt) (collect_rule_conditions rt None v)"

lemma plain_definition_root: "plain_definition rt v \<Longrightarrow> rule_root v = Some r \<Longrightarrow> plain_rule rt r"
  by (auto simp: plain_definition_def collect_rule_conditions_def plain_rule_def rule_root_dict)

lemma plain_definition_leaves:
  assumes "plain_definition rt v" "rule_root v = Some n"
  shows "list_all (reads_field rt) (leaves (abs_rule rt n))"
  using assms leaves_collected[of rt n]
  by (auto simp: plain_definition_def collect_rule_conditions_def list_all_iff plain_condition_def reads_field_def)

lemma evaluators_agree_aux:
  assumes "plain_context rt c" "plain_definition rt v"
  shows "\<exists>s r. evaluate_advanced_rule_state rt al c v = Ok s \<and>
               evaluate_advanced_rule rt al c v = Ok (s = Some True, r)"
proof (cases "rule_root v")
  case (Some n)
  obtain s b fs where e: "evaluate_node_state rt al c n = Ok s" "evaluate_node rt al c n ([], []) = Ok (b, fs)"
    using evaluation_total[OF assms(1) plain_definition_root[OF assms(2) Some], of al]
    unfolding is_ok_iff by (metis surj_pair)
  have "b = (s = Some True)"
    using evaluate_node_refines[OF e(2)] evaluate_node_state_refines[OF e(1)] by simp
  then show ?thesis
    using e Some by (cases b) (auto simp: evaluate_advanced_rule_def evaluate_advanced_rule_state_def)
qed (simp add: evaluate_advanced_rule_def evaluate_advanced_rule_state_def)

lemma evaluate_advanced_rule_refines:
  assumes "evaluate_advanced_rule rt al c v = Ok (b, r)" "rule_root v = Some n" "has_enabled_condition n"
  shows "b = (kleene (leaf_state rt al c) (abs_rule rt n) = Some True)"
  using assms by (auto simp: evaluate_advanced_rule_def rbind_Ok_iff dest: evaluate_node_refines split: if_splits)

text \<open>The reported reasons.\<close>

definition justified :: "runtime \<Rightarrow> alias_map option \<Rightarrow> eval_context \<Rightarrow> pyval \<Rightarrow> pyval dict \<Rightarrow> bool" where
  "justified rt al c n reason \<longleftrightarrow>
     (\<exists>d \<in> set (iter_condition_nodes rt None n). leaf_state rt al c d = Some True \<and>
        dget reason ''field'' = PStr (node_text rt d ''field'') \<and>
        dget reason ''operator'' = PStr (node_text rt d ''operator''))"

lemma build_reason_fields:
  assumes "build_reason_condition rt field operator expected actual c = Ok r"
  shows "dget r ''field'' = PStr field \<and> dget r ''operator'' = PStr operator"
  using assms by (auto simp: build_reason_condition_def rbind_Ok_iff dget_def)

lemma with_history_fields:
  assumes "with_history_sources rt field c r = Ok r'"
  shows "dget r' ''field'' = dget r ''field'' \<and> dget r' ''operator'' = dget r ''operator''"
  using assms by (auto simp: with_history_sources_def rbind_Ok_iff Let_def dget_dput split: if_splits)

lemma report_reasons:
  assumes "report_condition rt c field operator expected actual fs = Ok (b, fs')"
  shows "\<exists>r. snd fs' = snd fs @ [r] \<and> dget r ''field'' = PStr field \<and> dget r ''operator'' = PStr operator"
proof -
  obtain r r' where "build_reason_condition rt field operator expected actual c = Ok r"
    "with_history_sources rt field c r = Ok r'" "fs' = (dput field (matched_value rt actual) (fst fs), snd fs @ [r'])"
    using assms by (auto simp: report_condition_def rbind_Ok_iff)
  then show ?thesis using build_reason_fields with_history_fields by (metis snd_conv)
qed

lemma evaluate_condition_reasons:
  assumes "evaluate_condition rt al c d fs = Ok (b, fs')"
  shows "snd fs' = snd fs \<and> \<not> b \<or> b \<and> (\<exists>r. snd fs' = snd fs @ [r] \<and>
     dget r ''field'' = PStr (node_text rt d ''field'') \<and> dget r ''operator'' = PStr (node_text rt d ''operator''))"
proof -
  have "b = False \<and> fs' = fs \<or> b \<and> (\<exists>e a. report_condition rt c (node_text rt d ''field'') (node_text rt d ''operator'') e a fs = Ok (b, fs'))"
    using assms
    by (auto simp: evaluate_condition_def Let_def rbind_Ok_iff report_condition_def split: if_splits)
  then show ?thesis using report_reasons by metis
qed


definition reasons_sound :: "runtime \<Rightarrow> alias_map option \<Rightarrow> eval_context \<Rightarrow> pyval \<Rightarrow> pyval dict list \<Rightarrow> bool" where
  "reasons_sound rt al c n rs \<longleftrightarrow> (\<forall>r \<in> set rs. justified rt al c n r)"

lemma justified_child: "live_group rt d cs \<Longrightarrow> n \<in> set cs \<Longrightarrow> justified rt al c n r \<Longrightarrow> justified rt al c (PDict d) r"
  unfolding justified_def by (auto simp: live_group_def simp del: bex_simps)

lemma foldl_branches:
  "snd (foldl (\<lambda>acc (b, m, r). (dupdate (fst acc) m, snd acc @ r)) fs hits) = snd fs @ concat (map (\<lambda>(b, m, r). r) hits)"
  by (induction hits arbitrary: fs) auto

lemma rwhile_true_rel:
  "rwhile_true f xs s = Ok (b, s') \<Longrightarrow> (\<And>s. R s s) \<Longrightarrow> (\<And>s1 s2 s3. R s1 s2 \<Longrightarrow> R s2 s3 \<Longrightarrow> R s1 s3) \<Longrightarrow>
   (\<And>x s b s'. x \<in> set xs \<Longrightarrow> f x s = Ok (b, s') \<Longrightarrow> R s s') \<Longrightarrow> R s s'"
  by (rule rwhile_true_inv[where I = "R s"]) blast+

lemma evaluate_node_reasons:
  "evaluate_node rt al c n fs = Ok (b, fs') \<Longrightarrow> \<exists>new. snd fs' = snd fs @ new \<and> reasons_sound rt al c n new"
proof (induction n arbitrary: fs b fs' rule: rule_induct[where rt = rt])
  case (Group d cs)
  let ?active = "filter (\<lambda>n. \<not> disabled_node n) cs"
  let ?R = "\<lambda>fs fs'. \<exists>new. snd fs' = snd fs @ new \<and> reasons_sound rt al c (PDict d) new"
  have step: "?R fs fs'" if "n \<in> set ?active" "evaluate_node rt al c n fs = Ok (b, fs')" for n fs b fs'
    using Group.IH[OF that] justified_child[OF Group.hyps, of n] that(1) unfolding reasons_sound_def by fastforce
  show ?case
  proof (cases "group_op rt d = ''or''")
    case True
    obtain branches where br: "rmap (\<lambda>n. evaluate_node rt al c n ([], [])) ?active = Ok branches"
      using Group.prems unfolding evaluate_node_live_group[OF Group.hyps] using True by (auto simp: rbind_Ok_iff)
    have "reasons_sound rt al c (PDict d) (snd (snd p))" if "p \<in> set branches" for p
      using rmap_Ok_set[OF br that] step by (metis append_Nil prod.collapse snd_conv)
    then have "reasons_sound rt al c (PDict d) (concat (map (\<lambda>(b, m, r). r) (filter fst branches)))"
      by (fastforce simp: reasons_sound_def)
    then show ?thesis
      using Group.prems unfolding evaluate_node_live_group[OF Group.hyps]
      using True br by (auto simp: Let_def foldl_branches reasons_sound_def split: if_splits)
  next
    case False
    then have "rwhile_true (\<lambda>n. evaluate_node rt al c n) ?active fs = Ok (b, fs')"
      using Group.prems unfolding evaluate_node_live_group[OF Group.hyps] by simp
    then show ?thesis
    proof (rule rwhile_true_rel[where R = ?R])
      show "?R s s" for s by (simp add: reasons_sound_def)
      show "?R s1 s3" if "?R s1 s2" "?R s2 s3" for s1 s2 s3
        using that by (fastforce simp: reasons_sound_def)
    qed (rule step)
  qed
next
  case (Other d)
  have "?case" if "abs_rule rt (PDict d) = Cond d" "evaluate_condition rt al c d fs = Ok (b, fs')"
  proof -
    have "d \<in> set (iter_condition_nodes rt None (PDict d))" using leaves_collected[of rt "PDict d"] that(1) by simp
    with evaluate_condition_reasons[OF that(2)] evaluate_condition_verdict[OF that(2)] show ?thesis
      by (auto simp: reasons_sound_def justified_def simp del: iter_condition_nodes.simps)
  qed
  with not_live_group[OF Other.hyps, of al c fs] Other.prems show ?case
    by (auto simp: reasons_sound_def simp del: evaluate_node.simps abs_rule.simps)
next
  case (Not_Dict n)
  then show ?case by (cases n) auto
qed


section \<open>Properties\<close>

text \<open>A rule that asks for a title never watched or a size below a limit.\<close>

definition demo_condition :: "string \<Rightarrow> string \<Rightarrow> pyval \<Rightarrow> pyval" where
  "demo_condition field operator value =
     PDict [(''type'', PStr ''condition''), (''field'', PStr field), (''operator'', PStr operator), (''value'', value)]"

definition demo_definition :: pyval where
  "demo_definition =
     PDict [(''root'', PDict [(''type'', PStr ''group''), (''op'', PStr ''or''),
       (''children'', PList [demo_condition ''watch.never_watched'' ''is_true'' PNone,
                             demo_condition ''media.title'' ''in'' (PList [PStr ''Alien''])])])]"

definition demo_context :: "pyval \<Rightarrow> eval_context" where
  "demo_context title = [''watch.never_watched'' \<mapsto> PBool True, ''media.title'' \<mapsto> title]"

text \<open>The same once the playback history has been read, with the server it came from.\<close>

definition demo_known_context :: "pyval \<Rightarrow> eval_context" where
  "demo_known_context title = (demo_context title)
     (''_history_sources'' \<mapsto> PList [PDict [(''server'', PStr ''Attic''), (''provider'', PStr ''tautulli'')]])"

lemma demo_plain_context: "plain v \<Longrightarrow> plain_context demo_runtime (demo_context v)"
  "plain v \<Longrightarrow> plain_context demo_runtime (demo_known_context v)"
  by (simp_all add: plain_context_def demo_known_context_def demo_context_def ctx_get_def ctx_get_or_def plain_totals_def
      plain_def user_scoped_playback_fields_def dget_def dget_or_def internal_key_def)

lemmas demo_defs = demo_definition_def demo_condition_def rule_root_def collect_rule_conditions_def
  node_is_disabled_def node_text_def dget_def dget_or_def group_op_def

lemma demo_plain_definition: "plain_definition demo_runtime demo_definition"
  by (simp add: plain_definition_def demo_defs plain_condition_def plain_def user_scoped_playback_fields_def internal_key_def)

lemma demo_has_enabled: "rule_root demo_definition = Some n \<Longrightarrow> has_enabled_condition n"
  by (auto simp: demo_defs)

lemma demo_fills: "fills (demo_context PUnavailable) (demo_known_context v)"
  by (simp add: fills_def demo_context_def demo_known_context_def ctx_get_def internal_key_def)

lemma demo_state: "evaluate_advanced_rule_state demo_runtime None (demo_context PUnavailable) demo_definition = Ok (Some True)"
  by code_simp

lemma demo_match:
  "evaluate_advanced_rule demo_runtime None (demo_context PUnavailable) demo_definition =
     Ok (True, [(''watch.never_watched'', PBool True)],
       [[(''field'', PStr ''watch.never_watched''), (''field_label'', PStr ''Never watched''),
         (''operator'', PStr ''is_true''), (''operator_label'', PStr ''is true''),
         (''expected'', PNone), (''actual'', PBool True), (''display'', PStr ''Never watched is true'')]])"
  by code_simp
text \<open>C11: the two evaluators of a rule agree.  On plain field values, and with any record of the
  servers they come from, the scan's Boolean evaluation and
  the three-valued evaluation both return, and the rule matches exactly when its state is
  True: unknown and False both leave the media alone.\<close>

theorem evaluators_agree:
  assumes "plain_context rt c" "plain_definition rt v"
  shows "\<exists>s findings. evaluate_advanced_rule_state rt al c v = Ok s \<and>
                      evaluate_advanced_rule rt al c v = Ok (s = Some True, findings)"
  by (rule evaluators_agree_aux[OF assms])

lemma evaluators_agree_witness:
  "\<exists>s findings. evaluate_advanced_rule_state demo_runtime None (demo_known_context PUnavailable) demo_definition = Ok s \<and>
     evaluate_advanced_rule demo_runtime None (demo_known_context PUnavailable) demo_definition = Ok (s = Some True, findings)"
  by (rule evaluators_agree[OF demo_plain_context(2) demo_plain_definition]) (simp add: plain_def)

text \<open>C12: a match does not depend on missing data.  If a rule matches while some field values
  are unavailable, it still matches once they are known, whatever they turn out to be: any plain
  values, with whatever provenance the context then records beside them.\<close>

theorem match_survives_missing_data:
  assumes match: "evaluate_advanced_rule rt al c v = Ok (True, r)"
    and "fills c c'" "plain_context rt c'" "plain_definition rt v"
  shows "\<exists>r'. evaluate_advanced_rule rt al c' v = Ok (True, r')"
proof -
  obtain n where n: "rule_root v = Some n" "has_enabled_condition n"
    using match by (auto simp: evaluate_advanced_rule_def split: option.splits if_splits)
  obtain s r' where e: "evaluate_advanced_rule_state rt al c' v = Ok s"
      "evaluate_advanced_rule rt al c' v = Ok (s = Some True, r')"
    using evaluators_agree_aux[OF assms(3,4)] by blast
  have "kleene (leaf_state rt al c') (abs_rule rt n) = Some True"
    using evaluate_advanced_rule_refines[OF match n] availability.verdict_settled[OF assms(2) plain_definition_leaves[OF assms(4) n(1)]] by blast
  with evaluate_advanced_rule_refines[OF e(2) n] e(2) show ?thesis by simp
qed

lemma match_survives_missing_data_witness:
  "\<exists>r'. evaluate_advanced_rule demo_runtime None (demo_known_context (PStr ''Alien'')) demo_definition = Ok (True, r')"
  by (rule match_survives_missing_data[OF demo_match demo_fills demo_plain_context(2) demo_plain_definition])
    (simp add: plain_def)

text \<open>Nor does a definite state.  A rule found True or False by the three-valued evaluation
  keeps that state when unavailable values are filled in.\<close>

theorem settled_state_survives_missing_data:
  assumes "evaluate_advanced_rule_state rt al c v = Ok (Some b)"
    and "fills c c'" "plain_context rt c'" "plain_definition rt v"
  shows "evaluate_advanced_rule_state rt al c' v = Ok (Some b)"
proof (cases "\<exists>n. rule_root v = Some n \<and> has_enabled_condition n")
  case True
  then obtain n where n: "rule_root v = Some n" "has_enabled_condition n" by blast
  obtain s where e: "evaluate_advanced_rule_state rt al c' v = Ok s"
    using evaluators_agree_aux[OF assms(3,4)] by blast
  have "evaluate_node_state rt al c n = Ok (Some b)" "evaluate_node_state rt al c' n = Ok s"
    using assms(1) e n by (auto simp: evaluate_advanced_rule_state_def)
  from this[THEN evaluate_node_state_refines] availability.verdict_settled[OF assms(2) plain_definition_leaves[OF assms(4) n(1)]]
  have "s = Some b" by metis
  with e show ?thesis by simp
qed (use assms(1) in \<open>auto simp: evaluate_advanced_rule_state_def split: option.splits\<close>)

lemma settled_state_survives_missing_data_witness:
  "evaluate_advanced_rule_state demo_runtime None (demo_known_context (PStr ''Alien'')) demo_definition = Ok (Some True)"
  by (rule settled_state_survives_missing_data[OF demo_state demo_fills demo_plain_context(2) demo_plain_definition])
    (simp add: plain_def)

text \<open>C24: every reported reason is true.  Each reason returned with a match names the field and
  the operator of an enabled condition of the definition that holds in the context.\<close>

theorem reasons_are_justified:
  assumes "evaluate_advanced_rule rt al c v = Ok (b, matched, reasons)" "r \<in> set reasons"
  shows "\<exists>d \<in> set (collect_rule_conditions rt None v).
           leaf_state rt al c d = Some True \<and>
           dget r ''field'' = PStr (node_text rt d ''field'') \<and>
           dget r ''operator'' = PStr (node_text rt d ''operator'')"
proof -
  obtain n where n: "rule_root v = Some n" and e: "evaluate_node rt al c n ([], []) = Ok (b, matched, reasons)"
    using assms by (auto simp: evaluate_advanced_rule_def rbind_Ok_iff split: option.splits if_splits)
  from evaluate_node_reasons[OF e] assms(2) show ?thesis
    by (auto simp: reasons_sound_def justified_def collect_rule_conditions_def n)
qed

lemma reasons_are_justified_witness:
  "\<exists>d \<in> set (collect_rule_conditions demo_runtime None demo_definition).
     leaf_state demo_runtime None (demo_context PUnavailable) d = Some True \<and>
     PStr ''watch.never_watched'' = PStr (node_text demo_runtime d ''field'') \<and>
     PStr ''is_true'' = PStr (node_text demo_runtime d ''operator'')"
  using reasons_are_justified[OF demo_match list.set_intros(1)] by (simp add: dget_def)

end
