(* ===== verification/Rule_Validate.thy ===== *)
theory Rule_Validate
  imports Rule_Verdict
begin

text \<open>
  What a rule must satisfy before it is stored (\<open>validate_rule_definition\<close> and what it calls) and
  the collectors that read path and library conditions off a definition, in
  \<open>backend/core/rule_engine.py\<close>.  A refusal is the \<open>ValueError\<close> with the message the code
  raises; other exceptions are those of the values.
\<close>

section \<open>Collectors\<close>

definition normalize_condition_values :: "runtime \<Rightarrow> pyval \<Rightarrow> string list" where
  "normalize_condition_values rt v =
     filter (\<lambda>s. s \<noteq> [])
       (map (\<lambda>item. py_strip (py_str rt item)) (filter (\<lambda>item. item \<noteq> PNone) (case v of PList xs \<Rightarrow> xs | _ \<Rightarrow> [v])))"

text \<open>Triples of field, operator and value, each once.\<close>

definition collect_rule_path_conditions :: "runtime \<Rightarrow> pyval \<Rightarrow> (string \<times> string \<times> string) list" where
  "collect_rule_path_conditions rt definition_of =
     uniq (concat (map (\<lambda>d.
        let field = node_text rt d ''field''; operator = py_lower (node_text rt d ''operator'')
        in if \<not> List.member path_fields field then []
           else if \<not> List.member path_operators operator \<or> List.member valueless_operators operator then []
           else map (\<lambda>v. (field, operator, v)) (normalize_condition_values rt (dget d ''value'')))
       (collect_rule_conditions rt None definition_of)))"

definition collect_rule_path_patterns :: "runtime \<Rightarrow> pyval \<Rightarrow> string list" where
  "collect_rule_path_patterns rt definition_of =
     uniq (map (\<lambda>(f, opr, v). v)
       (filter (\<lambda>(f, opr, v). f = ''media.path'') (collect_rule_path_conditions rt definition_of)))"

definition collect_rule_library_ids :: "runtime \<Rightarrow> pyval \<Rightarrow> string list" where
  "collect_rule_library_ids rt definition_of =
     uniq (concat (map (\<lambda>d. normalize_condition_values rt (dget d ''value''))
       (collect_rule_conditions rt (Some ''library.id'') definition_of)))"

definition library_scoping :: "runtime \<Rightarrow> pyval dict \<Rightarrow> bool" where
  "library_scoping rt d \<longleftrightarrow>
     (let operator = py_lower (node_text rt d ''operator'')
      in \<not> List.member path_library_unsupported_operators operator \<and>
         List.member path_library_inclusion_operators operator \<and>
         normalize_condition_values rt (dget d ''value'') \<noteq> [])"

definition derive_path_scope_library_ids :: "runtime \<Rightarrow> pyval \<Rightarrow> string list option" where
  "derive_path_scope_library_ids rt definition_of =
     (let conditions = collect_rule_conditions rt (Some ''library.id'') definition_of
      in if conditions = [] \<or> \<not> list_all (library_scoping rt) conditions then None
         else (let ids = uniq (concat (map (\<lambda>d. normalize_condition_values rt (dget d ''value'')) conditions))
               in if ids = [] then None else Some ids))"

section \<open>Values of a condition\<close>

definition require :: "bool \<Rightarrow> string \<Rightarrow> unit result" where
  "require ok message = (if ok then Ok () else Raise (ValueError message))"

definition then_check :: "unit result \<Rightarrow> unit result \<Rightarrow> unit result" where
  "then_check a b = rbind a (\<lambda>_. b)"

lemma require_Ok [simp]: "require ok m = Ok u \<longleftrightarrow> ok"
  by (simp add: require_def)

lemma then_check_Ok [simp]: "then_check a b = Ok u \<longleftrightarrow> a = Ok () \<and> b = Ok u"
  by (simp add: then_check_def rbind_Ok_iff)

definition format_bound :: "runtime \<Rightarrow> pyfloat \<Rightarrow> string" where
  "format_bound rt x =
     (if is_integer_float x then (case x of FFin q \<Rightarrow> show_int (floor q) | _ \<Rightarrow> []) else py_str rt (PFloat x))"

definition numeric_expectation :: "runtime \<Rightarrow> string \<Rightarrow> rat \<Rightarrow> rat option \<Rightarrow> bool \<Rightarrow> string" where
  "numeric_expectation rt field minimum maximum integer_required =
     (let kind = (if integer_required then ''a whole number'' else ''a value'');
          expectation = label_of field_labels field @ '' expects '' @ kind @
            (case maximum of
               None \<Rightarrow> '' of '' @ format_bound rt (FFin minimum) @ '' or greater''
             | Some m \<Rightarrow> '' between '' @ format_bound rt (FFin minimum) @ '' and '' @ format_bound rt (FFin m))
      in case map_of (rev rescaled_field_notes) field of
           Some note \<Rightarrow> expectation @ '' ('' @ note @ '')''
         | None \<Rightarrow> expectation)"

fun unqualified_requesters :: "runtime \<Rightarrow> pyval list \<Rightarrow> string list result" where
  "unqualified_requesters rt [] = Ok []"
| "unqualified_requesters rt (item # items) =
     (let text = py_strip (py_str rt item)
      in if item = PNone \<or> text = [] then unqualified_requesters rt items
         else rbind (is_qualified_seerr_user_id rt (PStr text)) (\<lambda>q.
              rbind (unqualified_requesters rt items) (\<lambda>rest. Ok (if q then rest else text # rest))))"

definition validate_seerr_requester_ids :: "runtime \<Rightarrow> pyval \<Rightarrow> unit result" where
  "validate_seerr_requester_ids rt v =
     rbind (unqualified_requesters rt (case v of PList xs \<Rightarrow> xs | _ \<Rightarrow> [v])) (\<lambda>unqualified.
       require (unqualified = [])
         (''Seerr requester IDs must name the instance they came from, written '' @
          ''instanceId:userId (for example 7:3). Not valid: '' @ join '', '' unqualified))"

definition never_matches :: "runtime \<Rightarrow> string \<Rightarrow> string \<Rightarrow> pyfloat \<Rightarrow> rat \<Rightarrow> string \<Rightarrow> string \<Rightarrow> string" where
  "never_matches rt label operator x bound extreme instead =
     label @ '' '' @ label_of operator_labels operator @ '' '' @ format_bound rt x @
     '' can never match; '' @ format_bound rt (FFin bound) @ '' is the '' @ extreme @
     '' (use '' @ label_of operator_labels instead @ '' to include it)''"

definition validate_number ::
  "runtime \<Rightarrow> string \<Rightarrow> string \<Rightarrow> rat \<Rightarrow> rat option \<Rightarrow> bool \<Rightarrow> pyfloat option \<Rightarrow> unit result" where
  "validate_number rt field operator minimum maximum integer_required as_float =
     (let expectation = numeric_expectation rt field minimum maximum integer_required;
          label = label_of field_labels field
      in case as_float of
           Some (FFin x) \<Rightarrow>
             then_check (require (\<not> (x < minimum \<or> (case maximum of None \<Rightarrow> False | Some m \<Rightarrow> x > m))) expectation)
            (then_check (require (\<not> (integer_required \<and> \<not> is_integer_float (FFin x))) expectation)
            (then_check (require (\<not> (maximum \<noteq> None \<and> operator = ''greater_than'' \<and> x = the maximum))
               (never_matches rt label operator (FFin x) (the maximum) ''maximum'' ''greater_than_or_equal''))
            (require (\<not> (operator = ''less_than'' \<and> x = minimum))
               (never_matches rt label operator (FFin x) minimum ''minimum'' ''less_than_or_equal''))))
         | _ \<Rightarrow> Raise (ValueError expectation))"

definition validate_numeric_bounds :: "runtime \<Rightarrow> string \<Rightarrow> string \<Rightarrow> pyval \<Rightarrow> unit result" where
  "validate_numeric_bounds rt field operator v =
     (case map_of field_numeric_bounds field of
        None \<Rightarrow> Ok ()
      | Some (minimum, maximum, integer_required) \<Rightarrow>
          (if is_list v
           then Raise (ValueError (label_of field_labels field @
                  '' expects a single value, not a list. Only the first entry would be used.''))
           else if (case v of PBool _ \<Rightarrow> True | _ \<Rightarrow> False)
           then Raise (ValueError (numeric_expectation rt field minimum maximum integer_required))
           else rbind (number v) (validate_number rt field operator minimum maximum integer_required)))"

definition validate_user_scoped_playback_value :: "runtime \<Rightarrow> string \<Rightarrow> pyval \<Rightarrow> unit result" where
  "validate_user_scoped_playback_value rt field v =
     (let label = label_of field_labels field
      in case v of
           PDict d \<Rightarrow>
             (case dget d ''usernames'' of
                PList names \<Rightarrow>
                  then_check (require (list_ex (\<lambda>n. py_strip (py_str rt n) \<noteq> []) names)
                    (label @ '' requires at least one selected user''))
                 (then_check (require (\<not> (case dget d ''amount'' of PBool _ \<Rightarrow> True | _ \<Rightarrow> False))
                    (label @ '' requires a numeric amount''))
                 (rbind (number (dget d ''amount'')) (\<lambda>n.
                    case n of
                      Some (FFin x) \<Rightarrow>
                        then_check (require (\<not> x < 0) (label @ '' requires a numeric amount of 0 or greater''))
                       (then_check (require (\<not> (field = ''playback.user_watched_percent'' \<and> x > 100))
                          (label @ '' expects a percent between 0 and 100''))
                       (require (\<not> (field = ''playback.user_watched_duration_minutes'' \<and> x > 100000))
                          (label @ '' expects a value of 100000 or less'')))
                    | _ \<Rightarrow> Raise (ValueError (label @ '' requires a numeric amount of 0 or greater'')))))
              | _ \<Rightarrow> Raise (ValueError (label @ '' requires at least one selected user'')))
         | _ \<Rightarrow> Raise (ValueError (label @ '' requires a user selection and an amount'')))"

section \<open>Nodes and definitions\<close>

definition validate_condition :: "runtime \<Rightarrow> pyval dict \<Rightarrow> unit result" where
  "validate_condition rt d =
     (let field = node_text rt d ''field''; operator = node_text rt d ''operator''; v = dget d ''value'';
          valueless = List.member valueless_operators operator
      in then_check (require (List.member (map fst field_labels) field)
           (''Unsupported rule field: '' @ py_str rt (dget d ''field'')))
        (then_check (require (List.member (map fst operator_labels) operator)
           (''Unsupported rule operator: '' @ py_str rt (dget d ''operator'')))
        (then_check (require (case field_allowed_operators field of None \<Rightarrow> False | Some ops \<Rightarrow> List.member ops operator)
           (''Unsupported rule operator '' @ [CHR 0x27] @ operator @ [CHR 0x27] @ '' for field '' @ [CHR 0x27] @ field @ [CHR 0x27]))
        (then_check (require (valueless \<or> has_key ''value'' d) ''Rule condition requires a value'')
        (then_check (if valueless then Ok () else validate_numeric_bounds rt field operator v)
        (then_check (if List.member user_scoped_playback_fields field
                     then validate_user_scoped_playback_value rt field v else Ok ())
        (then_check (if field = ''library.id'' \<and> List.member list_operators operator
                     then require (list_ex (\<lambda>s. s \<noteq> []) (map (\<lambda>x. py_strip (py_str rt x))
                            (filter (\<lambda>x. x \<noteq> PNone) (case v of PList xs \<Rightarrow> xs | _ \<Rightarrow> [v]))))
                          ''Library conditions require at least one library id''
                     else Ok ())
        (if field = seerr_requester_field \<and> \<not> valueless then validate_seerr_requester_ids rt v else Ok ()))))))))"

text \<open>The type of a node is looked up in a set, so an unhashable one raises.\<close>

fun validate_node :: "runtime \<Rightarrow> pyval \<Rightarrow> unit result" where
  "validate_node rt (PDict d) =
     (if \<not> hashable (dget d ''type'') then Raise TypeError
      else if dget d ''type'' \<noteq> PStr ''group'' \<and> dget d ''type'' \<noteq> PStr ''condition''
      then Raise (ValueError ''Rule node must be a group or condition'')
      else if node_is_disabled d then Ok ()
      else if dget d ''type'' = PStr ''group'' then
        (if \<not> List.member [''and'', ''or''] (group_op rt d)
         then Raise (ValueError ''Rule group operator must be AND or OR'')
         else (case dget d ''children'' of
                 PList cs \<Rightarrow>
                   if cs = [] then Raise (ValueError ''Rule group must include at least one condition'')
                   else rbind (rmap (\<lambda>child. if is_dict child then validate_node rt child
                                             else Raise (ValueError ''Rule group child must be an object'')) cs)
                          (\<lambda>_. Ok ())
               | _ \<Rightarrow> Raise (ValueError ''Rule group must include at least one condition'')))
      else validate_condition rt d)"
| "validate_node rt v = Raise AttributeError"

definition validate_scope_fields :: "runtime \<Rightarrow> pyval \<Rightarrow> string \<Rightarrow> unit result" where
  "validate_scope_fields rt definition_of target_scope =
     (let scope = py_lower (py_strip target_scope)
      in if \<not> List.member valid_target_scopes scope
         then Raise (ValueError (''Unsupported target_scope '' @ [CHR 0x27] @ target_scope @ [CHR 0x27]))
         else let allowed = (case map_of target_scope_allowed_fields scope of None \<Rightarrow> [] | Some fs \<Rightarrow> fs);
                  invalid = filter (\<lambda>f. \<not> List.member allowed f)
                    (map (\<lambda>d. node_text rt d ''field'') (collect_rule_conditions rt None definition_of))
              in require (invalid = [])
                   (''Rule field(s) not available for target_scope '' @ [CHR 0x27] @ scope @ [CHR 0x27] @ '': '' @
                    join '', '' (map (\<lambda>f. [CHR 0x27] @ f @ [CHR 0x27]) (sort (uniq invalid)))))"

definition validate_rule_definition :: "runtime \<Rightarrow> pyval \<Rightarrow> string option \<Rightarrow> unit result" where
  "validate_rule_definition rt definition_of target_scope =
     (if \<not> truthy definition_of then Raise (ValueError ''Rule definition is required'')
      else case rule_root definition_of of
             None \<Rightarrow> Raise (ValueError ''Rule definition must include a root group'')
           | Some root_node \<Rightarrow>
               then_check (validate_node rt root_node)
              (then_check (require (has_enabled_condition root_node) ''Rule must include at least one enabled condition'')
              (case target_scope of None \<Rightarrow> Ok () | Some scope \<Rightarrow> validate_scope_fields rt definition_of scope)))"

section \<open>What an accepted rule is\<close>

lemma rmap_Ok_all: "rmap f xs = Ok ys \<Longrightarrow> x \<in> set xs \<Longrightarrow> \<exists>y. f x = Ok y"
  using is_ok_rmap[of f xs] by (simp add: is_ok_iff)

lemma validate_group:
  assumes "validate_node rt (PDict d) = Ok u" "\<not> node_is_disabled d" "dget d ''type'' = PStr ''group''"
  obtains cs where "dget d ''children'' = PList cs" "cs \<noteq> []" "list_all is_dict cs"
    "List.member [''and'', ''or''] (group_op rt d)" "\<And>n. n \<in> set cs \<Longrightarrow> validate_node rt n = Ok ()"
proof -
  from assms obtain cs ys where cs: "dget d ''children'' = PList cs" "cs \<noteq> []" "List.member [''and'', ''or''] (group_op rt d)"
    and r: "rmap (\<lambda>child. if is_dict child then validate_node rt child
                          else Raise (ValueError ''Rule group child must be an object'')) cs = Ok ys"
    by (auto simp: rbind_Ok_iff split: if_splits pyval.splits)
  have "is_dict n \<and> validate_node rt n = Ok ()" if "n \<in> set cs" for n
    using rmap_Ok_all[OF r that] by (auto split: if_splits)
  with cs that show thesis by (auto simp: list_all_iff)
qed

lemma disabled_iter: "is_dict n \<Longrightarrow> disabled_node n \<Longrightarrow> iter_condition_nodes rt f n = []"
  by (cases n) auto

lemma accepted_node:
  "validate_node rt n = Ok u \<Longrightarrow>
     set (leaves (abs_rule rt n)) = set (iter_condition_nodes rt None n) \<and>
     (\<forall>d \<in> set (iter_condition_nodes rt None n). validate_condition rt d = Ok ())"
proof (induction n arbitrary: u rule: rule_induct[where rt = rt])
  case (Group d cs)
  obtain cs' where cs': "dget d ''children'' = PList cs'" "list_all is_dict cs'" "\<And>n. n \<in> set cs' \<Longrightarrow> validate_node rt n = Ok ()"
    using validate_group[OF Group.prems] Group.hyps by (auto simp: live_group_def)
  then have cs: "cs' = cs" using Group.hyps by (simp add: live_group_def)
  let ?active = "filter (\<lambda>n. \<not> disabled_node n) cs"
  have "iter_condition_nodes rt None (PDict d) = concat (map (iter_condition_nodes rt None) cs)"
    using Group.hyps by (simp add: live_group_def)
  moreover have "iter_condition_nodes rt None n = []" if "n \<in> set cs - set ?active" for n
    using that cs'(2) cs disabled_iter by (auto simp: list_all_iff)
  ultimately have it: "set (iter_condition_nodes rt None (PDict d)) = (\<Union>n \<in> set ?active. set (iter_condition_nodes rt None n))"
    by fastforce
  have IH: "set (leaves (abs_rule rt n)) = set (iter_condition_nodes rt None n) \<and>
      (\<forall>d \<in> set (iter_condition_nodes rt None n). validate_condition rt d = Ok ())" if "n \<in> set ?active" for n
    by (rule Group.IH[OF that]) (use that cs'(3) cs in auto)
  have "set (leaves (abs_rule rt (PDict d))) = (\<Union>n \<in> set ?active. set (leaves (abs_rule rt n)))"
    unfolding abs_rule_live_group[OF Group.hyps] by (auto simp del: abs_rule.simps)
  with IH show ?case unfolding it by auto
next
  case (Other d)
  show ?case
  proof (cases "node_is_disabled d")
    case False
    show ?thesis
    proof (cases "dget d ''type'' = PStr ''group''")
      case True
      obtain cs where cs: "dget d ''children'' = PList cs" "cs \<noteq> []" "list_all is_dict cs"
        "List.member [''and'', ''or''] (group_op rt d)"
        using validate_group[OF Other.prems False True] by metis
      with Other.hyps False True have none: "filter (\<lambda>n. \<not> disabled_node n) cs = []" by (auto simp: live_group_def)
      then have "iter_condition_nodes rt None n = []" if "n \<in> set cs" for n
        using that cs(3) disabled_iter by (auto simp: filter_empty_conv list_all_iff)
      with cs none False True show ?thesis by simp
    next
      case False
      with Other.prems \<open>\<not> node_is_disabled d\<close> show ?thesis by (auto split: if_splits)
    qed
  qed simp
next
  case (Not_Dict n)
  then show ?case by (cases n) auto
qed

lemma accepted_definition:
  assumes "validate_rule_definition rt defn scope = Ok u"
  obtains r where "rule_root defn = Some r" "validate_node rt r = Ok ()" "has_enabled_condition r"
    "\<And>s. scope = Some s \<Longrightarrow> validate_scope_fields rt defn s = Ok u"
  using assms by (auto simp: validate_rule_definition_def split: if_splits option.splits)

text \<open>C25: an accepted rule is well formed.  It has an enabled condition; the verdict of both evaluators depends on
  exactly the enabled conditions the collectors report, no malformed group among them; and each of
  those has a known field of the target scope, an operator of that field, and a value
  when the operator takes one.\<close>

theorem accepted_rules_are_well_formed:
  assumes "validate_rule_definition rt defn (Some scope) = Ok ()"
  shows "(\<exists>r. rule_root defn = Some r \<and> has_enabled_condition r \<and>
            set (leaves (abs_rule rt r)) = set (collect_rule_conditions rt None defn)) \<and>
         (\<forall>d \<in> set (collect_rule_conditions rt None defn).
            let field = node_text rt d ''field''; operator = node_text rt d ''operator''
            in field \<in> fst ` set field_labels \<and>
               (\<exists>ops. field_allowed_operators field = Some ops \<and> operator \<in> set ops) \<and>
               (operator \<notin> set valueless_operators \<longrightarrow> has_key ''value'' d) \<and>
               (\<exists>fs. map_of target_scope_allowed_fields (py_lower (py_strip scope)) = Some fs \<and> field \<in> set fs))"
proof -
  obtain r where r: "rule_root defn = Some r" "validate_node rt r = Ok ()" "has_enabled_condition r"
    and s: "validate_scope_fields rt defn scope = Ok ()"
    using accepted_definition[OF assms] by metis
  have col: "collect_rule_conditions rt None defn = iter_condition_nodes rt None r"
    by (simp add: collect_rule_conditions_def r(1))
  have "\<exists>fs. map_of target_scope_allowed_fields (py_lower (py_strip scope)) = Some fs \<and> node_text rt d ''field'' \<in> set fs"
    if "d \<in> set (collect_rule_conditions rt None defn)" for d
    using s that unfolding validate_scope_fields_def Let_def
    by (cases "map_of target_scope_allowed_fields (py_lower (py_strip scope))")
      (auto simp: filter_empty_conv split: if_splits)
  moreover have "node_text rt d ''field'' \<in> fst ` set field_labels \<and>
      (\<exists>ops. field_allowed_operators (node_text rt d ''field'') = Some ops \<and> node_text rt d ''operator'' \<in> set ops) \<and>
      (node_text rt d ''operator'' \<notin> set valueless_operators \<longrightarrow> has_key ''value'' d)"
    if "d \<in> set (collect_rule_conditions rt None defn)" for d
  proof -
    have "validate_condition rt d = Ok ()" using accepted_node[OF r(2)] that col by simp
    then show ?thesis unfolding validate_condition_def Let_def by (auto split: option.splits)
  qed
  ultimately show ?thesis using r accepted_node[OF r(2)] col by (simp add: Let_def)
qed

definition demo_condition :: "pyval dict" where
  "demo_condition = [(''type'', PStr ''condition''), (''field'', PStr ''imdb.rating''), (''operator'', PStr ''greater_than''),
     (''value'', PFloat (FFin 9))]"

definition demo_rule :: pyval where
  "demo_rule = PDict [(''root'', PDict [(''type'', PStr ''group''), (''op'', PStr ''AND''), (''children'', PList
     [PDict demo_condition, PDict [(''type'', PStr ''condition''), (''enabled'', PBool False)]])])]"

lemma lookup_for_fields: "map_of (rev (for_fields fs ops)) f = (if f \<in> set fs then Some ops else None)"
  by (induction fs) (auto simp: for_fields_def map_add_def split: option.splits)

lemma demo_allowed: "field_allowed_operators ''imdb.rating'' = Some numeric_operators"
  unfolding field_allowed_operators_def operator_table_def rev_append map_of_append map_add_def lookup_for_fields
  by (simp add: numeric_fields_def text_fields_def library_fields_def boolean_fields_def temporal_fields_def path_fields_def
      media_server_genre_fields_def)

lemma demo_field_label: "''imdb.rating'' \<in> fst ` set field_labels"
proof -
  have "List.member (map fst field_labels) ''imdb.rating''" by code_simp
  then show ?thesis by simp
qed

lemma demo_field_scope: "''imdb.rating'' \<in> set movie_version_fields"
proof -
  have "List.member movie_version_fields ''imdb.rating''" by code_simp
  then show ?thesis by simp
qed

lemma demo_field_bounds: "map_of field_numeric_bounds ''imdb.rating'' = Some (0, Some 10, False)"
  by (simp add: field_numeric_bounds_def)

lemmas demo_field_tables = demo_allowed demo_field_label demo_field_scope demo_field_bounds

lemma demo_operator_tables:
  "''greater_than'' \<in> fst ` set operator_labels" "''greater_than'' \<in> set numeric_operators" "''greater_than'' \<notin> set valueless_operators"
  "''imdb.rating'' \<notin> set user_scoped_playback_fields"
  by (simp_all add: operator_labels_def numeric_operators_def valueless_operators_def user_scoped_playback_fields_def)

lemma demo_condition_text:
  "node_text rt demo_condition ''field'' = ''imdb.rating''" "node_text rt demo_condition ''operator'' = ''greater_than''"
  "dget demo_condition ''value'' = PFloat (FFin 9)" "has_key ''value'' demo_condition"
  by (simp_all add: demo_condition_def node_text_def dget_or_def dget_def has_key_def)

lemma demo_condition_accepted: "validate_condition rt demo_condition = Ok ()"
  unfolding validate_condition_def Let_def demo_condition_text
  by (simp add: demo_field_tables demo_operator_tables demo_condition_text validate_numeric_bounds_def validate_number_def Let_def require_def)

lemma demo_rule_root: "rule_root demo_rule = Some (PDict [(''type'', PStr ''group''), (''op'', PStr ''AND''), (''children'', PList
     [PDict demo_condition, PDict [(''type'', PStr ''condition''), (''enabled'', PBool False)]])])"
  by (simp add: demo_rule_def rule_root_def dget_def)

lemma demo_condition_node:
  "dget demo_condition ''type'' = PStr ''condition''" "dget demo_condition ''enabled'' = PNone"
  by (simp_all add: demo_condition_def dget_Cons dget_Nil node_is_disabled_def)

lemma demo_lower: "py_lower ''AND'' = ''and''" "py_lower (py_strip '' Movie_Version '') = ''movie_version''"
  by code_simp+

lemma demo_group_op: "group_op rt [(''type'', PStr ''group''), (''op'', PStr ''AND''), (''children'', cs)] = ''and''"
  by (simp add: group_op_def node_text_def dget_or_def demo_lower)

lemma demo_rule_accepted: "validate_rule_definition demo_runtime demo_rule (Some '' Movie_Version '') = Ok ()"
proof -
  have "validate_node demo_runtime (the (rule_root demo_rule)) = Ok ()"
    by (simp add: demo_rule_root demo_condition_node demo_condition_accepted demo_group_op node_is_disabled_def dget_Cons dget_Nil)
  moreover have "collect_rule_conditions demo_runtime None demo_rule = [demo_condition]" "has_enabled_condition (the (rule_root demo_rule))"
    by (simp_all add: collect_rule_conditions_def demo_rule_root demo_condition_node node_is_disabled_def dget_Cons dget_Nil)
  moreover have "truthy demo_rule" by (simp add: demo_rule_def)
  ultimately show ?thesis
    using demo_field_scope
    by (simp add: validate_rule_definition_def validate_scope_fields_def demo_rule_root demo_lower valid_target_scopes_def
        target_scope_allowed_fields_def demo_condition_text)
qed

lemma accepted_rules_are_well_formed_witness:
  "\<exists>r. rule_root demo_rule = Some r \<and> has_enabled_condition r \<and>
     set (leaves (abs_rule demo_runtime r)) = set (collect_rule_conditions demo_runtime None demo_rule)"
  by (rule conjunct1[OF accepted_rules_are_well_formed[OF demo_rule_accepted]])

section \<open>Accepted comparisons can match\<close>

lemma bounded_fields_plain:
  "list_all (\<lambda>(f, b). \<not> List.member multi_value_text_fields f \<and> f \<noteq> ''media.path'' \<and>
      \<not> List.member user_scoped_playback_fields f) field_numeric_bounds"
  by code_simp

lemma bounds_ordered: "list_all (\<lambda>(f, lo, hi, i). case hi of None \<Rightarrow> True | Some m \<Rightarrow> lo < m) field_numeric_bounds"
  by code_simp

lemma bounded_field:
  assumes "map_of field_numeric_bounds field = Some (lo, hi, whole)"
  shows "\<not> List.member multi_value_text_fields field" "field \<noteq> ''media.path''" "\<And>m. hi = Some m \<Longrightarrow> lo < m"
proof -
  note member = map_of_SomeD[OF assms]
  from bspec[OF bounded_fields_plain[unfolded list_all_iff] member]
  show "\<not> List.member multi_value_text_fields field" "field \<noteq> ''media.path''" by simp_all
  from bspec[OF bounds_ordered[unfolded list_all_iff] member] show "\<And>m. hi = Some m \<Longrightarrow> lo < m" by simp
qed

definition comparisons :: "string list" where
  "comparisons = [''equals'', ''greater_than'', ''greater_than_or_equal'', ''less_than'', ''less_than_or_equal'']"

lemma comparisons_plain:
  "list_all (\<lambda>op. op \<noteq> ''exists'' \<and> op \<noteq> ''not_exists'' \<and> op \<noteq> ''is_true'' \<and> op \<noteq> ''is_false'' \<and>
     \<not> List.member regex_operators op \<and> \<not> List.member list_operators op \<and> \<not> List.member tag_substring_operators op \<and>
     \<not> List.member [''before'', ''on_or_before'', ''after'', ''on_or_after''] op \<and>
     \<not> List.member valueless_operators op) comparisons"
  by code_simp

lemma comparison_plain:
  assumes "operator \<in> set comparisons"
  shows "operator \<noteq> ''exists''" "operator \<noteq> ''not_exists''" "operator \<noteq> ''is_true''" "operator \<noteq> ''is_false''"
    "\<not> List.member regex_operators operator" "\<not> List.member list_operators operator" "\<not> List.member tag_substring_operators operator"
    "\<not> List.member [''before'', ''on_or_before'', ''after'', ''on_or_after''] operator"
    "\<not> List.member valueless_operators operator"
  using bspec[OF comparisons_plain[unfolded list_all_iff] assms] by simp_all

lemma matches_numeric:
  assumes "map_of field_numeric_bounds field = Some (lo, hi, whole)" "operator \<in> set comparisons"
  shows "matches_operator rt al field (PFloat x) operator v = matches_scalar rt field (PFloat x) operator v"
  unfolding matches_operator_def
  by (simp only: comparison_plain[OF assms(2)] bounded_field[OF assms(1)] pyval.simps if_False simp_thms)

lemma scalar_comparison:
  assumes "number v = Ok (Some y)" "\<not> is_list v" "field \<noteq> ''media.path''"
  shows "matches_scalar rt field (PFloat x) ''equals'' v = Ok (float_eq x y)"
    "matches_scalar rt field (PFloat x) ''greater_than'' v = Ok (float_less y x)"
    "matches_scalar rt field (PFloat x) ''greater_than_or_equal'' v = Ok (float_le y x)"
    "matches_scalar rt field (PFloat x) ''less_than'' v = Ok (float_less x y)"
    "matches_scalar rt field (PFloat x) ''less_than_or_equal'' v = Ok (float_le x y)"
proof -
  have "first_scalar v = v" "v \<noteq> PNone" using assms(1,2) by (cases v; simp)+
  with assms show "matches_scalar rt field (PFloat x) ''equals'' v = Ok (float_eq x y)"
    "matches_scalar rt field (PFloat x) ''greater_than'' v = Ok (float_less y x)"
    "matches_scalar rt field (PFloat x) ''greater_than_or_equal'' v = Ok (float_le y x)"
    "matches_scalar rt field (PFloat x) ''less_than'' v = Ok (float_less x y)"
    "matches_scalar rt field (PFloat x) ''less_than_or_equal'' v = Ok (float_le x y)"
    by (simp_all add: matches_scalar_def scalars_equal_def matches_order_def)
qed

lemma accepted_number:
  assumes "validate_number rt field operator lo hi whole z = Ok u"
  obtains y where "z = Some (FFin y)" "lo \<le> y" "\<And>m. hi = Some m \<Longrightarrow> y \<le> m"
    "\<And>m. operator = ''greater_than'' \<Longrightarrow> hi = Some m \<Longrightarrow> y \<noteq> m" "operator = ''less_than'' \<Longrightarrow> lo \<noteq> y"
proof (cases z)
  case (Some f)
  show thesis
  proof (cases f)
    case (FFin y)
    with assms Some show thesis by (intro that[of y]) (auto simp: validate_number_def Let_def not_less)
  qed (use assms Some in \<open>simp_all add: validate_number_def\<close>)
qed (use assms in \<open>simp add: validate_number_def\<close>)

text \<open>C26: no accepted comparison is hopeless.  For every comparison (equality or one of the four order operators) with a
  field that has a minimum and a maximum that validation accepts, some value of the field's range satisfies it: \<open>more than the
  maximum\<close> and \<open>less than the minimum\<close> are refused, and so is a bound outside the range.\<close>

theorem accepted_comparisons_can_match:
  assumes "validate_condition rt d = Ok ()"
  defines "field \<equiv> node_text rt d ''field''" and "operator \<equiv> node_text rt d ''operator''"
  assumes "map_of field_numeric_bounds field = Some (lo, Some hi, whole)" and "operator \<in> set comparisons"
  shows "\<exists>x. lo \<le> x \<and> x \<le> hi \<and> matches_operator rt al field (PFloat (FFin x)) operator (dget d ''value'') = Ok True"
proof -
  let ?v = "dget d ''value''"
  have "validate_numeric_bounds rt field operator ?v = Ok ()"
    using assms(1) comparison_plain(9)[OF assms(5)] unfolding validate_condition_def Let_def field_def operator_def by simp
  then have l: "\<not> is_list ?v" and n: "rbind (number ?v) (validate_number rt field operator lo (Some hi) whole) = Ok ()"
    using assms(4) by (auto simp: validate_numeric_bounds_def split: if_splits)
  from n obtain z where "number ?v = Ok z" "validate_number rt field operator lo (Some hi) whole z = Ok ()"
    by (auto simp: rbind_Ok_iff)
  then obtain y where y: "number ?v = Ok (Some (FFin y))" "lo \<le> y" "y \<le> hi"
      "operator = ''greater_than'' \<Longrightarrow> y \<noteq> hi" "operator = ''less_than'' \<Longrightarrow> lo \<noteq> y"
    by (metis accepted_number)
  note field = bounded_field[OF assms(4)]
  define x where "x = (if operator = ''greater_than'' then hi else if operator = ''less_than'' then lo else y)"
  have "matches_scalar rt field (PFloat (FFin x)) operator ?v = Ok True"
    using assms(5) y(2-5) unfolding comparisons_def list.set
    by (elim insertE emptyE) (simp_all add: scalar_comparison[OF y(1) l field(2)] x_def float_le_def)
  moreover have "lo \<le> x" "x \<le> hi" using y field(3) by (auto simp: x_def)
  ultimately show ?thesis using matches_numeric[OF assms(4,5), of rt al "FFin x"] by auto
qed

lemma accepted_comparisons_can_match_witness:
  "\<exists>x. 0 \<le> x \<and> x \<le> 10 \<and> matches_operator demo_runtime None ''imdb.rating'' (PFloat (FFin x)) ''greater_than'' (PFloat (FFin 9)) = Ok True"
  using accepted_comparisons_can_match[OF demo_condition_accepted, of demo_runtime 0 10 False None]
  by (simp add: demo_condition_text demo_field_tables comparisons_def)

end
