(* ===== verification/Rule_Explain.thy ===== *)
theory Rule_Explain
  imports Rule_Validate
begin

text \<open>
  The explanation of a rule for one title (\<open>explain_advanced_rule\<close> in
  \<open>backend/core/rule_engine.py\<close>) and the bounded copies of values it shows
  (\<open>bounded_value\<close> in \<open>backend/core/diagnostic_trace.py\<close>).
\<close>

section \<open>Bounded values\<close>

function bounded_value :: "runtime \<Rightarrow> nat \<Rightarrow> pyval \<Rightarrow> pyval" where
  "bounded_value rt depth v =
     (if depth > 8 then PDict [(''omitted'', PStr ''depth_limit'')]
      else case v of
             PDatetime d \<Rightarrow> PStr (isoformat rt d)
           | PDate d \<Rightarrow> PStr (py_str rt (PDate d))
           | PStr s \<Rightarrow> PStr (take 2048 s)
           | PList xs \<Rightarrow> PList (map (bounded_value rt (depth + 1)) (take 100 xs))
           | PDict d \<Rightarrow> PDict (dupdate [] (map (\<lambda>(k, x). (take 128 k, bounded_value rt (depth + 1) x)) (take 100 d)))
           | PUnavailable \<Rightarrow> PNone
           | _ \<Rightarrow> v)"
  by pat_completeness auto
termination
  by (relation "measure (\<lambda>(rt, depth, v). 9 - depth)") auto

declare bounded_value.simps [simp del]

text \<open>A value nested at most \<open>n\<close> deep, with at most a hundred entries on every level.\<close>

fun bounded_to :: "nat \<Rightarrow> pyval \<Rightarrow> bool" where
  "bounded_to 0 v = (\<not> is_list v \<and> \<not> is_dict v)"
| "bounded_to (Suc n) (PList xs) = (length xs \<le> 100 \<and> list_all (bounded_to n) xs)"
| "bounded_to (Suc n) (PDict d) = (length d \<le> 100 \<and> list_all (\<lambda>(k, x). bounded_to n x) d)"
| "bounded_to (Suc n) v = True"

section \<open>Explanations\<close>

datatype explained_state = Disabled_State | Pass | Fail | Unknown

datatype explanation =
    Explained_Group explained_state string "explanation list"
  | Explained_Condition explained_state (explained_field: string) (explained_label: string) (explained_operator: string)
      (explained_operator_label: string) (explained_expected: pyval) (explained_actual: pyval)

primrec explained :: "explanation \<Rightarrow> explained_state" where
  "explained (Explained_Group s opr children) = s"
| "explained (Explained_Condition s f l opr ol e a) = s"

definition state_name :: "bool option \<Rightarrow> explained_state" where
  "state_name s = (case s of None \<Rightarrow> Unknown | Some True \<Rightarrow> Pass | Some False \<Rightarrow> Fail)"

definition joined_state :: "string \<Rightarrow> explained_state list \<Rightarrow> explained_state" where
  "joined_state opr states =
     (if states = [] then Pass
      else if opr = ''and'' then
        (if List.member states Fail then Fail else if List.member states Unknown then Unknown else Pass)
      else (if List.member states Pass then Pass else if List.member states Unknown then Unknown else Fail))"

text \<open>What Python iterates over in \<open>node.get("children", [])\<close>; elements that are not objects fail in the recursion.\<close>

definition iterated_children :: "pyval dict \<Rightarrow> pyval list result" where
  "iterated_children d =
     (if \<not> has_key ''children'' d then Ok []
      else case dget d ''children'' of
             PList cs \<Rightarrow> Ok cs
           | PStr s \<Rightarrow> if s = [] then Ok [] else Raise AttributeError
           | PDict e \<Rightarrow> if e = [] then Ok [] else Raise AttributeError
           | _ \<Rightarrow> Raise TypeError)"

text \<open>Every selected user's total, in the order of selection; a name selected twice is shown once.
  Validation lets only a list of names through, so no other value is iterated over.\<close>

definition explained_totals :: "runtime \<Rightarrow> alias_map option \<Rightarrow> pyval dict \<Rightarrow> pyval dict \<Rightarrow> pyval result" where
  "explained_totals rt al totals expected =
     (case dget_or expected ''usernames'' (PList []) of
        PList raw \<Rightarrow>
          rbind (rmap (\<lambda>u. rbind (user_total rt al totals u) (\<lambda>t. Ok (u, t))) (selected_usernames rt raw))
            (\<lambda>entries. Ok (PDict (dupdate [] entries)))
      | _ \<Rightarrow> Raise TypeError)"

definition explain_condition ::
  "runtime \<Rightarrow> alias_map option \<Rightarrow> eval_context \<Rightarrow> bool \<Rightarrow> pyval dict \<Rightarrow> explanation result" where
  "explain_condition rt al c disabled d =
     rbind (if disabled then Ok (Disabled_State, PNone)
            else if dget d ''type'' \<noteq> PStr ''condition'' then Raise KeyError
            else rbind (condition_state rt al c d) (\<lambda>(s, a). Ok (state_name s, a)))
       (\<lambda>(state, actual).
          let field = node_text rt d ''field''; operator = node_text rt d ''operator''
          in rbind (if \<not> disabled \<and> List.member user_scoped_playback_fields field
                    then (case (ctx_get c field, dget d ''value'') of
                            (PDict totals, PDict expected) \<Rightarrow> explained_totals rt al totals expected
                          | _ \<Rightarrow> Ok actual)
                    else Ok actual)
               (\<lambda>actual. Ok (Explained_Condition state field (label_of field_labels field) operator
                  (label_of operator_labels operator) (bounded_value rt 0 (dget d ''value'')) (bounded_value rt 0 actual))))"

function walk :: "runtime \<Rightarrow> alias_map option \<Rightarrow> eval_context \<Rightarrow> bool \<Rightarrow> pyval \<Rightarrow> explanation result" where
  "walk rt al c off v =
     (case v of
        PDict d \<Rightarrow>
          (let disabled = off \<or> node_is_disabled d
           in if \<not> has_key ''type'' d then Raise KeyError
              else if dget d ''type'' = PStr ''group'' then
                rbind (iterated_children d) (\<lambda>cs.
                rbind (rmap (walk rt al c disabled) cs) (\<lambda>children.
                  let opr = py_lower (py_str rt (dget_or d ''op'' (PStr ''and'')))
                  in Ok (Explained_Group
                       (if disabled then Disabled_State
                        else joined_state opr (filter (\<lambda>s. s \<noteq> Disabled_State) (map explained children)))
                       opr children)))
              else explain_condition rt al c disabled d)
      | _ \<Rightarrow> Raise AttributeError)"
  by pat_completeness auto

lemma iterated_smaller: "iterated_children d = Ok cs \<Longrightarrow> n \<in> set cs \<Longrightarrow> size n < size (PDict d)"
  using dget_list_size[of d "''children''" cs n]
  by (auto simp: iterated_children_def split: if_splits pyval.splits)

termination walk
  by (relation "measure (\<lambda>(rt, al, c, off, v). size v)") (auto dest: iterated_smaller)

declare walk.simps [simp del]

definition explain_advanced_rule ::
  "runtime \<Rightarrow> alias_map option \<Rightarrow> eval_context \<Rightarrow> pyval \<Rightarrow> string \<Rightarrow> explanation result" where
  "explain_advanced_rule rt al c definition_of target_scope =
     (case rule_root definition_of of
        None \<Rightarrow> Raise (ValueError ''Rule definition is required'')
      | Some root_node \<Rightarrow>
          rbind (validate_rule_definition rt definition_of (Some target_scope)) (\<lambda>_. walk rt al c False root_node))"

section \<open>Explanations tell what the scan decides\<close>

lemma state_name_shown [simp]: "state_name s \<noteq> Disabled_State"
  by (cases s) (auto simp: state_name_def split: bool.splits)

lemma state_name_eq:
  "state_name s = Pass \<longleftrightarrow> s = Some True" "state_name s = Fail \<longleftrightarrow> s = Some False" "state_name s = Unknown \<longleftrightarrow> s = None"
  by (auto simp: state_name_def split: option.splits bool.splits)

lemma member_state_name:
  "Pass \<in> state_name ` A \<longleftrightarrow> Some True \<in> A" "Fail \<in> state_name ` A \<longleftrightarrow> Some False \<in> A" "Unknown \<in> state_name ` A \<longleftrightarrow> None \<in> A"
  by (auto simp: image_iff state_name_eq eq_commute[of _ "state_name _"])

lemma joined_state_names:
  "ss \<noteq> [] \<Longrightarrow> joined_state opr (map state_name ss) = state_name (join_states opr ss)"
  by (auto simp: joined_state_def join_states_def member_state_name) (auto simp: state_name_def)

lemma explain_condition_state:
  assumes "explain_condition rt al c disabled d = Ok e"
  shows "if disabled then explained e = Disabled_State
         else dget d ''type'' = PStr ''condition'' \<and> (\<exists>s a. condition_state rt al c d = Ok (s, a) \<and> explained e = state_name s)"
  using assms by (auto simp: explain_condition_def rbind_Ok_iff Let_def split: if_splits)

lemma walk_disabled:
  assumes "walk rt al c off n = Ok e" "off \<or> disabled_node n"
  shows "explained e = Disabled_State"
proof (cases n)
  case (PDict d)
  then show ?thesis
    using assms by (auto simp: walk.simps rbind_Ok_iff Let_def dest: explain_condition_state split: if_splits)
qed (use assms in \<open>auto simp: walk.simps\<close>)

lemma walk_children:
  assumes "rmap (walk rt al c False) cs = Ok es"
    and "\<And>n e. n \<in> set cs \<Longrightarrow> \<not> disabled_node n \<Longrightarrow> walk rt al c False n = Ok e \<Longrightarrow>
           \<exists>s. evaluate_node_state rt al c n = Ok s \<and> explained e = state_name s"
  shows "\<exists>ss. rmap (evaluate_node_state rt al c) (filter (\<lambda>n. \<not> disabled_node n) cs) = Ok ss \<and>
              filter (\<lambda>s. s \<noteq> Disabled_State) (map explained es) = map state_name ss"
  using assms
proof (induction cs arbitrary: es)
  case (Cons n cs)
  then obtain e es' where e: "walk rt al c False n = Ok e" "rmap (walk rt al c False) cs = Ok es'" "es = e # es'"
    by (auto simp: rbind_Ok_iff)
  obtain ss where ss: "rmap (evaluate_node_state rt al c) (filter (\<lambda>n. \<not> disabled_node n) cs) = Ok ss"
      "filter (\<lambda>s. s \<noteq> Disabled_State) (map explained es') = map state_name ss"
    using Cons.IH[OF e(2)] Cons.prems(2) by (meson list.set_intros(2))
  show ?case
  proof (cases "disabled_node n")
    case True
    then show ?thesis using ss walk_disabled[OF e(1)] e(3) by (auto simp del: evaluate_node_state.simps)
  next
    case False
    then obtain s where "evaluate_node_state rt al c n = Ok s" "explained e = state_name s"
      using Cons.prems(2)[OF list.set_intros(1) False e(1)] by blast
    with ss False e(3) show ?thesis by (intro exI[of _ "s # ss"]) (simp del: evaluate_node_state.simps)
  qed
qed simp

lemma iterated_children_list: "dget d ''children'' = PList cs \<Longrightarrow> iterated_children d = Ok cs"
  by (auto simp: iterated_children_def has_key_def dget_def split: option.splits)

lemma accepted_op: "List.member [''and'', ''or''] (group_op rt d) \<Longrightarrow> py_lower (py_str rt (dget_or d ''op'' (PStr ''and''))) = group_op rt d"
  by (auto simp: group_op_def node_text_def dget_or_def split: option.splits)

lemma walk_agrees:
  "validate_node rt n = Ok u \<Longrightarrow> \<not> disabled_node n \<Longrightarrow> walk rt al c False n = Ok e \<Longrightarrow>
   \<exists>s. evaluate_node_state rt al c n = Ok s \<and> explained e = state_name s"
proof (induction n arbitrary: u e rule: measure_induct_rule[of size])
  case (less n)
  obtain d where n: "n = PDict d" using less.prems(3) by (cases n) (auto simp: walk.simps)
  have on: "\<not> node_is_disabled d" using less.prems(2) n by simp
  show ?case
  proof (cases "dget d ''type'' = PStr ''group''")
    case True
    obtain cs where cs: "dget d ''children'' = PList cs" "cs \<noteq> []" "list_all is_dict cs"
      "List.member [''and'', ''or''] (group_op rt d)" "\<And>n. n \<in> set cs \<Longrightarrow> validate_node rt n = Ok ()"
      using validate_group[OF less.prems(1)[unfolded n] on True] by metis
    obtain es where es: "rmap (walk rt al c False) cs = Ok es"
      "explained e = joined_state (group_op rt d) (filter (\<lambda>s. s \<noteq> Disabled_State) (map explained es))"
      using less.prems(3) on True iterated_children_list[OF cs(1)] accepted_op[OF cs(4)]
      by (auto simp: n walk.simps rbind_Ok_iff Let_def split: if_splits)
    have sz: "size m < size n" if "m \<in> set cs" for m
      using dget_list_size[OF cs(1)] that n by simp
    obtain ss where ss: "rmap (evaluate_node_state rt al c) (filter (\<lambda>n. \<not> disabled_node n) cs) = Ok ss"
        "filter (\<lambda>s. s \<noteq> Disabled_State) (map explained es) = map state_name ss"
      using walk_children[OF es(1)] less.IH[OF sz cs(5)] by metis
    show ?thesis
    proof (cases "ss = []")
      case True
      then have "filter (\<lambda>n. \<not> disabled_node n) cs = []"
        using ss(1) by (cases "filter (\<lambda>n. \<not> disabled_node n) cs") (auto simp: rbind_Ok_iff)
      with True ss(2) es(2) cs(1-4) on \<open>dget d ''type'' = _\<close> show ?thesis
        by (auto simp: n joined_state_def state_name_def)
    next
      case False
      then have "filter (\<lambda>n. \<not> disabled_node n) cs \<noteq> []" using ss(1) by auto
      with False ss es(2) cs(1-4) on \<open>dget d ''type'' = _\<close> show ?thesis
        by (auto simp: n joined_state_names)
    qed
  next
    case False
    then have "explain_condition rt al c False d = Ok e"
      using less.prems(3) on by (auto simp: n walk.simps Let_def split: if_splits)
    from explain_condition_state[OF this] on False show ?thesis by (auto simp: n)
  qed
qed

text \<open>C27: what is explained is what the scan decides.  When a rule is explained for a title, the
  three-valued evaluation of the same rule and title returns, and the explanation's overall state is
  its name: pass for True, fail for False, unknown for a rule that unavailable values leave open.\<close>

theorem explanation_agrees_with_evaluation:
  assumes "explain_advanced_rule rt al c defn scope = Ok e"
  shows "\<exists>s. evaluate_advanced_rule_state rt al c defn = Ok s \<and> explained e = state_name s"
proof -
  obtain r where r: "rule_root defn = Some r" "validate_rule_definition rt defn (Some scope) = Ok ()" "walk rt al c False r = Ok e"
    using assms by (auto simp: explain_advanced_rule_def rbind_Ok_iff split: option.splits)
  obtain r' where r': "rule_root defn = Some r'" "validate_node rt r' = Ok ()" "has_enabled_condition r'"
    using accepted_definition[OF r(2)] by metis
  moreover have "r' = r" using r(1) r'(1) by simp
  moreover have "\<not> disabled_node r'" using r'(3) by (cases r') auto
  ultimately show ?thesis
    using walk_agrees[of rt r "()" al c e] r(3) by (auto simp: evaluate_advanced_rule_state_def)
qed

definition demo_title :: eval_context where
  "demo_title = (\<lambda>f. if f = ''imdb.rating'' then Some (PFloat (FFin (19/2))) else None)"

lemma demo_condition_holds: "condition_state demo_runtime None demo_title demo_condition = Ok (Some True, PFloat (FFin (19/2)))"
proof -
  have c: "ctx_get demo_title ''imdb.rating'' = PFloat (FFin (19/2))" by (simp add: demo_title_def ctx_get_def)
  have "matches_operator demo_runtime None ''imdb.rating'' (PFloat (FFin (19/2))) ''greater_than'' (PFloat (FFin 9)) = Ok True"
    using matches_numeric[OF demo_field_bounds, of "''greater_than''" demo_runtime None "FFin (19/2)" "PFloat (FFin 9)"]
      scalar_comparison(2)[of "PFloat (FFin 9)" "FFin 9" "''imdb.rating''" demo_runtime "FFin (19/2)"]
    by (simp add: comparisons_def)
  then show ?thesis
    using demo_operator_tables(4) by (simp add: condition_state_def demo_condition_text Let_def c)
qed

lemma demo_condition_type: "has_key ''type'' demo_condition"
  by (simp add: demo_condition_def has_key_def)

lemma demo_explanation: "is_ok (explain_advanced_rule demo_runtime None demo_title demo_rule '' Movie_Version '')"
  using demo_operator_tables(4)
  by (simp add: explain_advanced_rule_def demo_rule_root demo_rule_accepted walk.simps iterated_children_def has_key_def
      dget_Cons dget_Nil demo_condition_type[unfolded has_key_def] demo_condition_node node_is_disabled_def
      explain_condition_def demo_condition_holds demo_condition_text Let_def)

lemma explanation_agrees_with_evaluation_witness:
  "\<exists>s. evaluate_advanced_rule_state demo_runtime None demo_title demo_rule = Ok s"
  using demo_explanation explanation_agrees_with_evaluation[of demo_runtime None demo_title demo_rule "'' Movie_Version ''"]
  unfolding is_ok_iff by blast

section \<open>Explanations stay small\<close>

lemma length_dput: "length (dput k v d) \<le> Suc (length d)"
  by (induction k v d rule: dput.induct) auto

lemma length_dupdate: "length (dupdate d e) \<le> length d + length e"
proof (induction e arbitrary: d)
  case (Cons x e)
  obtain k v where x: "x = (k, v)" by (cases x)
  have "length (dupdate (dput k v d) e) \<le> length (dput k v d) + length e" by (rule Cons.IH)
  with length_dput[of k v d] show ?case by (simp add: x)
qed simp

lemma dput_all: "list_all (\<lambda>(k, x). P x) d \<Longrightarrow> P v \<Longrightarrow> list_all (\<lambda>(k, x). P x) (dput k v d)"
  by (induction k v d rule: dput.induct) auto

lemma dupdate_all: "list_all (\<lambda>(k, x). P x) d \<Longrightarrow> list_all (\<lambda>(k, x). P x) e \<Longrightarrow> list_all (\<lambda>(k, x). P x) (dupdate d e)"
proof (induction e arbitrary: d)
  case (Cons x e)
  then show ?case by (cases x) (auto simp: dput_all)
qed simp

lemma bounded_value_depth: "depth \<le> 9 \<Longrightarrow> bounded_to (Suc (9 - depth)) (bounded_value rt depth v)"
proof (induction rt depth v rule: bounded_value.induct)
  case (1 rt depth v)
  show ?case
  proof (cases "depth > 8")
    case True
    with 1(3) have "depth = 9" by simp
    then show ?thesis by (simp add: bounded_value.simps)
  next
    case False
    have n: "9 - depth = Suc (9 - (depth + 1))" using False by simp
    show ?thesis
    proof (cases v)
      case (PList xs)
      have "bounded_to (Suc (9 - (depth + 1))) (bounded_value rt (depth + 1) x)" if "x \<in> set (take 100 xs)" for x
        by (rule 1(1)[OF False PList that]) (use False in simp)
      then have "list_all (bounded_to (9 - depth)) (map (bounded_value rt (depth + 1)) (take 100 xs))"
        unfolding n by (auto simp: list_all_iff)
      then show ?thesis using False PList by (simp add: bounded_value.simps[of rt depth])
    next
      case (PDict d)
      have "bounded_to (Suc (9 - (depth + 1))) (bounded_value rt (depth + 1) x)" if "(k, x) \<in> set (take 100 d)" for k x
        by (rule 1(2)[OF False PDict that refl]) (use False in simp)
      then have "list_all (\<lambda>(k, x). bounded_to (9 - depth) x) (map (\<lambda>(k, x). (take 128 k, bounded_value rt (depth + 1) x)) (take 100 d))"
        unfolding n by (auto simp: list_all_iff)
      then have "list_all (\<lambda>(k, x). bounded_to (9 - depth) x) (dupdate [] (map (\<lambda>(k, x). (take 128 k, bounded_value rt (depth + 1) x)) (take 100 d)))"
        by (intro dupdate_all) simp_all
      moreover have "length (dupdate [] (map (\<lambda>(k, x). (take 128 k, bounded_value rt (depth + 1) x)) (take 100 d))) \<le> 100"
        by (rule order_trans[OF length_dupdate]) simp
      ultimately show ?thesis using False PDict by (simp add: bounded_value.simps[of rt depth])
    qed (use False in \<open>simp_all add: bounded_value.simps[of rt depth]\<close>)
  qed
qed

end
