(* ===== verification/Auto_Delete.thy ===== *)
theory Auto_Delete
  imports Rule_Operators
begin

text \<open>
  The auto-delete deadline of a candidate (\<open>backend/core/auto_delete.py\<close>).  Instants are
  microseconds since 0001-01-01 UTC; a naive datetime counts as UTC.  A rule's action is
  the parsed JSON the rule stores.
\<close>

section \<open>The policy\<close>

datatype media_type = MOVIE | SERIES

datatype policy_state = Disabled | Scheduled | Eligible | Postponed | Canceled

record auto_delete_policy =
  is_configured :: bool
  is_enabled :: bool
  delay_days :: int
  eligible_at :: int
  is_eligible :: bool
  state :: policy_state

definition max_auto_delete_delay_days :: int where
  "max_auto_delete_delay_days = 3650"

fun valid_override :: "pyval \<Rightarrow> int option" where
  "valid_override (PInt i) = (if i < 0 \<or> i > max_auto_delete_delay_days then None else Some i)"
| "valid_override v = None"

text \<open>A deadline after 9999-12-31 does not exist: adding to a datetime then raises.\<close>

definition end_of_time :: int where
  "end_of_time = 3652059 * day_us"

definition plus_days :: "int \<Rightarrow> int \<Rightarrow> int result" where
  "plus_days t n = (if t + n * day_us < end_of_time then Ok (t + n * day_us) else Raise OverflowError)"

type_synonym rule_actions = "int \<rightharpoonup> pyval dict option"

definition opted_in :: "rule_actions \<Rightarrow> int \<Rightarrow> pyval dict option" where
  "opted_in actions rule_id =
     (case actions rule_id of
        Some (Some action) \<Rightarrow>
          if action \<noteq> [] \<and> dget action ''auto_delete_enabled'' = PBool True then Some action else None
      | _ \<Rightarrow> None)"

definition rule_delay :: "int \<Rightarrow> pyval dict \<Rightarrow> int" where
  "rule_delay global_delay action =
     (case valid_override (dget action ''auto_delete_delay_days'') of Some d \<Rightarrow> d | None \<Rightarrow> global_delay)"

definition matched_delays :: "rule_actions \<Rightarrow> int \<Rightarrow> int list \<Rightarrow> int list" where
  "matched_delays actions global_delay rule_ids =
     map (rule_delay global_delay) (somes (map (opted_in actions) rule_ids))"

definition clamped_delay :: "media_type \<Rightarrow> int \<Rightarrow> int \<Rightarrow> int" where
  "clamped_delay m movie_delay_days series_delay_days =
     min (max (if m = MOVIE then movie_delay_days else series_delay_days) 0) max_auto_delete_delay_days"

fun max_or :: "int \<Rightarrow> int list \<Rightarrow> int" where
  "max_or d [] = d"
| "max_or d (x # xs) = foldl max x xs"

definition postponed_deadline :: "pydatetime option \<Rightarrow> int \<Rightarrow> int" where
  "postponed_deadline postponed_until t =
     (case postponed_until of None \<Rightarrow> t | Some p \<Rightarrow> max t (utc_instant p))"

definition policy_state_of :: "bool \<Rightarrow> bool \<Rightarrow> bool \<Rightarrow> int \<Rightarrow> int \<Rightarrow> policy_state" where
  "policy_state_of configured cancelled postponed now deadline =
     (if \<not> configured then Disabled
      else if cancelled then Canceled
      else if postponed \<and> now < deadline then Postponed
      else if now \<ge> deadline then Eligible
      else Scheduled)"

definition resolve_auto_delete_policy ::
  "media_type \<Rightarrow> int list \<Rightarrow> pydatetime \<Rightarrow> pydatetime option \<Rightarrow> pydatetime option \<Rightarrow>
   pydatetime option \<Rightarrow> rule_actions \<Rightarrow> int \<Rightarrow> int \<Rightarrow> pydatetime \<Rightarrow> auto_delete_policy result" where
  "resolve_auto_delete_policy m rule_ids created_at timer_started_at postponed_until cancelled_at
     actions movie_delay_days series_delay_days now =
     (let global_delay = clamped_delay m movie_delay_days series_delay_days;
          delays = matched_delays actions global_delay rule_ids;
          configured = (delays \<noteq> []);
          delay = max_or global_delay delays;
          origin = (case timer_started_at of Some t \<Rightarrow> t | None \<Rightarrow> created_at);
          cancelled = (cancelled_at \<noteq> None);
          effective_now = utc_instant now
      in rbind (plus_days (utc_instant origin) delay) (\<lambda>base.
           let deadline = postponed_deadline postponed_until base
           in Ok \<lparr>is_configured = configured,
                  is_enabled = configured \<and> \<not> cancelled,
                  delay_days = delay,
                  eligible_at = deadline,
                  is_eligible = configured \<and> \<not> cancelled \<and> effective_now \<ge> deadline,
                  state = policy_state_of configured cancelled (postponed_until \<noteq> None) effective_now deadline\<rparr>))"

section \<open>Delays\<close>

lemma foldl_max_ge: "a \<le> foldl max a xs \<and> (\<forall>x \<in> set xs. x \<le> foldl max (a::int) xs)"
  by (induction xs arbitrary: a) (auto intro: order_trans[OF _ conjunct1] simp: max.coboundedI1 max.coboundedI2, (meson max.bounded_iff)+)

lemma foldl_max_in: "foldl max a xs \<in> insert (a::int) (set xs)"
  by (induction xs arbitrary: a) (auto simp: max_def split: if_splits)

lemma max_or_ge: "x \<in> set xs \<Longrightarrow> x \<le> max_or d xs"
  using foldl_max_ge by (cases xs) auto

lemma max_or_in: "xs \<noteq> [] \<Longrightarrow> max_or d xs \<in> set xs"
  using foldl_max_in by (cases xs) auto

lemma valid_override_bounds: "valid_override v = Some d \<Longrightarrow> 0 \<le> d \<and> d \<le> max_auto_delete_delay_days"
  by (cases v) (auto split: if_splits)

lemma clamped_bounds: "0 \<le> clamped_delay m a b \<and> clamped_delay m a b \<le> max_auto_delete_delay_days"
  by (simp add: clamped_delay_def max_auto_delete_delay_days_def)

lemma rule_delay_bounds:
  "0 \<le> g \<Longrightarrow> g \<le> max_auto_delete_delay_days \<Longrightarrow> 0 \<le> rule_delay g a \<and> rule_delay g a \<le> max_auto_delete_delay_days"
  by (auto simp: rule_delay_def dest: valid_override_bounds split: option.splits)

lemma matched_delays_mem:
  "d \<in> set (matched_delays actions g ids) \<longleftrightarrow> (\<exists>i \<in> set ids. \<exists>a. opted_in actions i = Some a \<and> d = rule_delay g a)"
  unfolding matched_delays_def by (simp add: image_iff) (metis (no_types))

lemmas policy_simps = resolve_auto_delete_policy_def policy_state_of_def postponed_deadline_def Let_def

lemma policy_Ok:
  assumes "resolve_auto_delete_policy m ids created timer postponed cancelled actions md sd now = Ok p"
  shows "is_configured p = (\<exists>i \<in> set ids. opted_in actions i \<noteq> None)"
    and "delay_days p = max_or (clamped_delay m md sd) (matched_delays actions (clamped_delay m md sd) ids)"
    and "eligible_at p = postponed_deadline postponed
           (utc_instant (case timer of Some t \<Rightarrow> t | None \<Rightarrow> created) + delay_days p * day_us)"
    and "is_enabled p = (is_configured p \<and> cancelled = None)"
    and "is_eligible p = (is_enabled p \<and> utc_instant now \<ge> eligible_at p)"
    and "state p = policy_state_of (is_configured p) (cancelled \<noteq> None) (postponed \<noteq> None) (utc_instant now) (eligible_at p)"
proof -
  have "matched_delays actions g ids \<noteq> [] \<longleftrightarrow> (\<exists>i \<in> set ids. opted_in actions i \<noteq> None)" for g
    using matched_delays_mem[of _ actions g ids] by (metis (no_types) ex_in_conv not_None_eq set_empty)
  with assms show
    "is_configured p = (\<exists>i \<in> set ids. opted_in actions i \<noteq> None)"
    "delay_days p = max_or (clamped_delay m md sd) (matched_delays actions (clamped_delay m md sd) ids)"
    "eligible_at p = postponed_deadline postponed
           (utc_instant (case timer of Some t \<Rightarrow> t | None \<Rightarrow> created) + delay_days p * day_us)"
    "is_enabled p = (is_configured p \<and> cancelled = None)"
    "is_eligible p = (is_enabled p \<and> utc_instant now \<ge> eligible_at p)"
    "state p = policy_state_of (is_configured p) (cancelled \<noteq> None) (postponed \<noteq> None) (utc_instant now) (eligible_at p)"
    by (auto simp: resolve_auto_delete_policy_def Let_def rbind_Ok_iff plus_days_def simp del: not_None_eq split: if_splits) blast
qed

lemma eligible_means_due:
  assumes "resolve_auto_delete_policy m ids created timer postponed cancelled actions md sd now = Ok p"
    and "is_eligible p"
  defines "origin \<equiv> utc_instant (case timer of Some t \<Rightarrow> t | None \<Rightarrow> created)"
  shows "cancelled = None \<and>
         (\<exists>i \<in> set ids. opted_in actions i \<noteq> None) \<and>
         (\<forall>i \<in> set ids. \<forall>a. opted_in actions i = Some a \<longrightarrow>
            origin + rule_delay (clamped_delay m md sd) a * day_us \<le> utc_instant now) \<and>
         (\<forall>q. postponed = Some q \<longrightarrow> utc_instant q \<le> utc_instant now)"
proof -
  note p = policy_Ok[OF assms(1), folded origin_def]
  have deadline: "origin + delay_days p * day_us \<le> utc_instant now" "\<forall>q. postponed = Some q \<longrightarrow> utc_instant q \<le> utc_instant now"
    using assms(2) p(3,5) by (auto simp: postponed_deadline_def split: option.splits)
  have "rule_delay (clamped_delay m md sd) a \<le> delay_days p" if "i \<in> set ids" "opted_in actions i = Some a" for i a
    unfolding p(2) by (rule max_or_ge) (use that matched_delays_mem in blast)
  then have "origin + rule_delay (clamped_delay m md sd) a * day_us \<le> utc_instant now"
    if "i \<in> set ids" "opted_in actions i = Some a" for i a
    using that deadline(1) by fastforce
  then show ?thesis using assms(2) p(1,4,5) deadline(2) by simp
qed

section \<open>Properties\<close>

text \<open>A movie candidate matched by two rules with delays of three and ten days, since day 730000.\<close>

definition demo_actions :: rule_actions where
  "demo_actions =
     [1 \<mapsto> Some [(''auto_delete_enabled'', PBool True), (''auto_delete_delay_days'', PInt 3)],
      2 \<mapsto> Some [(''auto_delete_enabled'', PBool True), (''auto_delete_delay_days'', PInt 10)]]"

definition demo_policy :: "int \<Rightarrow> auto_delete_policy result" where
  "demo_policy day =
     resolve_auto_delete_policy MOVIE [1, 2] (PDT (730000 * day_us) None) None None None demo_actions 14 7
       (PDT (day * day_us) None)"

lemma demo_policy_eligible:
  "demo_policy 730010 = Ok \<lparr>is_configured = True, is_enabled = True, delay_days = 10,
     eligible_at = 730010 * day_us, is_eligible = True, state = Eligible\<rparr>"
  by code_simp

text \<open>C28: nothing is deleted early.  A candidate is eligible only if it is not cancelled, some
  matched rule opted in to auto-deletion, the delay of every matched rule that opted in has run
  from the timer's origin, and a postponement is over.\<close>

theorem never_eligible_early:
  assumes "resolve_auto_delete_policy m ids created timer postponed cancelled actions md sd now = Ok p"
    and "is_eligible p"
  defines "origin \<equiv> utc_instant (case timer of Some t \<Rightarrow> t | None \<Rightarrow> created)"
  shows "cancelled = None \<and>
         (\<exists>i \<in> set ids. opted_in actions i \<noteq> None) \<and>
         (\<forall>i \<in> set ids. \<forall>a. opted_in actions i = Some a \<longrightarrow>
            origin + rule_delay (clamped_delay m md sd) a * day_us \<le> utc_instant now) \<and>
         (\<forall>q. postponed = Some q \<longrightarrow> utc_instant q \<le> utc_instant now)"
  using eligible_means_due[OF assms(1,2)] unfolding origin_def .

lemma never_eligible_early_witness:
  "730000 * day_us + rule_delay (clamped_delay MOVIE 14 7) [(''auto_delete_enabled'', PBool True), (''auto_delete_delay_days'', PInt 10)] * day_us
     \<le> utc_instant (PDT (730010 * day_us) None)"
  using never_eligible_early[OF demo_policy_eligible[unfolded demo_policy_def]]
  by (simp add: opted_in_def demo_actions_def dget_def)

text \<open>The state shown to the user is the state acted upon.  The state reads eligible exactly
  when the candidate may be deleted now, and the delay always lies between zero days and the
  maximum.\<close>

theorem policy_state_coherent:
  assumes "resolve_auto_delete_policy m ids created timer postponed cancelled actions md sd now = Ok p"
  shows "(is_eligible p \<longleftrightarrow> state p = Eligible) \<and>
         (is_enabled p \<longleftrightarrow> state p \<in> {Scheduled, Eligible, Postponed}) \<and>
         0 \<le> delay_days p \<and> delay_days p \<le> max_auto_delete_delay_days"
proof -
  note p = policy_Ok[OF assms]
  let ?g = "clamped_delay m md sd" and ?ds = "matched_delays actions (clamped_delay m md sd) ids"
  have "0 \<le> delay_days p \<and> delay_days p \<le> max_auto_delete_delay_days"
  proof (cases "?ds = []")
    case True
    then show ?thesis using clamped_bounds by (simp add: p(2))
  next
    case False
    from max_or_in[OF False] obtain a where "delay_days p = rule_delay ?g a"
      unfolding p(2) matched_delays_mem by blast
    then show ?thesis using rule_delay_bounds clamped_bounds by metis
  qed
  then show ?thesis by (simp add: p(4,5,6) policy_state_of_def)
qed

lemma policy_state_coherent_witness:
  "is_eligible \<lparr>is_configured = True, is_enabled = True, delay_days = 10,
     eligible_at = 730010 * day_us, is_eligible = True, state = Eligible\<rparr> \<longleftrightarrow> (Eligible = Eligible)"
  using policy_state_coherent[OF demo_policy_eligible[unfolded demo_policy_def]] by simp

text \<open>Adding a matched rule never brings a deadline forward: a candidate that keeps the rules
  it matched, and matches more, is not due earlier, unless it matched no opted-in rule before.\<close>

theorem more_rules_never_earlier:
  assumes "resolve_auto_delete_policy m ids created timer postponed cancelled actions md sd now = Ok p"
    and "resolve_auto_delete_policy m ids' created timer postponed cancelled actions md sd now = Ok p'"
    and "set ids \<subseteq> set ids'" "is_configured p"
  shows "eligible_at p \<le> eligible_at p'"
proof -
  note p = policy_Ok[OF assms(1)] and p' = policy_Ok[OF assms(2)]
  let ?g = "clamped_delay m md sd"
  have "matched_delays actions ?g ids \<noteq> []"
    using assms(4) matched_delays_mem[of _ actions ?g ids] unfolding p(1) by (metis empty_iff not_None_eq set_empty)
  then have "delay_days p \<in> set (matched_delays actions ?g ids)" unfolding p(2) by (rule max_or_in)
  then have "delay_days p \<in> set (matched_delays actions ?g ids')"
    using assms(3) by (auto simp: matched_delays_mem)
  then have "delay_days p \<le> delay_days p'" unfolding p'(2) by (rule max_or_ge)
  then show ?thesis unfolding p(3) p'(3) by (auto simp: postponed_deadline_def max_def split: option.splits)
qed

lemma demo_policy_one:
  "resolve_auto_delete_policy MOVIE [1] (PDT (730000 * day_us) None) None None None demo_actions 14 7
     (PDT (730010 * day_us) None) = Ok \<lparr>is_configured = True, is_enabled = True, delay_days = 3,
     eligible_at = 730003 * day_us, is_eligible = True, state = Eligible\<rparr>"
  by code_simp

lemma more_rules_never_earlier_witness:
  "eligible_at \<lparr>is_configured = True, is_enabled = True, delay_days = 3,
     eligible_at = 730003 * day_us, is_eligible = True, state = Eligible\<rparr> \<le> 730010 * day_us"
  using more_rules_never_earlier[OF demo_policy_one demo_policy_eligible[unfolded demo_policy_def]] by simp

end
