(* ===== verification/Protection_Scope.thy ===== *)
theory Protection_Scope
  imports Auto_Delete
begin

text \<open>
  Which rows cover which target, and protecting a target
  (\<open>backend/core/protection_scope.py\<close>).  A table is the list of its rows in the order the
  database returns them; every order is a list, so a result for all lists covers the
  unordered \<open>limit(1)\<close>.  A nullable column is an option: comparing two of them with \<open>==\<close> in
  the query layer is equality, a null parameter becoming \<open>IS NULL\<close>.
\<close>

section \<open>Scopes\<close>

record scope =
  movie_version_id :: "int option"
  season_id :: "int option"
  episode_id :: "int option"

definition movie_scope_overlap :: "int option \<Rightarrow> ('a scope_scheme) \<Rightarrow> bool" where
  "movie_scope_overlap version row =
     (if version \<noteq> None then movie_version_id row = None \<or> movie_version_id row = version
      else movie_version_id row = None)"

definition series_scope_overlap :: "int option \<Rightarrow> int option \<Rightarrow> ('a scope_scheme) \<Rightarrow> bool" where
  "series_scope_overlap season episode row =
     (if episode \<noteq> None then
        season_id row = None \<and> episode_id row = None \<or>
        season_id row = season \<and> episode_id row = None \<or>
        episode_id row = episode
      else if season \<noteq> None then
        season_id row = None \<and> episode_id row = None \<or>
        season_id row = season \<and> episode_id row = None
      else season_id row = None \<and> episode_id row = None)"

section \<open>Rows\<close>

record protected_media = scope +
  protected_type :: media_type
  protected_movie :: "int option"
  protected_series :: "int option"
  source :: string
  permanent :: bool
  expires_at :: "int option"
  protection_reason :: "string option"
  protected_by_user_id :: "int option"
  source_rule_id :: "int option"

definition active_protection :: "int \<Rightarrow> ('a protected_media_scheme) \<Rightarrow> bool" where
  "active_protection now row =
     (permanent row \<or> (case expires_at row of None \<Rightarrow> True | Some e \<Rightarrow> e > now))"

section \<open>Protecting a target\<close>

text \<open>The request: the row that is written when nothing covers the target yet.\<close>

definition covers_request :: "int \<Rightarrow> protected_media \<Rightarrow> protected_media \<Rightarrow> bool" where
  "covers_request now request row \<longleftrightarrow>
     source row \<noteq> ''rule'' \<and> protected_type row = protected_type request \<and> active_protection now row \<and>
     (if protected_type request = MOVIE
      then protected_movie row = protected_movie request \<and>
           movie_scope_overlap (movie_version_id request) row
      else protected_series row = protected_series request \<and>
           series_scope_overlap (season_id request) (episode_id request) row)"

definition extend_protection :: "bool \<Rightarrow> int option \<Rightarrow> protected_media \<Rightarrow> protected_media" where
  "extend_protection perm expires row =
     (if perm \<and> \<not> permanent row then row\<lparr>permanent := True, expires_at := None\<rparr>
      else if \<not> permanent row \<and> expires \<noteq> None \<and>
              (expires_at row = None \<or> the expires > the (expires_at row))
      then row\<lparr>expires_at := expires\<rparr>
      else row)"

fun update_first :: "('a \<Rightarrow> bool) \<Rightarrow> ('a \<Rightarrow> 'a) \<Rightarrow> 'a list \<Rightarrow> ('a \<times> 'a list) option" where
  "update_first P f [] = None"
| "update_first P f (x # xs) =
     (if P x then Some (f x, f x # xs)
      else map_option (\<lambda>(y, ys). (y, x # ys)) (update_first P f xs))"

definition upsert_protection ::
  "int \<Rightarrow> protected_media \<Rightarrow> protected_media list \<Rightarrow> (protected_media \<times> bool) \<times> protected_media list" where
  "upsert_protection now request rows =
     (case update_first (covers_request now request)
             (extend_protection (permanent request) (expires_at request)) rows of
        Some (row, rows') \<Rightarrow> ((row, False), rows')
      | None \<Rightarrow> (let entry = request\<lparr>source := ''manual''\<rparr> in ((entry, True), rows @ [entry])))"

section \<open>Coverage\<close>

text \<open>
  What both overlap clauses promise their callers: on scopes that say which season an
  episode belongs to, a row covers its own target, and covers whatever a covered row
  covers.
\<close>

locale coverage =
  fixes well_formed :: "'s \<Rightarrow> bool"
    and covers :: "'s \<Rightarrow> 's \<Rightarrow> bool"
  assumes covers_self: "well_formed t \<Longrightarrow> covers t t"
    and covers_trans: "well_formed r \<Longrightarrow> well_formed s \<Longrightarrow> well_formed t \<Longrightarrow>
      covers r s \<Longrightarrow> covers s t \<Longrightarrow> covers r t"
begin

definition covered :: "'s set \<Rightarrow> 's \<Rightarrow> bool" where
  "covered rows t \<longleftrightarrow> (\<exists>r \<in> rows. well_formed r \<and> covers r t)"

lemma covered_part:
  "covered rows s \<Longrightarrow> well_formed s \<Longrightarrow> well_formed t \<Longrightarrow> covers s t \<Longrightarrow> covered rows t"
  unfolding covered_def by (blast intro: covers_trans)

lemma covered_own: "t \<in> rows \<Longrightarrow> well_formed t \<Longrightarrow> covered rows t"
  unfolding covered_def by (blast intro: covers_self)

end

definition movie_covers :: "scope \<Rightarrow> scope \<Rightarrow> bool" where
  "movie_covers row target = movie_scope_overlap (movie_version_id target) row"

definition series_covers :: "scope \<Rightarrow> scope \<Rightarrow> bool" where
  "series_covers row target = series_scope_overlap (season_id target) (episode_id target) row"

text \<open>An episode row names the season of its episode.\<close>

definition series_scope_ok :: "(int \<Rightarrow> int) \<Rightarrow> ('a scope_scheme) \<Rightarrow> bool" where
  "series_scope_ok season_of row \<longleftrightarrow>
     (case episode_id row of None \<Rightarrow> True | Some e \<Rightarrow> season_id row = Some (season_of e))"

interpretation movies: coverage "\<lambda>_. True" movie_covers
  by unfold_locales (auto simp: movie_covers_def movie_scope_overlap_def split: if_splits)

interpretation series: coverage "series_scope_ok season_of" series_covers for season_of
  by unfold_locales
    (auto simp: series_covers_def series_scope_overlap_def series_scope_ok_def split: if_splits option.splits)

section \<open>Lemmas on upserting\<close>

lemma update_first_Some:
  "update_first P f xs = Some (y, ys) \<Longrightarrow>
   \<exists>us x vs. xs = us @ x # vs \<and> P x \<and> \<not> list_ex P us \<and> y = f x \<and> ys = us @ f x # vs"
proof (induction xs arbitrary: y ys)
  case (Cons a xs)
  show ?case
  proof (cases "P a")
    case True
    with Cons.prems show ?thesis by (intro exI[of _ "[]"]) auto
  next
    case False
    with Cons.prems obtain zs where z: "update_first P f xs = Some (y, zs)" "ys = a # zs" by auto
    from Cons.IH[OF z(1)] obtain us x vs where "xs = us @ x # vs" "P x" "\<not> list_ex P us" "y = f x" "zs = us @ f x # vs"
      by blast
    with False z(2) show ?thesis by (intro exI[of _ "a # us"]) auto
  qed
qed simp

lemma update_first_None: "update_first P f xs = None \<longleftrightarrow> \<not> list_ex P xs"
  by (induction xs) auto

lemma extend_scope [simp]:
  "movie_version_id (extend_protection p e row) = movie_version_id row"
  "season_id (extend_protection p e row) = season_id row"
  "episode_id (extend_protection p e row) = episode_id row"
  "protected_type (extend_protection p e row) = protected_type row"
  "protected_movie (extend_protection p e row) = protected_movie row"
  "protected_series (extend_protection p e row) = protected_series row"
  "source (extend_protection p e row) = source row"
  by (simp_all add: extend_protection_def)

text \<open>An extension keeps a row in force, and in force as long as the request asks for.\<close>

lemma extend_active_request:
  "perm \<or> (\<exists>e. expires = Some e \<and> t < e) \<Longrightarrow>
   active_protection t (extend_protection perm expires row)"
  by (auto simp: extend_protection_def active_protection_def split: option.splits if_splits)

lemma extend_widens:
  "permanent row \<or> expires_at row \<noteq> None \<Longrightarrow> active_protection t row \<Longrightarrow>
   active_protection t (extend_protection perm expires row)"
  by (auto simp: extend_protection_def active_protection_def split: option.splits if_splits)


lemma upsert_cases:
  assumes "upsert_protection now request rows = ((row, created), rows')"
  obtains (Extended) us x vs where "rows = us @ x # vs" "covers_request now request x" "\<not> created"
      "row = extend_protection (permanent request) (expires_at request) x" "rows' = us @ row # vs"
  | (Created) "\<not> list_ex (covers_request now request) rows" "created"
      "row = request\<lparr>source := ''manual''\<rparr>" "rows' = rows @ [row]"
proof (cases "update_first (covers_request now request) (extend_protection (permanent request) (expires_at request)) rows")
  case None
  with assms have "created" "row = request\<lparr>source := ''manual''\<rparr>" "rows' = rows @ [row]"
    by (auto simp: upsert_protection_def Let_def)
  then show ?thesis using Created None unfolding update_first_None by blast
next
  case (Some p)
  then obtain ys where u: "update_first (covers_request now request)
      (extend_protection (permanent request) (expires_at request)) rows = Some (row, ys)" "rows' = ys" "\<not> created"
    using assms by (cases p) (auto simp: upsert_protection_def)
  show ?thesis using update_first_Some[OF u(1)] u Extended by blast
qed

definition row_covers :: "protected_media \<Rightarrow> protected_media \<Rightarrow> bool" where
  "row_covers row target \<longleftrightarrow>
     protected_type row = protected_type target \<and>
     (if protected_type target = MOVIE
      then protected_movie row = protected_movie target \<and> movie_scope_overlap (movie_version_id target) row
      else protected_series row = protected_series target \<and>
           series_scope_overlap (season_id target) (episode_id target) row)"

lemma row_covers_extend [simp]: "row_covers (extend_protection p e row) target = row_covers row target"
  by (simp add: row_covers_def movie_scope_overlap_def series_scope_overlap_def)

lemma row_covers_self: "row_covers (row\<lparr>source := s\<rparr>) row"
  by (simp add: row_covers_def movie_scope_overlap_def series_scope_overlap_def)

lemma upsert_facts:
  assumes "upsert_protection now request rows = ((row, created), rows')"
    and "permanent request \<or> (\<exists>e. expires_at request = Some e \<and> t < e)"
  shows "row \<in> set rows' \<and> row_covers row request \<and> active_protection t row"
  using assms(1)
proof (cases rule: upsert_cases)
  case (Extended us x vs)
  then have "row_covers x request" by (auto simp: covers_request_def row_covers_def)
  with Extended extend_active_request[OF assms(2)] show ?thesis by simp
next
  case Created
  with assms(2) row_covers_self show ?thesis by (auto simp: active_protection_def)
qed

section \<open>Properties\<close>

text \<open>A season of series 5, protected for good on top of a protection that ends at instant 20.\<close>

definition demo_row :: "int option \<Rightarrow> bool \<Rightarrow> int option \<Rightarrow> protected_media" where
  "demo_row season perm expires =
     \<lparr>movie_version_id = None, season_id = season, episode_id = None, protected_type = SERIES,
      protected_movie = None, protected_series = Some 5, source = ''manual'', permanent = perm,
      expires_at = expires, protection_reason = None, protected_by_user_id = Some 1, source_rule_id = None\<rparr>"

lemma demo_upsert:
  "upsert_protection 10 (demo_row (Some 2) False (Some 30)) [demo_row None False (Some 20)] =
     ((demo_row None False (Some 30), False), [demo_row None False (Some 30)])"
  by code_simp

text \<open>Approving a protection protects.  After an upsert the returned row is in the table, covers
  the requested target, and is in force for as long as the request asked, whether a new row was
  written or an existing one extended.\<close>

theorem upsert_protects_target:
  assumes "upsert_protection now request rows = ((row, created), rows')"
    and "permanent request \<or> (\<exists>e. expires_at request = Some e \<and> t < e)"
  shows "row \<in> set rows' \<and> row_covers row request \<and> active_protection t row"
  by (rule upsert_facts[OF assms])

lemma upsert_protects_target_witness:
  "row_covers (demo_row None False (Some 30)) (demo_row (Some 2) False (Some 30)) \<and>
   active_protection 29 (demo_row None False (Some 30))"
  using upsert_protects_target[OF demo_upsert, of 29] by (simp add: demo_row_def)

text \<open>C30: an upsert never removes or shortens protection.  On a table where every row is permanent or
  has an end, every row keeps its target and stays in force whenever it was; at most one row is
  added, and only when no active row made other than by a rule covered the target.\<close>

theorem upsert_only_widens:
  assumes "upsert_protection now request rows = ((row, created), rows')"
    and "list_all (\<lambda>r. permanent r \<or> expires_at r \<noteq> None) rows"
  shows "length rows' = length rows + (if created then 1 else 0) \<and>
         created = (\<not> list_ex (covers_request now request) rows) \<and>
         list_all2 (\<lambda>r r'. (\<forall>t. active_protection t r \<longrightarrow> active_protection t r') \<and>
                           (\<forall>target. row_covers r' target = row_covers r target) \<and> source r' = source r)
           rows (take (length rows) rows')"
  using assms(1)
proof (cases rule: upsert_cases)
  case (Extended us x vs)
  have "permanent x \<or> expires_at x \<noteq> None" using assms(2) Extended(1) by simp
  then have "\<forall>t. active_protection t x \<longrightarrow> active_protection t row"
    using extend_widens Extended(4) by blast
  moreover have "list_ex (covers_request now request) rows" using Extended by simp
  ultimately show ?thesis using Extended by (auto intro!: list_all2_appendI list_all2_refl)
next
  case Created
  then show ?thesis by (auto intro!: list_all2_refl)
qed

lemma upsert_only_widens_witness:
  "list_all2 (\<lambda>r r'. (\<forall>t. active_protection t r \<longrightarrow> active_protection t r') \<and>
                     (\<forall>target. row_covers r' target = row_covers r target) \<and> source r' = source r)
     [demo_row None False (Some 20)] (take 1 [demo_row None False (Some 30)])"
  using upsert_only_widens[OF demo_upsert] by (simp add: demo_row_def)

text \<open>The promise that an expiry only moves later needs that hypothesis: a row that is not
  permanent and has no end counts as active forever, and extending it gives it an end.\<close>

theorem upsert_can_shorten_endless_row:
  "\<exists>request row rows' t.
     upsert_protection 10 request [row] = ((hd rows', False), rows') \<and>
     active_protection t row \<and> \<not> active_protection t (hd rows')"
proof -
  have "upsert_protection 10 (demo_row None False (Some 30)) [demo_row None False None] =
     ((hd [demo_row None False (Some 30)], False), [demo_row None False (Some 30)])"
    by code_simp
  moreover have "active_protection 30 (demo_row None False None)" "\<not> active_protection 30 (hd [demo_row None False (Some 30)])"
    by (simp_all add: demo_row_def active_protection_def)
  ultimately show ?thesis by blast
qed

end
