(* ===== verification/Candidate_Lifecycle.thy ===== *)
theory Candidate_Lifecycle
  imports Protection_Scope
begin

text \<open>
  What stands in the way of deleting a candidate, the lifecycle events recorded for it and
  their fan-out to webhook endpoints, the announcement of scheduled deletions
  (\<open>backend/services/candidate_lifecycle.py\<close>, \<open>add_lifecycle_event\<close> in
  \<open>backend/services/lifecycle_webhooks.py\<close>), and the clean-up of rows that point at
  deleted movie versions (\<open>detach_movie_version_references\<close>).  The tables are a record of
  row lists.  The JSON payload of an event is left out; its type, subject, actor and key
  are kept.
\<close>

section \<open>Rows\<close>

datatype request_status = PENDING | APPROVED | DENIED

record media_request = scope +
  request_type :: media_type
  request_movie :: "int option"
  request_series :: "int option"
  status :: request_status

record candidate = scope +
  candidate_id :: int
  candidate_type :: media_type
  candidate_movie :: "int option"
  candidate_series :: "int option"
  matched_rule_ids :: "int list"
  created_at :: pydatetime
  timer_started_at :: "pydatetime option"
  postponed_until :: "pydatetime option"
  cancelled_at :: "pydatetime option"
  announced_at :: "int option"
  delete_request_id :: "int option"
  lifecycle_reason :: "string option"
  lifecycle_updated_at :: "int option"
  candidate_criteria :: "pyval dict"
  candidate_reason :: string
  candidate_reason_data :: "pyval dict list"
  candidate_size :: "int option"
  updated_at :: int

record rule_row =
  rule_id :: int
  rule_action :: "pyval dict option"
  rule_enabled :: bool

record endpoint =
  endpoint_id :: int
  endpoint_enabled :: bool
  endpoint_deleted :: bool
  event_types :: "string list"
  endpoint_media_types :: "string list"

record lifecycle_event =
  event_id :: int
  event_type :: string
  event_candidate :: "int option"
  actor_api_token_id :: "int option"
  actor_user_id :: "int option"
  idempotency_key :: "string option"

record delivery_row =
  for_event :: int
  to_endpoint :: int
  first_attempt_at :: int

record tables =
  protected_rows :: "protected_media list"
  protection_requests :: "media_request list"
  delete_requests :: "media_request list"
  candidates :: "candidate list"
  rules :: "rule_row list"
  delay_settings :: "(int \<times> int) option"
  endpoints :: "endpoint list"
  events :: "lifecycle_event list"
  deliveries :: "delivery_row list"
  next_event_id :: int

section \<open>Scope of a candidate\<close>

definition candidate_scope :: "candidate \<Rightarrow> string" where
  "candidate_scope c =
     (if candidate_type c = MOVIE then (if movie_version_id c \<noteq> None then ''version'' else ''movie'')
      else if episode_id c \<noteq> None then ''episode''
      else if season_id c \<noteq> None then ''season''
      else ''series'')"

section \<open>Deletion blockers\<close>

definition blocks_movie :: "candidate \<Rightarrow> int option \<Rightarrow> ('a scope_scheme) \<Rightarrow> bool" where
  "blocks_movie c movie row \<longleftrightarrow>
     movie = candidate_movie c \<and> (movie_version_id row = None \<or> movie_version_id row = movie_version_id c)"

definition blocks_series :: "candidate \<Rightarrow> int option \<Rightarrow> ('a scope_scheme) \<Rightarrow> bool" where
  "blocks_series c series row \<longleftrightarrow>
     series = candidate_series c \<and>
     (if episode_id c \<noteq> None then
        season_id row = None \<and> episode_id row = None \<or>
        season_id row = season_id c \<and> episode_id row = None \<or>
        episode_id row = episode_id c
      else if season_id c \<noteq> None then
        season_id row = None \<and> episode_id row = None \<or> season_id row = season_id c
      else True)"

definition blocks :: "candidate \<Rightarrow> int option \<Rightarrow> int option \<Rightarrow> ('a scope_scheme) \<Rightarrow> bool" where
  "blocks c movie series row =
     (if candidate_type c = MOVIE then blocks_movie c movie row else blocks_series c series row)"

definition protection_blocks :: "int \<Rightarrow> candidate \<Rightarrow> protected_media \<Rightarrow> bool" where
  "protection_blocks now c row \<longleftrightarrow>
     active_protection now row \<and> blocks c (protected_movie row) (protected_series row) row"

definition request_blocks :: "candidate \<Rightarrow> media_request \<Rightarrow> bool" where
  "request_blocks c row \<longleftrightarrow> status row = PENDING \<and> blocks c (request_movie row) (request_series row) row"

definition candidate_deletion_blockers :: "int \<Rightarrow> tables \<Rightarrow> candidate \<Rightarrow> string list" where
  "candidate_deletion_blockers now db c =
     (if list_ex (protection_blocks now c) (protected_rows db) then [''protected''] else []) @
     (if list_ex (request_blocks c) (protection_requests db) then [''pending_protection_request''] else []) @
     (if list_ex (request_blocks c) (delete_requests db) then [''pending_delete_request''] else [])"

section \<open>Events and their deliveries\<close>

definition media_type_value :: "media_type \<Rightarrow> string" where
  "media_type_value m = (case m of MOVIE \<Rightarrow> ''movie'' | SERIES \<Rightarrow> ''series'')"

definition wants_event :: "string \<Rightarrow> string \<Rightarrow> endpoint \<Rightarrow> bool" where
  "wants_event type media e \<longleftrightarrow>
     endpoint_enabled e \<and> \<not> endpoint_deleted e \<and> List.member (event_types e) type \<and>
     \<not> (media \<noteq> [] \<and> endpoint_media_types e \<noteq> [] \<and> \<not> List.member (endpoint_media_types e) media)"

definition insert_event ::
  "string \<Rightarrow> string \<Rightarrow> int \<Rightarrow> int option \<Rightarrow> int option \<Rightarrow> int option \<Rightarrow> string option \<Rightarrow> tables \<Rightarrow>
   lifecycle_event \<times> tables" where
  "insert_event type media now cand token user key db =
     (let event = \<lparr>event_id = next_event_id db, event_type = type, event_candidate = cand,
                    actor_api_token_id = token, actor_user_id = user, idempotency_key = key\<rparr>;
          new = map (\<lambda>e. \<lparr>for_event = next_event_id db, to_endpoint = endpoint_id e, first_attempt_at = now\<rparr>)
                  (filter (wants_event type media) (endpoints db))
      in (event, db\<lparr>events := events db @ [event], deliveries := deliveries db @ new,
                    next_event_id := next_event_id db + 1\<rparr>))"

definition add_lifecycle_event ::
  "string \<Rightarrow> string option \<Rightarrow> int \<Rightarrow> int option \<Rightarrow> int option \<Rightarrow> int option \<Rightarrow> tables \<Rightarrow> lifecycle_event \<times> tables" where
  "add_lifecycle_event type media now cand token user db =
     insert_event type (case media of None \<Rightarrow> [] | Some m \<Rightarrow> m) now cand token user None db"

definition event_with_key :: "int option \<Rightarrow> string option \<Rightarrow> tables \<Rightarrow> lifecycle_event option" where
  "event_with_key token key db =
     (case (token, key) of
        (Some _, Some k) \<Rightarrow>
          if k = [] then None
          else find (\<lambda>e. actor_api_token_id e = token \<and> idempotency_key e = key) (events db)
      | _ \<Rightarrow> None)"

definition record_candidate_event ::
  "int \<Rightarrow> candidate \<Rightarrow> string \<Rightarrow> int option \<Rightarrow> int option \<Rightarrow> string option \<Rightarrow> tables \<Rightarrow>
   lifecycle_event \<times> tables" where
  "record_candidate_event now c type token user key db =
     (case event_with_key token key db of
        Some e \<Rightarrow> (e, db)
      | None \<Rightarrow> insert_event type (media_type_value (candidate_type c)) now (Some (candidate_id c)) token user key db)"

section \<open>Announcing scheduled deletions\<close>

definition configured_delays :: "tables \<Rightarrow> int \<times> int" where
  "configured_delays db = (case delay_settings db of Some d \<Rightarrow> d | None \<Rightarrow> (14, 7))"

definition actions_by_id :: "rule_row list \<Rightarrow> rule_actions" where
  "actions_by_id rs = map_of (map (\<lambda>r. (rule_id r, rule_action r)) rs)"

definition candidate_policy :: "int \<Rightarrow> tables \<Rightarrow> candidate \<Rightarrow> auto_delete_policy result" where
  "candidate_policy now db c =
     resolve_auto_delete_policy (candidate_type c) (matched_rule_ids c) (created_at c) (timer_started_at c)
       (postponed_until c) (cancelled_at c) (actions_by_id (rules db))
       (fst (configured_delays db)) (snd (configured_delays db)) (PDT now None)"

text \<open>One candidate: its updated row, the identifiers of the events it caused, the tables.\<close>

definition reconcile_candidate :: "int \<Rightarrow> candidate \<Rightarrow> tables \<Rightarrow> (candidate \<times> int list \<times> tables) result" where
  "reconcile_candidate now c db =
     rbind (candidate_policy now db c) (\<lambda>p.
       Ok (if is_enabled p \<and> announced_at c = None then
             (let (e, db') = record_candidate_event now (c\<lparr>announced_at := Some now\<rparr>) ''candidate.scheduled'' None None None db
              in (c\<lparr>announced_at := Some now\<rparr>, [event_id e], db'))
           else if \<not> is_configured p then (c\<lparr>announced_at := None\<rparr>, [], db)
           else (c, [], db)))"

fun reconcile_all :: "int \<Rightarrow> candidate list \<Rightarrow> tables \<Rightarrow> (candidate list \<times> int list \<times> tables) result" where
  "reconcile_all now [] db = Ok ([], [], db)"
| "reconcile_all now (c # cs) db =
     rbind (reconcile_candidate now c db) (\<lambda>(c', ids, db').
     rbind (reconcile_all now cs db') (\<lambda>(cs', ids', db'').
       Ok (c' # cs', ids @ ids', db'')))"

definition reconcile_candidate_schedule_events :: "int \<Rightarrow> tables \<Rightarrow> (int list \<times> tables) result" where
  "reconcile_candidate_schedule_events now db =
     rbind (reconcile_all now (candidates db) db) (\<lambda>(cs, ids, db'). Ok (ids, db'\<lparr>candidates := cs\<rparr>))"

section \<open>Deleted movie versions\<close>

definition refers_to :: "int list \<Rightarrow> ('a scope_scheme) \<Rightarrow> bool" where
  "refers_to ids row = (case movie_version_id row of None \<Rightarrow> False | Some v \<Rightarrow> List.member ids v)"

definition detach_requests :: "int list \<Rightarrow> media_request list \<Rightarrow> media_request list" where
  "detach_requests ids rows =
     map (\<lambda>r. if refers_to ids r \<and> status r \<noteq> PENDING then r\<lparr>movie_version_id := None\<rparr> else r)
       (filter (\<lambda>r. \<not> (refers_to ids r \<and> status r = PENDING)) rows)"

definition detach_movie_version_references :: "int list \<Rightarrow> tables \<Rightarrow> tables" where
  "detach_movie_version_references ids db =
     (if ids = [] then db
      else db\<lparr>candidates := filter (\<lambda>c. \<not> refers_to ids c) (candidates db),
              protected_rows := filter (\<lambda>r. \<not> refers_to ids r) (protected_rows db),
              protection_requests := detach_requests ids (protection_requests db),
              delete_requests := detach_requests ids (delete_requests db)\<rparr>)"

section \<open>Blockers guard the files\<close>

text \<open>
  The files of the library, and which of them a row or a candidate speaks for.  The season
  of an episode is a function of the episode.
\<close>

datatype library_file = Version_File int int | Episode_File int int int

fun file_in_scope :: "int option \<Rightarrow> int option \<Rightarrow> ('a scope_scheme) \<Rightarrow> library_file \<Rightarrow> bool" where
  "file_in_scope movie series row (Version_File m v) =
     (movie = Some m \<and> (movie_version_id row = None \<or> movie_version_id row = Some v))"
| "file_in_scope movie series row (Episode_File s n e) =
     (series = Some s \<and> (season_id row = None \<or> season_id row = Some n) \<and>
      (episode_id row = None \<or> episode_id row = Some e))"

fun kind_matches :: "media_type \<Rightarrow> library_file \<Rightarrow> bool" where
  "kind_matches m (Version_File _ _) = (m = MOVIE)"
| "kind_matches m (Episode_File _ _ _) = (m = SERIES)"

definition candidate_file :: "candidate \<Rightarrow> library_file \<Rightarrow> bool" where
  "candidate_file c f \<longleftrightarrow> kind_matches (candidate_type c) f \<and> file_in_scope (candidate_movie c) (candidate_series c) c f"

fun file_ok :: "(int \<Rightarrow> int) \<Rightarrow> library_file \<Rightarrow> bool" where
  "file_ok season_of (Version_File _ _) = True"
| "file_ok season_of (Episode_File _ n e) = (n = season_of e)"

lemma shared_file_blocks:
  assumes "candidate_file c f" "file_in_scope movie series row f" "file_ok season_of f"
    and "series_scope_ok season_of row" "series_scope_ok season_of c"
    and "candidate_type c = MOVIE \<Longrightarrow> movie_version_id c \<noteq> None"
  shows "blocks c movie series row"
proof (cases f)
  case (Version_File m v)
  with assms show ?thesis
    by (auto simp: candidate_file_def blocks_def blocks_movie_def)
next
  case (Episode_File s n e)
  have "candidate_type c \<noteq> MOVIE" "series = candidate_series c"
    and row: "season_id row = None \<or> season_id row = Some n" "episode_id row = None \<or> episode_id row = Some e"
    and cand: "season_id c = None \<or> season_id c = Some n" "episode_id c = None \<or> episode_id c = Some e"
    and ok: "n = season_of e"
    using assms(1,2,3) Episode_File by (auto simp: candidate_file_def)
  moreover have "episode_id row = Some e \<Longrightarrow> season_id row = Some n" "episode_id c = Some e \<Longrightarrow> season_id c = Some n"
    using assms(4,5) ok by (auto simp: series_scope_ok_def)
  ultimately show ?thesis by (auto simp: blocks_def blocks_series_def)
qed

section \<open>Lemmas on events\<close>

lemma insert_event_tables:
  "insert_event type media now cand token user key db = (e, db') \<Longrightarrow>
   events db' = events db @ [e] \<and> event_id e = next_event_id db \<and> next_event_id db' = next_event_id db + 1 \<and>
   candidates db' = candidates db \<and> rules db' = rules db \<and> delay_settings db' = delay_settings db \<and>
   event_type e = type \<and> actor_api_token_id e = token \<and> idempotency_key e = key"
  by (auto simp: insert_event_def Let_def)

lemma record_event_frame:
  "record_candidate_event now c type token user key db = (e, db') \<Longrightarrow>
   candidates db' = candidates db \<and> rules db' = rules db \<and> delay_settings db' = delay_settings db"
  by (auto simp: record_candidate_event_def dest: insert_event_tables split: option.splits)

lemma candidate_policy_cong:
  "rules db' = rules db \<Longrightarrow> delay_settings db' = delay_settings db \<Longrightarrow>
   candidate_policy now db' c = candidate_policy now db c"
  by (simp add: candidate_policy_def configured_delays_def)

lemma candidate_policy_announced: "candidate_policy now db (c\<lparr>announced_at := a\<rparr>) = candidate_policy now db c"
  by (simp add: candidate_policy_def)

text \<open>Whether a candidate is configured and enabled does not depend on the time.\<close>

lemma candidate_policy_later:
  assumes "candidate_policy now db c = Ok p"
  shows "\<exists>p'. candidate_policy later db c = Ok p' \<and> is_enabled p' = is_enabled p \<and> is_configured p' = is_configured p"
  using assms by (auto simp: candidate_policy_def resolve_auto_delete_policy_def Let_def rbind_Ok_iff)

text \<open>A candidate settled by a run has nothing left to announce.\<close>

definition settled :: "int \<Rightarrow> tables \<Rightarrow> candidate \<Rightarrow> bool" where
  "settled now db c \<longleftrightarrow>
     (\<exists>p. candidate_policy now db c = Ok p \<and> (is_enabled p \<longrightarrow> announced_at c \<noteq> None) \<and>
          (\<not> is_configured p \<longrightarrow> announced_at c = None))"

lemma reconcile_candidate_settles:
  assumes "reconcile_candidate now c db = Ok (c', ids, db')"
  shows "rules db' = rules db \<and> delay_settings db' = delay_settings db \<and> candidates db' = candidates db \<and>
         settled now db c' \<and> c'\<lparr>announced_at := None\<rparr> = c\<lparr>announced_at := None\<rparr>"
proof -
  obtain p where p: "candidate_policy now db c = Ok p" using assms by (auto simp: reconcile_candidate_def rbind_Ok_iff)
  have conf: "is_enabled p \<Longrightarrow> is_configured p"
    using p policy_Ok(4) unfolding candidate_policy_def by blast
  show ?thesis
  proof (cases "is_enabled p \<and> announced_at c = None")
    case True
    with assms p obtain e where "record_candidate_event now (c\<lparr>announced_at := Some now\<rparr>) ''candidate.scheduled'' None None None db = (e, db')"
      and c': "c' = c\<lparr>announced_at := Some now\<rparr>"
      by (auto simp: reconcile_candidate_def split: prod.splits)
    with record_event_frame p conf True show ?thesis
      by (auto simp: settled_def candidate_policy_announced)
  next
    case False
    with assms p conf show ?thesis
      by (auto simp: reconcile_candidate_def settled_def candidate_policy_announced split: if_splits)
  qed
qed

lemma unannounced [simp]: "announced_at c = None \<Longrightarrow> c\<lparr>announced_at := None\<rparr> = c"
  by (cases c) simp

lemma settled_quiet:
  assumes "settled now db c"
  shows "reconcile_candidate now c db = Ok (c, [], db)"
proof -
  obtain p where p: "candidate_policy now db c = Ok p" "is_enabled p \<longrightarrow> announced_at c \<noteq> None"
      "\<not> is_configured p \<longrightarrow> announced_at c = None"
    using assms unfolding settled_def by blast
  have no: "\<not> (is_enabled p \<and> announced_at c = None)" using p(2) by blast
  show ?thesis
    unfolding reconcile_candidate_def p(1) rbind.simps if_not_P[OF no]
    using p(3) by (cases "is_configured p") simp_all
qed

lemma settled_later: "settled now db c \<Longrightarrow> settled later db c"
  unfolding settled_def using candidate_policy_later by metis

lemma settled_cong:
  "rules db' = rules db \<Longrightarrow> delay_settings db' = delay_settings db \<Longrightarrow> settled now db' c = settled now db c"
  using candidate_policy_cong[of db' db now c] by (simp add: settled_def)

lemma reconcile_all_settles:
  "reconcile_all now cs db = Ok (cs', ids, db') \<Longrightarrow>
   rules db' = rules db \<and> delay_settings db' = delay_settings db \<and> candidates db' = candidates db \<and>
   list_all (settled now db) cs'"
proof (induction cs arbitrary: db cs' ids)
  case (Cons c cs)
  from Cons.prems obtain c1 ids1 db1 cs2 ids2 where
    one: "reconcile_candidate now c db = Ok (c1, ids1, db1)" and
    rest: "reconcile_all now cs db1 = Ok (cs2, ids2, db')" and "cs' = c1 # cs2"
    by (auto simp: rbind_Ok_iff)
  from reconcile_candidate_settles[OF one] Cons.IH[OF rest] \<open>cs' = _\<close>
  show ?case using settled_cong[of db1 db] by (auto simp: list_all_iff)
qed simp

lemma settled_all_quiet: "list_all (settled now db) cs \<Longrightarrow> reconcile_all now cs db = Ok (cs, [], db)"
  by (induction cs) (simp_all add: settled_quiet)

lemma find_snoc: "find P xs = None \<Longrightarrow> P x \<Longrightarrow> find P (xs @ [x]) = Some x"
  by (induction xs) (auto split: if_splits)

section \<open>Properties\<close>

definition demo_candidate :: candidate where
  "demo_candidate =
     \<lparr>movie_version_id = None, season_id = Some 2, episode_id = None, candidate_id = 1, candidate_type = SERIES,
      candidate_movie = None, candidate_series = Some 5, matched_rule_ids = [1],
      created_at = PDT (730000 * day_us) None, timer_started_at = None, postponed_until = None,
      cancelled_at = None, announced_at = None, delete_request_id = None,
      lifecycle_reason = None, lifecycle_updated_at = None, candidate_criteria = [],
      candidate_reason = ''Matched cleanup rule'', candidate_reason_data = [], candidate_size = None, updated_at = 0\<rparr>"

definition demo_endpoint :: endpoint where
  "demo_endpoint = \<lparr>endpoint_id = 9, endpoint_enabled = True, endpoint_deleted = False,
     event_types = [''candidate.scheduled''], endpoint_media_types = []\<rparr>"

definition demo_tables :: tables where
  "demo_tables =
     \<lparr>protected_rows = [demo_row (Some 2) True None], protection_requests = [], delete_requests = [],
      candidates = [demo_candidate],
      rules = [\<lparr>rule_id = 1, rule_action = Some [(''auto_delete_enabled'', PBool True)], rule_enabled = True\<rparr>],
      delay_settings = None, endpoints = [demo_endpoint], events = [], deliveries = [], next_event_id = 1\<rparr>"

text \<open>No protected file is deleted with a candidate.  If a file of the library lies both in the
  scope of an active protection and in the scope of a candidate, the candidate's deletion is
  reported as blocked.  It needs rows that name the season of their episode, and a movie
  candidate that names its version.\<close>

theorem protected_file_blocks_candidate:
  assumes "row \<in> set (protected_rows db)" "active_protection now row"
    and "file_in_scope (protected_movie row) (protected_series row) row f" "candidate_file c f"
    and "file_ok season_of f" "series_scope_ok season_of row" "series_scope_ok season_of c"
    and "candidate_type c = MOVIE \<Longrightarrow> movie_version_id c \<noteq> None"
  shows "''protected'' \<in> set (candidate_deletion_blockers now db c)"
proof -
  have "protection_blocks now c row"
    using shared_file_blocks[OF assms(4,3,5,6,7,8)] assms(2) by (simp add: protection_blocks_def)
  with assms(1) show ?thesis by (auto simp: candidate_deletion_blockers_def list_ex_iff)
qed

lemma protected_file_blocks_candidate_witness:
  "''protected'' \<in> set (candidate_deletion_blockers 0 demo_tables demo_candidate)"
  by (rule protected_file_blocks_candidate[where row = "demo_row (Some 2) True None" and f = "Episode_File 5 2 7"
        and season_of = "\<lambda>_. 2"])
    (simp_all add: demo_tables_def demo_row_def demo_candidate_def active_protection_def candidate_file_def series_scope_ok_def)

text \<open>The version is needed.  A candidate for a whole movie is not blocked by the active
  protection of one of the movie's versions, although that file is among those it speaks for.\<close>

theorem whole_movie_candidate_misses_version_protection:
  "\<exists>db c row f. row \<in> set (protected_rows db) \<and> active_protection 0 row \<and>
     file_in_scope (protected_movie row) (protected_series row) row f \<and> candidate_file c f \<and>
     candidate_deletion_blockers 0 db c = []"
proof -
  let ?row = "(demo_row None True None)\<lparr>protected_type := MOVIE, protected_series := None, protected_movie := Some 3, movie_version_id := Some 4\<rparr>"
  let ?c = "demo_candidate\<lparr>season_id := None, candidate_type := MOVIE, candidate_series := None, candidate_movie := Some 3\<rparr>"
  let ?db = "demo_tables\<lparr>protected_rows := [?row]\<rparr>"
  have "?row \<in> set (protected_rows ?db)" "active_protection 0 ?row"
    "file_in_scope (protected_movie ?row) (protected_series ?row) ?row (Version_File 3 4)"
    "candidate_file ?c (Version_File 3 4)"
    by (simp_all add: demo_row_def demo_candidate_def active_protection_def candidate_file_def)
  moreover have "candidate_deletion_blockers 0 ?db ?c = []"
    by (simp add: candidate_deletion_blockers_def demo_tables_def demo_row_def demo_candidate_def
        protection_blocks_def blocks_def blocks_movie_def)
  ultimately show ?thesis by blast
qed

text \<open>C33: a scheduled deletion is announced once.  Reconciling again at any time, on the
  tables a run left behind, records no event and changes nothing.\<close>

theorem reconcile_idempotent:
  assumes "reconcile_candidate_schedule_events now db = Ok (ids, db')"
  shows "reconcile_candidate_schedule_events later db' = Ok ([], db')"
proof -
  obtain cs d where r: "reconcile_all now (candidates db) db = Ok (cs, ids, d)" and db': "db' = d\<lparr>candidates := cs\<rparr>"
    using assms by (auto simp: reconcile_candidate_schedule_events_def rbind_Ok_iff)
  have "list_all (settled now db') cs"
    using reconcile_all_settles[OF r] settled_cong[of db' db now] by (simp add: db' list_all_iff)
  then have "list_all (settled later db') cs" using settled_later unfolding list_all_iff by blast
  from settled_all_quiet[OF this] show ?thesis
    by (simp add: reconcile_candidate_schedule_events_def db')
qed

lemma demo_reconcile:
  "\<exists>db'. reconcile_candidate_schedule_events (730001 * day_us) demo_tables = Ok ([1], db')"
proof -
  have "map_option fst (case reconcile_candidate_schedule_events (730001 * day_us) demo_tables of Ok r \<Rightarrow> Some r | Raise _ \<Rightarrow> None) = Some [1]"
    by code_simp
  then show ?thesis by (cases "reconcile_candidate_schedule_events (730001 * day_us) demo_tables") auto
qed

lemma reconcile_idempotent_witness:
  "\<exists>db'. reconcile_candidate_schedule_events (730001 * day_us) demo_tables = Ok ([1], db') \<and>
     reconcile_candidate_schedule_events (730020 * day_us) db' = Ok ([], db')"
  using demo_reconcile reconcile_idempotent by blast

text \<open>An event reaches every subscriber once.  Recording an event whose key was not used before
  adds that one event, and exactly one delivery for each active endpoint subscribed to its type
  and media, and no other delivery.\<close>

theorem event_reaches_subscribers_once:
  assumes "record_candidate_event now c type token user key db = (e, db')"
    and "event_with_key token key db = None"
  shows "events db' = events db @ [e] \<and> event_candidate e = Some (candidate_id c) \<and>
         deliveries db' = deliveries db @
           map (\<lambda>p. \<lparr>for_event = event_id e, to_endpoint = endpoint_id p, first_attempt_at = now\<rparr>)
             [p \<leftarrow> endpoints db. endpoint_enabled p \<and> \<not> endpoint_deleted p \<and> type \<in> set (event_types p) \<and>
               (endpoint_media_types p = [] \<or> media_type_value (candidate_type c) \<in> set (endpoint_media_types p))]"
proof -
  have "wants_event type (media_type_value m) = (\<lambda>p. endpoint_enabled p \<and> \<not> endpoint_deleted p \<and> type \<in> set (event_types p) \<and>
      (endpoint_media_types p = [] \<or> media_type_value m \<in> set (endpoint_media_types p)))" for m
    by (rule ext) (auto simp: wants_event_def media_type_value_def split: media_type.splits)
  with assms show ?thesis by (auto simp: record_candidate_event_def insert_event_def Let_def)
qed

lemma event_reaches_subscribers_once_witness:
  "\<exists>(e :: lifecycle_event) (db' :: tables). events db' = [e] \<and> deliveries db' = [\<lparr>for_event = event_id e, to_endpoint = 9, first_attempt_at = 0\<rparr>]"
proof -
  obtain e db' where r: "record_candidate_event 0 demo_candidate ''candidate.scheduled'' None None None demo_tables = (e, db')"
    by (rule surj_pair[THEN exE]) (erule exE)
  from event_reaches_subscribers_once[OF r] have "events db' = [e]"
      "deliveries db' = [\<lparr>for_event = event_id e, to_endpoint = 9, first_attempt_at = 0\<rparr>]"
    by (simp_all add: event_with_key_def demo_tables_def demo_endpoint_def)
  then show ?thesis by blast
qed

text \<open>A retried request is not recorded twice.  Once a request with an idempotency key has been
  recorded for a token, recording again with the same token and key returns that event and
  leaves the tables as they are, whatever candidate or event type the retry names.\<close>

theorem event_key_is_idempotent:
  assumes "record_candidate_event now c type (Some token) user (Some key) db = (e, db')" "key \<noteq> []"
  shows "record_candidate_event now' c' type' (Some token) user' (Some key) db' = (e, db')"
proof (cases "event_with_key (Some token) (Some key) db")
  case (Some e1)
  with assms show ?thesis by (simp add: record_candidate_event_def)
next
  case None
  with assms have i: "insert_event type (media_type_value (candidate_type c)) now (Some (candidate_id c)) (Some token) user (Some key) db = (e, db')"
    by (simp add: record_candidate_event_def)
  note t = insert_event_tables[OF i]
  have "find (\<lambda>e. actor_api_token_id e = Some token \<and> idempotency_key e = Some key) (events db) = None"
    using None assms(2) by (simp add: event_with_key_def)
  then have "find (\<lambda>e. actor_api_token_id e = Some token \<and> idempotency_key e = Some key) (events db @ [e]) = Some e"
    using t by (intro find_snoc) simp_all
  then show ?thesis using t assms(2) by (simp add: record_candidate_event_def event_with_key_def)
qed

lemma event_key_is_idempotent_witness:
  "\<exists>(e :: lifecycle_event) db'. event_id e = 1 \<and> events db' = [e] \<and>
     record_candidate_event 5 demo_candidate ''other'' (Some 3) None (Some ''k'') db' = (e, db')"
proof -
  obtain e db' where r: "record_candidate_event 0 demo_candidate ''candidate.scheduled'' (Some 3) None (Some ''k'') demo_tables = (e, db')"
    by (rule surj_pair[THEN exE]) (erule exE)
  then have "event_id e = 1" "events db' = [e]"
    by (auto simp: record_candidate_event_def insert_event_def event_with_key_def demo_tables_def Let_def)
  with event_key_is_idempotent[OF r] show ?thesis by blast
qed

text \<open>Deleting movie versions leaves nothing dangling and no history lost.  Afterwards no
  candidate, protection or request names a deleted version; every decided request is still there,
  and rows of other versions, and whole-movie rows, are untouched.\<close>

theorem detach_leaves_no_dangling_rows:
  fixes ids :: "int list" and db :: tables
  assumes "ids \<noteq> []"
  defines "db' \<equiv> detach_movie_version_references ids db"
  shows "(\<forall>c \<in> set (candidates db'). \<not> refers_to ids c) \<and>
         (\<forall>r \<in> set (protected_rows db'). \<not> refers_to ids r) \<and>
         (\<forall>r \<in> set (protection_requests db') \<union> set (delete_requests db'). \<not> refers_to ids r) \<and>
         (\<forall>r \<in> set (protection_requests db). status r \<noteq> PENDING \<longrightarrow>
            (\<exists>r' \<in> set (protection_requests db'). r'\<lparr>movie_version_id := movie_version_id r\<rparr> = r)) \<and>
         (\<forall>r \<in> set (protected_rows db). \<not> refers_to ids r \<longrightarrow> r \<in> set (protected_rows db'))"
proof -
  have detached: "\<not> refers_to ids r" if "r \<in> set (detach_requests ids rows)" for r rows
    using that by (auto simp: detach_requests_def refers_to_def)
  have kept: "\<exists>r' \<in> set (detach_requests ids rows). r'\<lparr>movie_version_id := movie_version_id r\<rparr> = r"
    if "r \<in> set rows" "status r \<noteq> PENDING" for r rows
  proof
    let ?r = "if refers_to ids r \<and> status r \<noteq> PENDING then r\<lparr>movie_version_id := None\<rparr> else r"
    show "?r \<in> set (detach_requests ids rows)"
      unfolding detach_requests_def set_map by (rule imageI) (use that in simp)
    show "?r\<lparr>movie_version_id := movie_version_id r\<rparr> = r" by (cases r) simp
  qed
  show ?thesis
    using assms(1) detached kept by (auto simp: db'_def detach_movie_version_references_def)
qed

definition demo_version_tables :: tables where
  "demo_version_tables = demo_tables\<lparr>candidates :=
     [demo_candidate, demo_candidate\<lparr>candidate_type := MOVIE, season_id := None, movie_version_id := Some 4\<rparr>]\<rparr>"

lemma detach_leaves_no_dangling_rows_witness:
  "filter (refers_to [4]) (candidates demo_version_tables) \<noteq> [] \<and>
   filter (refers_to [4]) (candidates (detach_movie_version_references [4] demo_version_tables)) = []"
  using detach_leaves_no_dangling_rows[of "[4]" demo_version_tables]
  by (simp add: filter_empty_conv) (simp add: demo_version_tables_def refers_to_def)

end
