(* ===== verification/Auto_Delete_Run.thy ===== *)
theory Auto_Delete_Run
  imports Candidate_Lifecycle
begin

text \<open>
  One automatic deletion run up to the choice of the candidates
  (\<open>_load_auto_delete_context\<close>, \<open>_select_auto_delete_eligible_candidate_ids\<close>) and the
  brake on a scan that suddenly finds many (\<open>_is_candidate_spike\<close>,
  \<open>_postpone_candidate_spike\<close>), in \<open>backend/tasks/cleanup.py\<close>.
\<close>

section \<open>The tables read\<close>

text \<open>Versions with their movie, episodes with their season, seasons with their series.\<close>

record library =
  version_rows :: "(int \<times> int option) list"
  episode_rows :: "(int \<times> int option) list"
  season_rows :: "(int \<times> int option) list"
  resync_candidates :: "int list"

definition load_auto_delete_context :: "tables \<Rightarrow> int list \<Rightarrow> rule_actions \<times> int \<times> int" where
  "load_auto_delete_context db rule_ids =
     (actions_by_id (filter (\<lambda>r. List.member rule_ids (rule_id r) \<and> rule_enabled r) (rules db)),
      configured_delays db)"

section \<open>What is blocked\<close>

text \<open>The scoped rows that block: active protections, pending protection and delete requests.\<close>

definition blocking_scopes :: "int \<Rightarrow> media_type \<Rightarrow> tables \<Rightarrow> (int option \<times> int option \<times> scope) list" where
  "blocking_scopes now m db =
     map (\<lambda>r. (protected_movie r, protected_series r, scope.truncate r))
       (filter (\<lambda>r. protected_type r = m \<and> active_protection now r) (protected_rows db)) @
     map (\<lambda>r. (request_movie r, request_series r, scope.truncate r))
       (filter (\<lambda>r. request_type r = m \<and> status r = PENDING) (protection_requests db @ delete_requests db))"

definition parents :: "(int \<times> int option) list \<Rightarrow> int list \<Rightarrow> int list" where
  "parents rows ids = somes (map snd (filter (\<lambda>(i, p). List.member ids i) rows))"

definition blocked_version_ids :: "int \<Rightarrow> tables \<Rightarrow> int list" where
  "blocked_version_ids now db = somes (map (\<lambda>(m, s, r). movie_version_id r) (blocking_scopes now MOVIE db))"

definition blocked_movie_ids :: "int \<Rightarrow> tables \<Rightarrow> library \<Rightarrow> int list" where
  "blocked_movie_ids now db lib =
     somes (map fst (blocking_scopes now MOVIE db)) @ parents (version_rows lib) (blocked_version_ids now db)"

definition blocked_episode_ids :: "int \<Rightarrow> tables \<Rightarrow> int list" where
  "blocked_episode_ids now db = somes (map (\<lambda>(m, s, r). episode_id r) (blocking_scopes now SERIES db))"

definition blocked_season_ids :: "int \<Rightarrow> tables \<Rightarrow> library \<Rightarrow> int list" where
  "blocked_season_ids now db lib =
     somes (map (\<lambda>(m, s, r). season_id r) (blocking_scopes now SERIES db)) @
     parents (episode_rows lib) (blocked_episode_ids now db)"

definition blocked_series_ids :: "int \<Rightarrow> tables \<Rightarrow> library \<Rightarrow> int list" where
  "blocked_series_ids now db lib =
     somes (map (\<lambda>(m, s, r). s) (blocking_scopes now SERIES db)) @
     parents (season_rows lib) (blocked_season_ids now db lib)"

definition among :: "int option \<Rightarrow> int list \<Rightarrow> bool" where
  "among i ids = (case i of None \<Rightarrow> False | Some x \<Rightarrow> List.member ids x)"

definition candidate_blocked :: "int \<Rightarrow> tables \<Rightarrow> library \<Rightarrow> candidate \<Rightarrow> bool" where
  "candidate_blocked now db lib c =
     (if candidate_type c = MOVIE
      then among (candidate_movie c) (blocked_movie_ids now db lib) \<or>
           among (movie_version_id c) (blocked_version_ids now db)
      else among (candidate_series c) (blocked_series_ids now db lib) \<or>
           among (season_id c) (blocked_season_ids now db lib) \<or>
           among (episode_id c) (blocked_episode_ids now db))"

section \<open>The choice\<close>

definition considered :: "tables \<Rightarrow> library \<Rightarrow> candidate list" where
  "considered db lib =
     filter (\<lambda>c. delete_request_id c = None \<and> \<not> List.member (resync_candidates lib) (candidate_id c)) (candidates db)"

definition run_policy :: "int \<Rightarrow> rule_actions \<times> int \<times> int \<Rightarrow> candidate \<Rightarrow> auto_delete_policy result" where
  "run_policy now ctx c =
     resolve_auto_delete_policy (candidate_type c) (matched_rule_ids c) (created_at c) (timer_started_at c)
       (postponed_until c) (cancelled_at c) (fst ctx) (fst (snd ctx)) (snd (snd ctx)) (PDT now None)"

fun pick_candidates :: "int \<Rightarrow> tables \<Rightarrow> library \<Rightarrow> rule_actions \<times> int \<times> int \<Rightarrow> candidate list \<Rightarrow>
    int list \<times> nat \<times> nat \<Rightarrow> (int list \<times> nat \<times> nat) result" where
  "pick_candidates now db lib ctx [] acc = Ok acc"
| "pick_candidates now db lib ctx (c # cs) (ids, blocked, waiting) =
     (if candidate_blocked now db lib c then pick_candidates now db lib ctx cs (ids, blocked + 1, waiting)
      else rbind (run_policy now ctx c) (\<lambda>p.
        if \<not> is_enabled p then pick_candidates now db lib ctx cs (ids, blocked + 1, waiting)
        else if is_eligible p then pick_candidates now db lib ctx cs (ids @ [candidate_id c], blocked, waiting)
        else pick_candidates now db lib ctx cs (ids, blocked, waiting + 1)))"

definition select_auto_delete_eligible_candidate_ids ::
  "int \<Rightarrow> tables \<Rightarrow> library \<Rightarrow> (int list \<times> nat \<times> nat) result" where
  "select_auto_delete_eligible_candidate_ids now db lib =
     (let cs = considered db lib
      in if cs = [] then Ok ([], 0, 0)
         else pick_candidates now db lib (load_auto_delete_context db (concat (map matched_rule_ids cs))) cs ([], 0, 0))"

section \<open>The brake on a candidate spike\<close>

definition candidate_spike_min_new :: nat where
  "candidate_spike_min_new = 25"

definition candidate_spike_postpone_days :: int where
  "candidate_spike_postpone_days = 3"

definition is_candidate_spike :: "nat \<Rightarrow> nat \<Rightarrow> bool" where
  "is_candidate_spike created before \<longleftrightarrow> created \<ge> candidate_spike_min_new \<and> created > before"

definition spike_reason :: "nat \<Rightarrow> nat \<Rightarrow> string" where
  "spike_reason created before =
     ''Scan added '' @ show_nat created @ '' candidates from a pool of '' @ show_nat before @
     ''; auto-delete postponed '' @ show_int candidate_spike_postpone_days @ '' days as a precaution''"

text \<open>\<open>before\<close> is the set of candidate identifiers before the scan.\<close>

definition postpone_candidate_spike :: "int \<Rightarrow> int set \<Rightarrow> nat \<Rightarrow> tables \<Rightarrow> nat \<times> tables" where
  "postpone_candidate_spike now before created db =
     (let is_new = (\<lambda>c. candidate_id c \<notin> before)
      in if \<not> is_candidate_spike created (card before) \<or> \<not> list_ex is_new (candidates db) then (0, db)
         else (length (filter is_new (candidates db)),
               db\<lparr>candidates := map (\<lambda>c. if is_new c
                    then c\<lparr>postponed_until := Some (PDT (now + candidate_spike_postpone_days * day_us) None),
                           lifecycle_reason := Some (spike_reason created (card before)),
                           lifecycle_updated_at := Some now\<rparr>
                    else c) (candidates db)\<rparr>))"

section \<open>Lemmas\<close>

definition may_delete :: "int \<Rightarrow> tables \<Rightarrow> library \<Rightarrow> rule_actions \<times> int \<times> int \<Rightarrow> candidate \<Rightarrow> bool" where
  "may_delete now db lib ctx c \<longleftrightarrow>
     \<not> candidate_blocked now db lib c \<and> (\<exists>p. run_policy now ctx c = Ok p \<and> is_enabled p \<and> is_eligible p)"

lemma pick_candidates_spec:
  "pick_candidates now db lib ctx cs (ids, b, w) = Ok (ids', b', w') \<Longrightarrow>
   ids' = ids @ map candidate_id (filter (may_delete now db lib ctx) cs) \<and>
   length ids' + b' + w' = length ids + b + w + length cs"
proof (induction cs arbitrary: ids b w)
  case (Cons c cs)
  show ?case
  proof (cases "candidate_blocked now db lib c")
    case True
    with Cons.prems have "pick_candidates now db lib ctx cs (ids, b + 1, w) = Ok (ids', b', w')" by simp
    from Cons.IH[OF this] True show ?thesis by (auto simp: may_delete_def)
  next
    case False
    with Cons.prems obtain p where p: "run_policy now ctx c = Ok p" by (auto simp: rbind_Ok_iff)
    consider "\<not> is_enabled p" | "is_enabled p" "is_eligible p" | "is_enabled p" "\<not> is_eligible p" by blast
    then show ?thesis
    proof cases
      case 1
      with Cons.prems False p have "pick_candidates now db lib ctx cs (ids, b + 1, w) = Ok (ids', b', w')" by simp
      from Cons.IH[OF this] 1 False p show ?thesis by (auto simp: may_delete_def)
    next
      case 2
      with Cons.prems False p have "pick_candidates now db lib ctx cs (ids @ [candidate_id c], b, w) = Ok (ids', b', w')" by simp
      from Cons.IH[OF this] 2 False p show ?thesis by (auto simp: may_delete_def)
    next
      case 3
      with Cons.prems False p have "pick_candidates now db lib ctx cs (ids, b, w + 1) = Ok (ids', b', w')" by simp
      from Cons.IH[OF this] 3 False p show ?thesis by (auto simp: may_delete_def)
    qed
  qed
qed simp

lemma select_spec:
  assumes "select_auto_delete_eligible_candidate_ids now db lib = Ok (ids, b, w)"
  defines "ctx \<equiv> load_auto_delete_context db (concat (map matched_rule_ids (considered db lib)))"
  shows "ids = map candidate_id (filter (may_delete now db lib ctx) (considered db lib)) \<and>
         length ids + b + w = length (considered db lib)"
  using assms pick_candidates_spec[of now db lib ctx "considered db lib" "[]" 0 0 ids b w]
  by (auto simp: select_auto_delete_eligible_candidate_ids_def Let_def split: if_splits)

lemma file_in_truncated: "file_in_scope mo se (scope.truncate r) f = file_in_scope mo se r f"
  by (cases f) (simp_all add: scope.defs)

lemma shared_file_is_blocked:
  assumes "(mo, se, r) \<in> set (blocking_scopes now (candidate_type c) db)"
    and "file_in_scope mo se r f" "candidate_file c f"
  shows "candidate_blocked now db lib c"
proof (cases f)
  case (Version_File m v)
  with assms(2,3) have "candidate_type c = MOVIE" "mo = Some m" "candidate_movie c = Some m"
    by (auto simp: candidate_file_def)
  moreover have "List.member (blocked_movie_ids now db lib) m"
    using assms(1) calculation by (force simp: blocked_movie_ids_def)
  ultimately show ?thesis by (simp add: candidate_blocked_def among_def)
next
  case (Episode_File s n e)
  with assms(2,3) have "candidate_type c = SERIES" "se = Some s" "candidate_series c = Some s"
    by (auto simp: candidate_file_def)
  moreover have "List.member (blocked_series_ids now db lib) s"
    using assms(1) calculation by (force simp: blocked_series_ids_def)
  ultimately show ?thesis by (simp add: candidate_blocked_def among_def)
qed


lemma run_policy_postponed:
  assumes "run_policy t ctx c = Ok p" "postponed_until c = Some q" "t < utc_instant q"
  shows "\<not> is_eligible p"
  using policy_Ok(3,5)[OF assms(1)[unfolded run_policy_def]] assms(2,3)
  by (simp add: postponed_deadline_def)

lemma loaded_actions:
  "i \<in> set ids \<Longrightarrow> actions_by_id (filter (\<lambda>r. List.member ids (rule_id r) \<and> rule_enabled r) rs) i =
     actions_by_id (filter rule_enabled rs) i"
  by (induction rs) (auto simp: actions_by_id_def)

lemma loaded_opted_in:
  "i \<in> set ids \<Longrightarrow> opted_in (fst (load_auto_delete_context db ids)) i =
     opted_in (actions_by_id (filter rule_enabled (rules db))) i"
  using loaded_actions[of i ids "rules db"] by (simp add: opted_in_def load_auto_delete_context_def)

lemma run_policy_state: "run_policy now ctx c = Ok p \<Longrightarrow> (is_enabled p \<and> is_eligible p) = (state p = Eligible)"
proof -
  assume "run_policy now ctx c = Ok p"
  note p = policy_Ok[OF this[unfolded run_policy_def]]
  show ?thesis by (auto simp: p(4,5,6) policy_state_of_def)
qed

section \<open>Properties\<close>

definition demo_library :: library where
  "demo_library = \<lparr>version_rows = [], episode_rows = [], season_rows = [(2, Some 5)], resync_candidates = []\<rparr>"

definition demo_unprotected :: tables where
  "demo_unprotected = demo_tables\<lparr>protected_rows := []\<rparr>"

lemma demo_select:
  "select_auto_delete_eligible_candidate_ids (730007 * day_us) demo_unprotected demo_library = Ok ([1], 0, 0)"
  by code_simp

text \<open>C2: automatic deletion never touches a protected file.  A candidate chosen for deletion shares
  no file with an active protection or with a pending protection or delete request, is neither
  under an approved delete request nor being re-synchronised, is not cancelled, and is due: it matched a
  rule that is enabled and opted in, the delay of every such rule has run since the start of its timer,
  and its postponement is over.\<close>

theorem chosen_candidates_are_safe:
  assumes "select_auto_delete_eligible_candidate_ids now db lib = Ok (ids, b, w)"
    and "c \<in> set (candidates db)" "candidate_id c \<in> set ids" "distinct (map candidate_id (candidates db))"
  shows "(\<forall>r \<in> set (protected_rows db). \<forall>f. protected_type r = candidate_type c \<and> active_protection now r \<and>
            file_in_scope (protected_movie r) (protected_series r) r f \<longrightarrow> \<not> candidate_file c f) \<and>
         (\<forall>r \<in> set (protection_requests db) \<union> set (delete_requests db). \<forall>f.
            request_type r = candidate_type c \<and> status r = PENDING \<and>
            file_in_scope (request_movie r) (request_series r) r f \<longrightarrow> \<not> candidate_file c f) \<and>
         delete_request_id c = None \<and> candidate_id c \<notin> set (resync_candidates lib) \<and>
         (\<exists>i \<in> set (matched_rule_ids c). opted_in (actions_by_id (filter rule_enabled (rules db))) i \<noteq> None) \<and>
         cancelled_at c = None \<and>
         (\<forall>i \<in> set (matched_rule_ids c). \<forall>a. opted_in (actions_by_id (filter rule_enabled (rules db))) i = Some a \<longrightarrow>
            utc_instant (case timer_started_at c of Some t \<Rightarrow> t | None \<Rightarrow> created_at c) +
              rule_delay (clamped_delay (candidate_type c) (fst (configured_delays db)) (snd (configured_delays db))) a * day_us \<le> now) \<and>
         (\<forall>q. postponed_until c = Some q \<longrightarrow> utc_instant q \<le> now)"
proof -
  let ?ctx = "load_auto_delete_context db (concat (map matched_rule_ids (considered db lib)))"
  have "candidate_id c \<in> candidate_id ` set (filter (may_delete now db lib ?ctx) (considered db lib))"
    using select_spec[OF assms(1)] assms(3) by simp
  then obtain c' where c': "candidate_id c' = candidate_id c" "c' \<in> set (considered db lib)" "may_delete now db lib ?ctx c'"
    by auto
  then have "c' \<in> set (candidates db)" by (simp add: considered_def)
  with c'(1) assms(2,4) have "c' = c" by (metis distinct_map inj_onD)
  with c' have c: "c \<in> set (considered db lib)" "may_delete now db lib ?ctx c" by simp_all
  then obtain p where p: "run_policy now ?ctx c = Ok p" "is_eligible p" and free: "\<not> candidate_blocked now db lib c"
    by (auto simp: may_delete_def)
  have delays: "snd ?ctx = configured_delays db" by (simp add: load_auto_delete_context_def)
  note due = eligible_means_due[OF p(1)[unfolded run_policy_def delays] p(2), simplified]
  have "opted_in (fst ?ctx) i = opted_in (actions_by_id (filter rule_enabled (rules db))) i" if "i \<in> set (matched_rule_ids c)" for i
    using c(1) that by (intro loaded_opted_in) auto
  moreover have "\<not> candidate_file c f"
    if "r \<in> set (protected_rows db)" "protected_type r = candidate_type c" "active_protection now r"
      "file_in_scope (protected_movie r) (protected_series r) r f" for r f
  proof -
    have "(protected_movie r, protected_series r, scope.truncate r) \<in> set (blocking_scopes now (candidate_type c) db)"
      using that(1,2,3) by (auto simp: blocking_scopes_def)
    from shared_file_is_blocked[OF this, of f lib] that(4) free show ?thesis by (auto simp: file_in_truncated)
  qed
  moreover have "\<not> candidate_file c f"
    if "r \<in> set (protection_requests db) \<union> set (delete_requests db)" "request_type r = candidate_type c" "status r = PENDING"
      "file_in_scope (request_movie r) (request_series r) r f" for r f
  proof -
    have "(request_movie r, request_series r, scope.truncate r) \<in> set (blocking_scopes now (candidate_type c) db)"
      using that(1,2,3) by (auto simp: blocking_scopes_def)
    from shared_file_is_blocked[OF this, of f lib] that(4) free show ?thesis by (auto simp: file_in_truncated)
  qed
  ultimately show ?thesis using due c(1) by (auto simp: considered_def)
qed

lemma chosen_candidates_are_safe_witness:
  "(\<exists>i \<in> set (matched_rule_ids demo_candidate). opted_in (actions_by_id (filter rule_enabled (rules demo_unprotected))) i \<noteq> None) \<and>
   730000 * day_us + rule_delay (clamped_delay SERIES 14 7) [(''auto_delete_enabled'', PBool True)] * day_us \<le> 730007 * day_us"
  using chosen_candidates_are_safe[OF demo_select, of demo_candidate]
  by (simp add: demo_unprotected_def demo_tables_def demo_candidate_def actions_by_id_def opted_in_def dget_def configured_delays_def)

text \<open>Every candidate is accounted for.  The run's three numbers, chosen, blocked and waiting,
  add up to the candidates it considered, and the chosen ones are those and only those that are
  free of blockers and due.\<close>

theorem run_accounts_for_every_candidate:
  assumes "select_auto_delete_eligible_candidate_ids now db lib = Ok (ids, b, w)"
  defines "ctx \<equiv> load_auto_delete_context db (concat (map matched_rule_ids (considered db lib)))"
  shows "length ids + b + w = length (considered db lib) \<and>
         ids = map candidate_id
           [c \<leftarrow> considered db lib. \<not> candidate_blocked now db lib c \<and>
              (\<exists>p. run_policy now ctx c = Ok p \<and> state p = Eligible)]"
proof -
  have "may_delete now db lib ctx = (\<lambda>c. \<not> candidate_blocked now db lib c \<and> (\<exists>p. run_policy now ctx c = Ok p \<and> state p = Eligible))"
    by (rule ext) (auto simp: may_delete_def dest: run_policy_state)
  with select_spec[OF assms(1), folded ctx_def] show ?thesis by auto
qed

lemma run_accounts_for_every_candidate_witness:
  "length [1 :: int] + 0 + 0 = length (considered demo_unprotected demo_library)"
  by (rule conjunct1[OF run_accounts_for_every_candidate[OF demo_select]])

text \<open>C29: a spike cannot delete anything for three days.  When a scan more than doubles the
  candidates with at least twenty-five new ones, no candidate whose id was not there before is chosen by a
  run before the postponement is over.\<close>

theorem spike_holds_back_new_candidates:
  assumes "is_candidate_spike created (card before)"
    and "postpone_candidate_spike now before created db = (n, db')"
    and "select_auto_delete_eligible_candidate_ids t db' lib = Ok (ids, b, w)"
    and "t < now + 3 * day_us"
  shows "set ids \<subseteq> before"
proof
  fix i assume i: "i \<in> set ids"
  define ctx where "ctx = load_auto_delete_context db' (concat (map matched_rule_ids (considered db' lib)))"
  have "i \<in> candidate_id ` set (filter (may_delete t db' lib ctx) (considered db' lib))"
    using i select_spec[OF assms(3), folded ctx_def] by simp
  then obtain c where c: "c \<in> set (candidates db')" "i = candidate_id c" "may_delete t db' lib ctx c"
    by (auto simp: considered_def)
  then obtain p where p: "run_policy t ctx c = Ok p" "is_eligible p" by (auto simp: may_delete_def)
  show "i \<in> before"
  proof (rule ccontr)
    assume new: "i \<notin> before"
    have "postponed_until c = Some (PDT (now + candidate_spike_postpone_days * day_us) None)"
      using assms(1,2) c(1,2) new
      by (auto simp: postpone_candidate_spike_def Let_def list_ex_iff split: if_splits)
    from run_policy_postponed[OF p(1) this] assms(4) p(2) show False
      by (simp add: candidate_spike_postpone_days_def)
  qed
qed

definition demo_grown :: tables where
  "demo_grown = demo_unprotected\<lparr>candidates := [demo_candidate, demo_candidate\<lparr>candidate_id := 2\<rparr>]\<rparr>"

definition demo_spike :: tables where
  "demo_spike = snd (postpone_candidate_spike (730006 * day_us) {1} 30 demo_grown)"

lemma demo_spike_select:
  "select_auto_delete_eligible_candidate_ids (730008 * day_us) demo_spike demo_library = Ok ([1], 0, 1)"
  by code_simp

lemma spike_holds_back_new_candidates_witness:
  "set [1 :: int] \<subseteq> {1}"
  by (rule spike_holds_back_new_candidates[where created = 30 and now = "730006 * day_us" and db = demo_grown
        and n = "fst (postpone_candidate_spike (730006 * day_us) {1} 30 demo_grown)",
        OF _ _ demo_spike_select])
    (simp_all add: is_candidate_spike_def candidate_spike_min_new_def demo_spike_def)

end
