(* ===== verification/Job_Queue.thy ===== *)
theory Job_Queue
  imports Rule_Operators
begin

text \<open>
  The background job queue (\<open>backend/jobs/queue.py\<close>) and the resources a running job
  holds (\<open>backend/jobs/policy.py\<close>).  A queue operation runs in one database transaction
  and is one step; claiming a job is two steps, the reading of the running and pending
  jobs and the conditional update, because other sessions may write in between.  The claim
  lock is the state component \<open>claiming\<close>.  Instants are integers.
\<close>

section \<open>Jobs\<close>

datatype job_type = SERVICE_TOGGLE | TASK_RUN | CANDIDATE_FILE_OP | WEBHOOK_DELIVERY | DUPLICATE_DELETE

datatype job_status = Pending | Running | Completed | Failed | Canceled

datatype job_priority = Low | Normal | High

record job =
  job_id :: int
  job_type :: job_type
  job_status :: job_status
  priority :: job_priority
  payload :: "pyval dict"
  dedupe_key :: "string option"
  scheduled_at :: int
  attempts :: nat
  max_attempts :: nat
  claimed_by :: "string option"
  claimed_at :: "int option"
  started_at :: "int option"
  completed_at :: "int option"
  error_message :: "string option"
  updated_at :: "int option"

record queue =
  jobs :: "job list"
  next_job_id :: int
  claiming :: "(string \<times> int \<times> int) option"

section \<open>Resources\<close>

definition task_values :: "string list" where
  "task_values =
     [''sync_media'', ''resync_media'', ''sync_media_libraries'', ''sync_linked_data'',
      ''scan_cleanup_candidates'', ''tag_cleanup_candidates'', ''delete_cleanup_candidates'',
      ''weekly_house_keeping'', ''backup_database'', ''check_app_updates'', ''imdb_ratings_refresh'',
      ''anilist_ratings_refresh'', ''mdblist_ratings_refresh'', ''omdb_ratings_refresh'',
      ''refresh_playback_history'', ''scan_upgrade_leftovers'']"

definition service_runtime_tasks :: "string list" where
  "service_runtime_tasks =
     [''sync_media'', ''resync_media'', ''sync_media_libraries'', ''sync_linked_data'',
      ''refresh_playback_history'', ''scan_cleanup_candidates'', ''tag_cleanup_candidates'',
      ''delete_cleanup_candidates'']"

definition candidate_workflow_tasks :: "string list" where
  "candidate_workflow_tasks =
     [''scan_cleanup_candidates'', ''tag_cleanup_candidates'', ''delete_cleanup_candidates'']"

definition task_resources :: "runtime \<Rightarrow> pyval dict \<Rightarrow> string set" where
  "task_resources rt p =
     (let task = py_str rt (dget p ''task'')
      in if \<not> List.member task_values task then {''task-run''}
         else {''task-run''} \<union>
              (if List.member service_runtime_tasks task then {''service-runtime''} else {}) \<union>
              (if List.member candidate_workflow_tasks task then {''candidate-workflow''} else {}))"

text \<open>In Python a truth value is an integer, so \<open>True\<close> passes for an endpoint.\<close>

fun endpoint_resource :: "pyval \<Rightarrow> string" where
  "endpoint_resource (PInt i) = (if i > 0 then ''webhook-endpoint:'' @ show_int i else ''webhook-delivery'')"
| "endpoint_resource (PBool b) = (if b then ''webhook-endpoint:True'' else ''webhook-delivery'')"
| "endpoint_resource v = ''webhook-delivery''"

definition background_job_resources :: "runtime \<Rightarrow> job \<Rightarrow> string set" where
  "background_job_resources rt j =
     (case job_type j of
        TASK_RUN \<Rightarrow> task_resources rt (payload j)
      | SERVICE_TOGGLE \<Rightarrow> {''service-runtime''}
      | CANDIDATE_FILE_OP \<Rightarrow> {''candidate-workflow'', ''service-runtime''}
      | DUPLICATE_DELETE \<Rightarrow> {''candidate-workflow'', ''service-runtime''}
      | WEBHOOK_DELIVERY \<Rightarrow> {endpoint_resource (dget (payload j) ''endpoint_id'')})"

section \<open>Operations\<close>

definition update_where :: "(job \<Rightarrow> bool) \<Rightarrow> (job \<Rightarrow> job) \<Rightarrow> queue \<Rightarrow> queue" where
  "update_where P f q = q\<lparr>jobs := map (\<lambda>j. if P j then f j else j) (jobs q)\<rparr>"

definition cancel_job :: "int \<Rightarrow> string \<Rightarrow> job \<Rightarrow> job" where
  "cancel_job t reason j = j\<lparr>job_status := Canceled, completed_at := Some t, error_message := Some reason\<rparr>"

definition pending_with_key :: "string \<Rightarrow> job \<Rightarrow> bool" where
  "pending_with_key k j \<longleftrightarrow> dedupe_key j = Some k \<and> job_status j = Pending"

definition active_with_key :: "string \<Rightarrow> job \<Rightarrow> bool" where
  "active_with_key k j \<longleftrightarrow> dedupe_key j = Some k \<and> (job_status j = Pending \<or> job_status j = Running)"

definition insert_job ::
  "job_type \<Rightarrow> pyval dict \<Rightarrow> int \<Rightarrow> string option \<Rightarrow> nat \<Rightarrow> job_priority \<Rightarrow> queue \<Rightarrow> job option \<times> queue" where
  "insert_job ty p run_at key attempts_allowed prio q =
     (let j = \<lparr>job_id = next_job_id q, job_type = ty, job_status = Pending, priority = prio, payload = p,
               dedupe_key = key, scheduled_at = run_at, attempts = 0, max_attempts = attempts_allowed,
               claimed_by = None, claimed_at = None, started_at = None, completed_at = None,
               error_message = None, updated_at = None\<rparr>
      in (Some j, q\<lparr>jobs := jobs q @ [j], next_job_id := next_job_id q + 1\<rparr>))"

text \<open>An empty key is no key; \<open>skip_if_active\<close> leaves what the replacement did uncommitted.\<close>

definition enqueue_background_job ::
  "job_type \<Rightarrow> pyval dict \<Rightarrow> int \<Rightarrow> string option \<Rightarrow> bool \<Rightarrow> bool \<Rightarrow> nat \<Rightarrow> job_priority \<Rightarrow> queue \<Rightarrow> job option \<times> queue" where
  "enqueue_background_job ty p run_at key replace_pending skip_if_active attempts_allowed prio q =
     (case key of
        Some k \<Rightarrow>
          (if k = [] then insert_job ty p run_at key attempts_allowed prio q
           else let q' = (if replace_pending
                          then update_where (pending_with_key k) (cancel_job run_at ''Replaced by newer queued job'') q
                          else q)
                in if skip_if_active \<and> list_ex (active_with_key k) (jobs q') then (None, q)
                   else insert_job ty p run_at key attempts_allowed prio q')
      | None \<Rightarrow> insert_job ty p run_at key attempts_allowed prio q)"

definition reset_stale_jobs :: "int \<Rightarrow> queue \<Rightarrow> nat \<times> queue" where
  "reset_stale_jobs now q =
     (length (filter (\<lambda>j. job_status j = Running) (jobs q)),
      update_where (\<lambda>j. job_status j = Running)
        (\<lambda>j. j\<lparr>job_status := Failed, completed_at := Some now,
               error_message := Some ''Server restarted while job was running''\<rparr>) q)"

definition busy_resources :: "(job \<Rightarrow> string set) \<Rightarrow> queue \<Rightarrow> string set" where
  "busy_resources res q = \<Union> (res ` set (filter (\<lambda>j. job_status j = Running) (jobs q)))"

definition priority_rank :: "job_priority \<Rightarrow> int" where
  "priority_rank p = (case p of High \<Rightarrow> 3 | Normal \<Rightarrow> 2 | Low \<Rightarrow> 1)"

definition claim_order :: "job \<Rightarrow> int \<times> int \<times> int" where
  "claim_order j = (- priority_rank (priority j), scheduled_at j, job_id j)"

definition due_jobs :: "int \<Rightarrow> job_type list option \<Rightarrow> queue \<Rightarrow> job list" where
  "due_jobs now allowed q =
     sort_key claim_order
       (filter (\<lambda>j. job_status j = Pending \<and> scheduled_at j \<le> now \<and>
                    (case allowed of None \<Rightarrow> True | Some ts \<Rightarrow> List.member ts (job_type j))) (jobs q))"

definition select_claim ::
  "(job \<Rightarrow> string set) \<Rightarrow> int \<Rightarrow> job_type list option \<Rightarrow> queue \<Rightarrow> job option" where
  "select_claim res now allowed q =
     find (\<lambda>j. res j \<inter> busy_resources res q = {}) (due_jobs now allowed q)"

definition claim_job :: "string \<Rightarrow> int \<Rightarrow> job \<Rightarrow> job" where
  "claim_job worker now j =
     j\<lparr>job_status := Running, claimed_by := Some worker, claimed_at := Some now, started_at := Some now,
       attempts := attempts j + 1\<rparr>"

definition commit_claim :: "string \<Rightarrow> int \<Rightarrow> int \<Rightarrow> queue \<Rightarrow> job option \<times> queue" where
  "commit_claim worker i now q =
     (let q' = update_where (\<lambda>j. job_id j = i \<and> job_status j = Pending) (claim_job worker now) q
      in if list_ex (\<lambda>j. job_id j = i \<and> job_status j = Pending) (jobs q)
         then (find (\<lambda>j. job_id j = i) (jobs q'), q') else (None, q))"

text \<open>A claim with nothing in between.\<close>

definition claim_next_background_job ::
  "(job \<Rightarrow> string set) \<Rightarrow> string \<Rightarrow> int \<Rightarrow> job_type list option \<Rightarrow> queue \<Rightarrow> job option \<times> queue" where
  "claim_next_background_job res worker now allowed q =
     (case select_claim res now allowed q of
        None \<Rightarrow> (None, q)
      | Some j \<Rightarrow> commit_claim worker (job_id j) now q)"

definition payload_of :: "int \<Rightarrow> queue \<Rightarrow> pyval dict" where
  "payload_of i q = (case find (\<lambda>j. job_id j = i) (jobs q) of None \<Rightarrow> [] | Some j \<Rightarrow> payload j)"

definition complete_background_job :: "int \<Rightarrow> pyval dict option \<Rightarrow> int \<Rightarrow> queue \<Rightarrow> queue" where
  "complete_background_job i outcome now q =
     update_where (\<lambda>j. job_id j = i)
       (\<lambda>j. j\<lparr>job_status := Completed, completed_at := Some now, error_message := None,
              payload := (case outcome of None \<Rightarrow> payload_of i q
                          | Some r \<Rightarrow> dput ''result'' (PDict r) (payload_of i q))\<rparr>) q"

definition update_background_job_payload :: "int \<Rightarrow> pyval dict \<Rightarrow> int \<Rightarrow> queue \<Rightarrow> queue" where
  "update_background_job_payload i updates now q =
     update_where (\<lambda>j. job_id j = i)
       (\<lambda>j. j\<lparr>payload := dupdate (payload_of i q) updates, updated_at := Some now\<rparr>) q"

definition fail_background_job :: "int \<Rightarrow> string \<Rightarrow> int \<Rightarrow> queue \<Rightarrow> queue" where
  "fail_background_job i msg now q =
     update_where (\<lambda>j. job_id j = i)
       (\<lambda>j. j\<lparr>job_status := Failed, completed_at := Some now, error_message := Some msg\<rparr>) q"

definition cancel_pending_background_jobs_by_dedupe_key :: "string \<Rightarrow> string \<Rightarrow> int \<Rightarrow> queue \<Rightarrow> nat \<times> queue" where
  "cancel_pending_background_jobs_by_dedupe_key k reason now q =
     (length (filter (pending_with_key k) (jobs q)), update_where (pending_with_key k) (cancel_job now reason) q)"

section \<open>Interleaved execution\<close>

text \<open>
  A restart loses the claim in flight and frees its lock.  Updates of a payload while a job runs do not write the keys that decide its resources:
  the workers write progress and results.
\<close>

definition resource_keys :: "string list" where
  "resource_keys = [''task'', ''endpoint_id'']"

inductive queue_step :: "(job \<Rightarrow> string set) \<Rightarrow> queue \<Rightarrow> queue \<Rightarrow> bool" for res where
  Enqueue: "enqueue_background_job ty p run_at key rep skip n prio q = (r, q') \<Longrightarrow> queue_step res q q'"
| Claim_Begin: "claiming q = None \<Longrightarrow> select_claim res now allowed q = Some j \<Longrightarrow>
    queue_step res q (q\<lparr>claiming := Some (worker, job_id j, now)\<rparr>)"
| Claim_End: "claiming q = Some (worker, i, now) \<Longrightarrow> commit_claim worker i now q = (r, q') \<Longrightarrow>
    queue_step res q (q'\<lparr>claiming := None\<rparr>)"
| Complete: "queue_step res q (complete_background_job i outcome now q)"
| Fail: "queue_step res q (fail_background_job i msg now q)"
| Update: "list_all (\<lambda>(k, v). \<not> List.member resource_keys k) updates \<Longrightarrow>
    queue_step res q (update_background_job_payload i updates now q)"
| Cancel: "queue_step res q (snd (cancel_pending_background_jobs_by_dedupe_key k reason now q))"
| Reset: "queue_step res q ((snd (reset_stale_jobs now q))\<lparr>claiming := None\<rparr>)"

definition empty_queue :: queue where
  "empty_queue = \<lparr>jobs = [], next_job_id = 1, claiming = None\<rparr>"

inductive reachable :: "(job \<Rightarrow> string set) \<Rightarrow> queue \<Rightarrow> bool" for res where
  Start: "reachable res empty_queue"
| Step: "reachable res q \<Longrightarrow> queue_step res q q' \<Longrightarrow> reachable res q'"

inductive_cases queue_stepE: "queue_step res q q'"

section \<open>Invariants\<close>

definition exclusive :: "(job \<Rightarrow> string set) \<Rightarrow> job list \<Rightarrow> bool" where
  "exclusive res js \<longleftrightarrow>
     (\<forall>j \<in> set js. \<forall>k \<in> set js. job_status j = Running \<and> job_status k = Running \<and> job_id j \<noteq> job_id k \<longrightarrow>
        res j \<inter> res k = {})"

definition claim_sound :: "(job \<Rightarrow> string set) \<Rightarrow> (string \<times> int \<times> int) option \<Rightarrow> job list \<Rightarrow> bool" where
  "claim_sound res claim js \<longleftrightarrow>
     (\<forall>w i t. claim = Some (w, i, t) \<longrightarrow> i \<in> job_id ` set js \<and>
        (\<forall>j \<in> set js. \<forall>k \<in> set js. job_id j = i \<and> job_status j = Pending \<and> job_status k = Running \<longrightarrow>
           res j \<inter> res k = {}))"

definition ids_fresh :: "queue \<Rightarrow> bool" where
  "ids_fresh q \<longleftrightarrow> distinct (map job_id (jobs q)) \<and> (\<forall>i \<in> set (map job_id (jobs q)). i < next_job_id q)"

definition queue_inv :: "(job \<Rightarrow> string set) \<Rightarrow> queue \<Rightarrow> bool" where
  "queue_inv res q \<longleftrightarrow> ids_fresh q \<and> exclusive res (jobs q) \<and> claim_sound res (claiming q) (jobs q)"

text \<open>A change to a job that starts nothing and keeps the resources of what is active.\<close>

definition calm :: "(job \<Rightarrow> string set) \<Rightarrow> (job \<Rightarrow> job) \<Rightarrow> job \<Rightarrow> bool" where
  "calm res f j \<longleftrightarrow> job_id (f j) = job_id j \<and>
     (job_status (f j) = Running \<longrightarrow> job_status j = Running \<and> res (f j) = res j) \<and>
     (job_status (f j) = Pending \<longrightarrow> job_status j = Pending \<and> res (f j) = res j)"

lemma calm_ids: "\<forall>j \<in> set js. calm res f j \<Longrightarrow> map job_id (map f js) = map job_id js"
  by (simp add: calm_def)

lemma calm_exclusive: "\<forall>j \<in> set js. calm res f j \<Longrightarrow> exclusive res js \<Longrightarrow> exclusive res (map f js)"
  unfolding exclusive_def calm_def by simp

lemma calm_claim: "\<forall>j \<in> set js. calm res f j \<Longrightarrow> claim_sound res cl js \<Longrightarrow> claim_sound res cl (map f js)"
  unfolding claim_sound_def calm_def by (simp add: image_image)

lemma calm_inv:
  assumes "queue_inv res q" "\<forall>j \<in> set (jobs q). calm res f j"
  shows "queue_inv res (q\<lparr>jobs := map f (jobs q)\<rparr>)"
  using assms calm_ids[OF assms(2)] calm_exclusive[OF assms(2)] calm_claim[OF assms(2)]
  by (simp add: queue_inv_def ids_fresh_def del: set_map map_map)

lemma update_where_inv:
  assumes "queue_inv res q" "\<And>j. j \<in> set (jobs q) \<Longrightarrow> P j \<Longrightarrow> calm res f j"
  shows "queue_inv res (update_where P f q)"
  unfolding update_where_def by (rule calm_inv[OF assms(1)]) (use assms(2) in \<open>auto simp: calm_def\<close>)

lemma free_claim: "queue_inv res q \<Longrightarrow> queue_inv res (q\<lparr>claiming := None\<rparr>)"
  by (simp add: queue_inv_def ids_fresh_def claim_sound_def)

lemma exclusive_snoc: "exclusive res js \<Longrightarrow> job_status j \<noteq> Running \<Longrightarrow> exclusive res (js @ [j])"
  by (auto simp: exclusive_def)

lemma claim_sound_snoc:
  "claim_sound res cl js \<Longrightarrow> job_status j \<noteq> Running \<Longrightarrow> job_id j \<notin> job_id ` set js \<Longrightarrow> claim_sound res cl (js @ [j])"
  by (auto simp: claim_sound_def)

lemma insert_job_inv:
  assumes "queue_inv res q" "insert_job ty p run_at key n prio q = (r, q')"
  shows "queue_inv res q'"
proof -
  obtain j where q': "q' = q\<lparr>jobs := jobs q @ [j], next_job_id := next_job_id q + 1\<rparr>"
    and j: "job_id j = next_job_id q" "job_status j \<noteq> Running"
    using assms(2) by (auto simp: insert_job_def Let_def)
  have new: "job_id j \<notin> job_id ` set (jobs q)" using assms(1) j(1) by (auto simp: queue_inv_def ids_fresh_def)
  with assms(1) j have "ids_fresh q'" by (auto simp: q' queue_inv_def ids_fresh_def)
  with assms(1) exclusive_snoc[OF _ j(2)] claim_sound_snoc[OF _ j(2) new] show ?thesis
    by (simp add: q' queue_inv_def)
qed

lemma enqueue_cases:
  assumes "enqueue_background_job ty p run_at key rep skip n prio q = (r, q')"
  obtains "r = None" "q' = q"
  | "insert_job ty p run_at key n prio q = (r, q')"
  | k where "key = Some k"
      "insert_job ty p run_at key n prio
         (update_where (pending_with_key k) (cancel_job run_at ''Replaced by newer queued job'') q) = (r, q')"
proof (cases key)
  case None
  with assms that(2) show ?thesis by (simp add: enqueue_background_job_def)
next
  case (Some k)
  show ?thesis
  proof (cases "k = []")
    case True
    with assms Some that(2) show ?thesis by (simp add: enqueue_background_job_def)
  next
    case False
    define q1 where "q1 = (if rep then update_where (pending_with_key k) (cancel_job run_at ''Replaced by newer queued job'') q else q)"
    have "(if skip \<and> list_ex (active_with_key k) (jobs q1) then (None, q)
        else insert_job ty p run_at key n prio q1) = (r, q')"
      using assms Some False unfolding enqueue_background_job_def Let_def q1_def by simp
    then consider "r = None" "q' = q" | "insert_job ty p run_at key n prio q1 = (r, q')"
      by (cases "skip \<and> list_ex (active_with_key k) (jobs q1)") auto
    then show ?thesis
      using that Some by cases (auto simp: q1_def split: if_splits)
  qed
qed

lemma enqueue_inv:
  assumes "queue_inv res q" "enqueue_background_job ty p run_at key rep skip n prio q = (r, q')"
  shows "queue_inv res q'"
  using assms(2)
proof (cases rule: enqueue_cases)
  case (3 k)
  have "queue_inv res (update_where (pending_with_key k) (cancel_job run_at ''Replaced by newer queued job'') q)"
    by (rule update_where_inv[OF assms(1)]) (simp add: calm_def cancel_job_def)
  then show ?thesis using 3(2) by (rule insert_job_inv)
qed (use assms(1) insert_job_inv in blast)+

lemma select_claim_sound:
  assumes "select_claim res now allowed q = Some j"
  shows "j \<in> set (jobs q)" "job_status j = Pending" "scheduled_at j \<le> now"
    and "\<And>k. k \<in> set (jobs q) \<Longrightarrow> job_status k = Running \<Longrightarrow> res j \<inter> res k = {}"
proof -
  from assms have j: "j \<in> set (due_jobs now allowed q)" "res j \<inter> busy_resources res q = {}"
    unfolding select_claim_def by (auto simp: find_Some_iff)
  then show "j \<in> set (jobs q)" "job_status j = Pending" "scheduled_at j \<le> now"
    by (auto simp: due_jobs_def)
  show "\<And>k. k \<in> set (jobs q) \<Longrightarrow> job_status k = Running \<Longrightarrow> res j \<inter> res k = {}"
    using j(2) by (auto simp: busy_resources_def)
qed

lemma claim_begin_inv:
  assumes "queue_inv res q" "distinct (map job_id (jobs q))" "select_claim res now allowed q = Some j"
  shows "queue_inv res (q\<lparr>claiming := Some (w, job_id j, now)\<rparr>)"
proof -
  have "claim_sound res (Some (w, job_id j, now)) (jobs q)"
    unfolding claim_sound_def
    using select_claim_sound[OF assms(3)] assms(2) by (metis Pair_inject distinct_map imageI inj_onD option.inject)
  with assms(1) show ?thesis by (simp add: queue_inv_def ids_fresh_def)
qed

lemma commit_claim_inv:
  assumes "queue_inv res q" "claiming q = Some (w, i, now)" "commit_claim w i now q = (r, q')"
    and stable: "\<And>j. res (claim_job w now j) = res j"
  shows "queue_inv res (q'\<lparr>claiming := None\<rparr>)"
proof (cases "list_ex (\<lambda>j. job_id j = i \<and> job_status j = Pending) (jobs q)")
  case False
  with assms(1,3) free_claim show ?thesis by (simp add: commit_claim_def)
next
  case True
  let ?f = "\<lambda>j. if job_id j = i \<and> job_status j = Pending then claim_job w now j else j"
  have q': "q'\<lparr>claiming := None\<rparr> = q\<lparr>jobs := map ?f (jobs q), claiming := None\<rparr>"
    using assms(3) True by (auto simp: commit_claim_def update_where_def Let_def)
  have id: "job_id (?f j) = job_id j" "res (?f j) = res j" for j
    using stable by (auto simp: claim_job_def)
  have run: "job_status (?f j) = Running \<longleftrightarrow> job_status j = Running \<or> job_id j = i \<and> job_status j = Pending" for j
    by (auto simp: claim_job_def)
  have "exclusive res (map ?f (jobs q))"
    using assms(1,2) id run unfolding queue_inv_def exclusive_def claim_sound_def
    by (simp only: set_map ball_simps) (metis (no_types, lifting) inf_commute)
  moreover have "map job_id (map ?f (jobs q)) = map job_id (jobs q)" using id by simp
  ultimately show ?thesis
    using assms(1) unfolding q' queue_inv_def ids_fresh_def claim_sound_def by (simp del: map_map set_map)
qed

lemma find_unique: "distinct (map f xs) \<Longrightarrow> x \<in> set xs \<Longrightarrow> f x = i \<Longrightarrow> find (\<lambda>y. f y = i) xs = Some x"
  by (induction xs) (auto simp: image_iff)

section \<open>What the queue needs of the policy\<close>

text \<open>
  The queue relies on one law of the resource policy: a job's resources depend on its type
  and on the payload keys that running work does not write.
\<close>

locale resource_policy =
  fixes res :: "job \<Rightarrow> string set"
  assumes stable: "job_type j = job_type k \<Longrightarrow>
      (\<And>x. x \<in> set resource_keys \<Longrightarrow> dget (payload j) x = dget (payload k) x) \<Longrightarrow> res j = res k"
begin

lemma stable_claim: "res (claim_job w now j) = res j"
  by (rule stable) (simp_all add: claim_job_def)

lemma calm_update:
  assumes "ids_fresh q" "list_all (\<lambda>(k, v). \<not> List.member resource_keys k) updates" "j \<in> set (jobs q)" "job_id j = i"
  shows "calm res (\<lambda>j. j\<lparr>payload := dupdate (payload_of i q) updates, updated_at := Some now\<rparr>) j"
proof -
  have "find (\<lambda>k. job_id k = i) (jobs q) = Some j"
    using assms(1,3,4) unfolding ids_fresh_def by (intro find_unique) auto
  then have p: "payload_of i q = payload j" by (simp add: payload_of_def)
  have "x \<notin> fst ` set updates" if "x \<in> set resource_keys" for x
    using assms(2) that by (auto simp: list_all_iff)
  then have "res (j\<lparr>payload := dupdate (payload j) updates, updated_at := Some now\<rparr>) = res j"
    by (intro stable) (simp_all add: dget_dupdate)
  then show ?thesis by (simp add: calm_def p)
qed

lemma step_inv:
  assumes "queue_step res q q'" "queue_inv res q"
  shows "queue_inv res q'"
  using assms(1)
proof (cases rule: queue_step.cases)
  case (Enqueue ty p run_at key rep skip n prio r)
  with assms(2) show ?thesis by (metis enqueue_inv)
next
  case (Claim_Begin now allowed j worker)
  have "distinct (map job_id (jobs q))" using assms(2) by (simp add: queue_inv_def ids_fresh_def)
  with Claim_Begin assms(2) show ?thesis by (metis claim_begin_inv)
next
  case (Claim_End worker i now r q1)
  with assms(2) show ?thesis by (metis commit_claim_inv stable_claim)
next
  case (Complete i outcome now)
  show ?thesis unfolding Complete complete_background_job_def
    by (rule update_where_inv[OF assms(2)]) (simp add: calm_def)
next
  case (Fail i msg now)
  show ?thesis unfolding Fail fail_background_job_def
    by (rule update_where_inv[OF assms(2)]) (simp add: calm_def)
next
  case (Update updates i now)
  have "ids_fresh q" using assms(2) by (simp add: queue_inv_def)
  show ?thesis unfolding Update(1) update_background_job_payload_def
    by (rule update_where_inv[OF assms(2)]) (rule calm_update[OF \<open>ids_fresh q\<close> Update(2)])
next
  case (Cancel k reason now)
  show ?thesis unfolding Cancel cancel_pending_background_jobs_by_dedupe_key_def snd_conv
    by (rule update_where_inv[OF assms(2)]) (simp add: calm_def cancel_job_def)
next
  case (Reset now)
  show ?thesis unfolding Reset reset_stale_jobs_def snd_conv
    by (rule free_claim, rule update_where_inv[OF assms(2)]) (simp add: calm_def)
qed

lemma reachable_inv: "reachable res q \<Longrightarrow> queue_inv res q"
proof (induction rule: reachable.induct)
  case Start
  show ?case by (simp add: empty_queue_def queue_inv_def ids_fresh_def exclusive_def claim_sound_def)
next
  case (Step q q')
  then show ?case by (blast intro: step_inv)
qed

lemma running_disjoint:
  "reachable res q \<Longrightarrow> j \<in> set (jobs q) \<Longrightarrow> k \<in> set (jobs q) \<Longrightarrow> job_status j = Running \<Longrightarrow>
   job_status k = Running \<Longrightarrow> job_id j \<noteq> job_id k \<Longrightarrow> res j \<inter> res k = {}"
  using reachable_inv by (auto simp: queue_inv_def exclusive_def)

end

interpretation policy: resource_policy "background_job_resources rt" for rt
proof
  fix j k :: job
  assume "job_type j = job_type k" and "\<And>x. x \<in> set resource_keys \<Longrightarrow> dget (payload j) x = dget (payload k) x"
  then show "background_job_resources rt j = background_job_resources rt k"
    by (cases "job_type k") (simp_all add: background_job_resources_def task_resources_def resource_keys_def)
qed

section \<open>Lemmas on claims, keys and finished jobs\<close>

lemma find_sorted_least:
  assumes "find P (sort_key g xs) = Some x"
  shows "\<forall>y \<in> set xs. P y \<longrightarrow> g x \<le> g y"
proof
  fix y assume y: "y \<in> set xs"
  from assms obtain i where i: "i < length (sort_key g xs)" "x = sort_key g xs ! i" "\<forall>j < i. \<not> P (sort_key g xs ! j)"
    by (auto simp: find_Some_iff)
  from y obtain k where k: "k < length (sort_key g xs)" "y = sort_key g xs ! k" by (metis in_set_conv_nth set_sort)
  show "P y \<longrightarrow> g x \<le> g y"
  proof
    assume "P y"
    with i(3) k have "i \<le> k" by (metis not_le)
    then have "map g (sort_key g xs) ! i \<le> map g (sort_key g xs) ! k"
      using k(1) by (intro sorted_nth_mono sorted_sort_key) simp_all
    with i k show "g x \<le> g y" by simp
  qed
qed

definition claimable :: "(job \<Rightarrow> string set) \<Rightarrow> int \<Rightarrow> job_type list option \<Rightarrow> queue \<Rightarrow> job \<Rightarrow> bool" where
  "claimable res now allowed q j \<longleftrightarrow>
     j \<in> set (jobs q) \<and> job_status j = Pending \<and> scheduled_at j \<le> now \<and>
     (case allowed of None \<Rightarrow> True | Some ts \<Rightarrow> job_type j \<in> set ts) \<and>
     (\<forall>k \<in> set (jobs q). job_status k = Running \<longrightarrow> res j \<inter> res k = {})"

lemma claimable_iff:
  "claimable res now allowed q j \<longleftrightarrow> j \<in> set (due_jobs now allowed q) \<and> res j \<inter> busy_resources res q = {}"
  by (cases allowed) (auto simp: claimable_def due_jobs_def busy_resources_def)

lemma select_claim_iff:
  "select_claim res now allowed q = None \<longleftrightarrow> (\<nexists>j. claimable res now allowed q j)"
  "select_claim res now allowed q = Some j \<Longrightarrow>
     claimable res now allowed q j \<and> (\<forall>k. claimable res now allowed q k \<longrightarrow> claim_order j \<le> claim_order k)"
proof -
  show "select_claim res now allowed q = None \<longleftrightarrow> (\<nexists>j. claimable res now allowed q j)"
    unfolding claimable_iff select_claim_def find_None_iff by blast
  assume a: "select_claim res now allowed q = Some j"
  then have "claimable res now allowed q j"
    unfolding claimable_iff select_claim_def by (auto simp: find_Some_iff)
  moreover have "claim_order j \<le> claim_order k" if "claimable res now allowed q k" for k
    using find_sorted_least[OF a[unfolded select_claim_def due_jobs_def]] that[unfolded claimable_iff]
    by (simp add: due_jobs_def)
  ultimately show "claimable res now allowed q j \<and> (\<forall>k. claimable res now allowed q k \<longrightarrow> claim_order j \<le> claim_order k)"
    by blast
qed

lemma replaced_none_pending:
  "\<not> list_ex (pending_with_key k) (jobs (update_where (pending_with_key k) (cancel_job t m) q))"
  by (auto simp: update_where_def list_ex_iff pending_with_key_def cancel_job_def)

lemma filter_none: "\<not> list_ex P xs \<Longrightarrow> filter P xs = []"
  by (auto simp: list_ex_iff filter_empty_conv)

definition finished :: "job \<Rightarrow> bool" where
  "finished j \<longleftrightarrow> job_status j \<in> {Completed, Failed, Canceled}"

lemma update_where_finished:
  assumes "j \<in> set (jobs q)" "finished j" "P j \<Longrightarrow> finished (f j) \<and> job_id (f j) = job_id j"
  shows "\<exists>j' \<in> set (jobs (update_where P f q)). job_id j' = job_id j \<and> finished j'"
  using assms unfolding update_where_def by (intro bexI[of _ "if P j then f j else j"]) auto

lemma enqueue_reachable:
  "reachable res q \<Longrightarrow> reachable res (snd (enqueue_background_job ty p run_at key rep skip n prio q))"
  by (erule reachable.Step) (rule queue_step.Enqueue, rule prod.collapse[symmetric])

lemma claim_next_reachable:
  assumes "reachable res q" "claiming q = None"
  shows "reachable res (snd (claim_next_background_job res w now allowed q)) \<and>
         claiming (snd (claim_next_background_job res w now allowed q)) = None"
proof (cases "select_claim res now allowed q")
  case None
  with assms show ?thesis by (simp add: claim_next_background_job_def)
next
  case (Some j)
  define q1 where "q1 = q\<lparr>claiming := Some (w, job_id j, now)\<rparr>"
  have "reachable res q1" unfolding q1_def by (rule reachable.Step[OF assms(1) queue_step.Claim_Begin[OF assms(2) Some]])
  then have "reachable res ((snd (commit_claim w (job_id j) now q1))\<lparr>claiming := None\<rparr>)"
    by (rule reachable.Step) (rule queue_step.Claim_End[OF _ prod.collapse[symmetric]], simp add: q1_def)
  moreover have "(snd (commit_claim w (job_id j) now q1))\<lparr>claiming := None\<rparr> = snd (commit_claim w (job_id j) now q)"
    using assms(2) by (cases q) (simp add: q1_def commit_claim_def update_where_def Let_def)
  moreover have "claiming (snd (commit_claim w (job_id j) now q)) = None"
    using assms(2) by (simp add: commit_claim_def update_where_def Let_def)
  ultimately show ?thesis by (simp add: claim_next_background_job_def Some)
qed

section \<open>Properties\<close>

definition demo_queue :: queue where
  "demo_queue =
     snd (enqueue_background_job SERVICE_TOGGLE [] 5 None False False 3 High
       (snd (enqueue_background_job TASK_RUN [(''task'', PStr ''sync_media'')] 5 (Some ''sync'') True True 3 Normal empty_queue)))"

lemma demo_reachable: "reachable res demo_queue"
  unfolding demo_queue_def
  by (intro enqueue_reachable reachable.Start)

text \<open>C23: running jobs exclude each other.  In every state the queue can reach, under any interleaving
  of enqueues, split claims, completions, failures, payload updates, cancellations and restarts,
  two running jobs hold no resource in common: no two tasks run at once, and no file operation runs
  beside a scan.\<close>

theorem running_jobs_share_no_resource:
  assumes "reachable (background_job_resources rt) q"
    and "j \<in> set (jobs q)" "k \<in> set (jobs q)" "job_status j = Running" "job_status k = Running" "job_id j \<noteq> job_id k"
  shows "background_job_resources rt j \<inter> background_job_resources rt k = {}"
  by (rule policy.running_disjoint[OF assms])

definition demo_running :: queue where
  "demo_running =
     (let q1 = snd (claim_next_background_job (background_job_resources demo_runtime) ''w'' 9 None demo_queue)
      in snd (claim_next_background_job (background_job_resources demo_runtime) ''v'' 9 None
           (snd (enqueue_background_job WEBHOOK_DELIVERY [(''endpoint_id'', PInt 4)] 6 None False False 1 High q1))))"

lemma demo_running_reachable: "reachable (background_job_resources demo_runtime) demo_running"
proof -
  define q1 where "q1 = snd (claim_next_background_job (background_job_resources demo_runtime) ''w'' 9 None demo_queue)"
  define q2 where "q2 = snd (enqueue_background_job WEBHOOK_DELIVERY [(''endpoint_id'', PInt 4)] 6 None False False 1 High q1)"
  have 1: "reachable (background_job_resources demo_runtime) q1 \<and> claiming q1 = None"
    unfolding q1_def by (rule claim_next_reachable[OF demo_reachable])
      (simp add: demo_queue_def enqueue_background_job_def insert_job_def update_where_def empty_queue_def Let_def)
  then have 2: "reachable (background_job_resources demo_runtime) q2"
    unfolding q2_def by (intro enqueue_reachable) simp
  have "claiming q2 = None" using 1 by (simp add: q2_def enqueue_background_job_def insert_job_def Let_def)
  with claim_next_reachable[OF 2] show ?thesis by (simp add: demo_running_def q1_def q2_def Let_def)
qed

lemma demo_running_jobs:
  "map (\<lambda>j. (job_id j, job_status j)) (jobs demo_running) = [(1, Pending), (2, Running), (3, Running)]"
  by code_simp

lemma running_jobs_share_no_resource_witness:
  "background_job_resources demo_runtime (jobs demo_running ! 1) \<inter> background_job_resources demo_runtime (jobs demo_running ! 2) = {}"
proof -
  have n: "length (jobs demo_running) = 3" using arg_cong[OF demo_running_jobs, of length] by simp
  have "(job_id (jobs demo_running ! i), job_status (jobs demo_running ! i)) = [(1, Pending), (2, Running), (3, Running)] ! i" if "i < 3" for i
    using demo_running_jobs n that by (metis nth_map)
  from this[of 1] this[of 2] n show ?thesis
    by (intro running_jobs_share_no_resource[OF demo_running_reachable]) simp_all
qed

text \<open>C31: a claim takes the right job.  A worker is given a job exactly when some due pending job of an
  allowed type needs no resource in use; it is the first such job by priority, then due time, then
  number; it becomes running under that worker with one more attempt, and no other job changes.\<close>

theorem claim_takes_first_claimable:
  assumes "ids_fresh q"
    and "claim_next_background_job res worker now allowed q = (r, q')"
  shows "case r of
           None \<Rightarrow> q' = q \<and> (\<nexists>j. claimable res now allowed q j)
         | Some j' \<Rightarrow> \<exists>j. claimable res now allowed q j \<and>
             (\<forall>k. claimable res now allowed q k \<longrightarrow> claim_order j \<le> claim_order k) \<and>
             j' = claim_job worker now j \<and>
             jobs q' = map (\<lambda>k. if job_id k = job_id j then j' else k) (jobs q)"
proof (cases "select_claim res now allowed q")
  case None
  with assms(2) select_claim_iff(1) show ?thesis by (auto simp: claim_next_background_job_def)
next
  case (Some j)
  note j = select_claim_iff(2)[OF Some]
  then have mem: "j \<in> set (jobs q)" "job_status j = Pending" by (auto simp: claimable_def)
  have other: "k = j" if "k \<in> set (jobs q)" "job_id k = job_id j" for k
    using assms(1) mem(1) that unfolding ids_fresh_def by (metis distinct_map inj_onD)
  let ?js = "map (\<lambda>k. if job_id k = job_id j \<and> job_status k = Pending then claim_job worker now k else k) (jobs q)"
  have js: "?js = map (\<lambda>k. if job_id k = job_id j then claim_job worker now j else k) (jobs q)"
    using other mem by (intro map_cong refl) auto
  have "list_ex (\<lambda>k. job_id k = job_id j \<and> job_status k = Pending) (jobs q)"
    using mem by (auto simp: list_ex_iff)
  then have r: "r = find (\<lambda>k. job_id k = job_id j) ?js" "jobs q' = ?js"
    using assms(2) Some by (auto simp: claim_next_background_job_def commit_claim_def update_where_def Let_def)
  have "map job_id ?js = map job_id (jobs q)" by (auto simp: claim_job_def)
  then have "distinct (map job_id ?js)" using assms(1) by (simp only: ids_fresh_def)
  moreover have "claim_job worker now j \<in> set ?js"
    unfolding set_map by (rule image_eqI[of _ _ j]) (use mem in auto)
  ultimately have "find (\<lambda>k. job_id k = job_id j) ?js = Some (claim_job worker now j)"
    by (intro find_unique) (simp_all add: claim_job_def)
  with r(1) have f: "r = Some (claim_job worker now j)" by (simp only:)
  show ?thesis unfolding f option.case using j r(2)[unfolded js] by blast
qed

lemma claim_takes_first_claimable_witness:
  "\<exists>j. claimable (background_job_resources demo_runtime) 9 None demo_queue j"
proof -
  have "ids_fresh demo_queue"
    using policy.reachable_inv[OF demo_reachable] by (simp add: queue_inv_def)
  moreover obtain r q' where c: "claim_next_background_job (background_job_resources demo_runtime) ''w'' 9 None demo_queue = (r, q')"
    by (rule prod.exhaust)
  moreover have "fst (claim_next_background_job (background_job_resources demo_runtime) ''w'' 9 None demo_queue) \<noteq> None"
    by code_simp
  then have "r \<noteq> None" by (simp add: c)
  ultimately show ?thesis
    using claim_takes_first_claimable[of demo_queue "background_job_resources demo_runtime" "''w''" 9 None r q']
    by (cases r) auto
qed

text \<open>C32: deduplication holds.  Enqueueing with \<open>skip_if_active\<close> never makes a second active job of a
  key, and refuses exactly when one is already active; enqueueing with \<open>replace_pending\<close> leaves the
  new job as the only pending one of its key.\<close>

theorem enqueue_deduplicates:
  assumes "enqueue_background_job ty p run_at (Some k) rep skip n prio q = (r, q')" "k \<noteq> []"
  shows "(skip \<longrightarrow> length (filter (active_with_key k) (jobs q)) \<le> 1 \<longrightarrow>
            length (filter (active_with_key k) (jobs q')) \<le> 1) \<and>
         (skip \<and> \<not> rep \<longrightarrow> (r = None \<longleftrightarrow> list_ex (active_with_key k) (jobs q))) \<and>
         (rep \<longrightarrow> (case r of None \<Rightarrow> q' = q | Some j \<Rightarrow> filter (pending_with_key k) (jobs q') = [j]))"
proof -
  define q1 where "q1 = (if rep then update_where (pending_with_key k) (cancel_job run_at ''Replaced by newer queued job'') q else q)"
  have e: "(if skip \<and> list_ex (active_with_key k) (jobs q1) then (None, q)
        else insert_job ty p run_at (Some k) n prio q1) = (r, q')"
    using assms unfolding enqueue_background_job_def Let_def q1_def by simp
  show ?thesis
  proof (cases "skip \<and> list_ex (active_with_key k) (jobs q1)")
    case True
    with e show ?thesis by (auto simp: q1_def)
  next
    case False
    with e obtain j where j: "r = Some j" "jobs q' = jobs q1 @ [j]" "pending_with_key k j" "active_with_key k j"
      by (auto simp: insert_job_def Let_def pending_with_key_def active_with_key_def)
    have "skip \<Longrightarrow> filter (active_with_key k) (jobs q1) = []" using False filter_none by blast
    moreover have "rep \<Longrightarrow> filter (pending_with_key k) (jobs q1) = []"
      unfolding q1_def using filter_none[OF replaced_none_pending] by simp
    ultimately show ?thesis using j False by (auto simp: q1_def)
  qed
qed

lemma enqueue_deduplicates_witness:
  "\<exists>j. filter (pending_with_key ''sync'')
     (jobs (snd (enqueue_background_job TASK_RUN [] 7 (Some ''sync'') True False 3 Normal demo_queue))) = [j]"
proof -
  obtain r q' where e: "enqueue_background_job TASK_RUN [] 7 (Some ''sync'') True False 3 Normal demo_queue = (r, q')"
    by (cases "enqueue_background_job TASK_RUN [] 7 (Some ''sync'') True False 3 Normal demo_queue")
  then have "r \<noteq> None" by (auto simp: enqueue_background_job_def insert_job_def Let_def)
  then obtain j where "r = Some j" by blast
  with enqueue_deduplicates[OF e] have "filter (pending_with_key ''sync'') (jobs q') = [j]" by simp
  with e show ?thesis by simp
qed

text \<open>Finished work stays finished.  No step makes a completed, failed or cancelled job pending or
  running again, and after the reset at start-up no job counts as running.\<close>

theorem finished_jobs_stay_finished:
  assumes "queue_step res q q'" "j \<in> set (jobs q)" "finished j"
  shows "\<exists>j' \<in> set (jobs q'). job_id j' = job_id j \<and> finished j'"
  using assms(1)
proof (cases rule: queue_step.cases)
  case (Enqueue ty p run_at key rep skip n prio r)
  then show ?thesis
  proof (cases rule: enqueue_cases)
    case (3 k)
    then show ?thesis
      using update_where_finished[OF assms(2,3), of "pending_with_key k" "cancel_job run_at ''Replaced by newer queued job''"]
      by (auto simp: insert_job_def Let_def finished_def cancel_job_def)
  qed (use assms(2,3) in \<open>auto simp: insert_job_def Let_def\<close>)
next
  case (Claim_End worker i now r q1)
  have "\<exists>j' \<in> set (jobs q1). job_id j' = job_id j \<and> finished j'"
    using Claim_End(3) assms(2,3) update_where_finished[OF assms(2,3), of "\<lambda>j. job_id j = i \<and> job_status j = Pending" "claim_job worker now"]
    by (auto simp: commit_claim_def Let_def finished_def split: if_splits)
  with Claim_End(1) show ?thesis by simp
next
  case (Complete i outcome now)
  then show ?thesis
    unfolding complete_background_job_def
    by (simp only:) (rule update_where_finished[OF assms(2,3)], simp add: finished_def)
next
  case (Fail i msg now)
  then show ?thesis
    unfolding fail_background_job_def
    by (simp only:) (rule update_where_finished[OF assms(2,3)], simp add: finished_def)
next
  case (Update updates i now)
  show ?thesis
    unfolding Update(1) update_background_job_payload_def
    by (rule update_where_finished[OF assms(2,3)]) (use assms(3) in \<open>simp add: finished_def\<close>)
next
  case (Cancel k reason now)
  then show ?thesis
    unfolding cancel_pending_background_jobs_by_dedupe_key_def
    by (simp only: snd_conv) (rule update_where_finished[OF assms(2,3)], simp add: finished_def cancel_job_def)
next
  case (Reset now)
  have "\<exists>j' \<in> set (jobs (snd (reset_stale_jobs now q))). job_id j' = job_id j \<and> finished j'"
    unfolding reset_stale_jobs_def snd_conv
    by (rule update_where_finished[OF assms(2,3)]) (simp add: finished_def)
  with Reset show ?thesis by simp
qed (use assms(2,3) in auto)

lemma finished_jobs_stay_finished_witness:
  "\<exists>j' \<in> set (jobs (fail_background_job 1 ''again'' 8 (fail_background_job 1 ''lost'' 7 demo_queue))). job_id j' = 1 \<and> finished j'"
proof -
  let ?q = "fail_background_job 1 ''lost'' 7 demo_queue"
  have "list_ex (\<lambda>j. job_id j = 1 \<and> job_status j = Failed) (jobs ?q)" by code_simp
  then obtain j where "j \<in> set (jobs ?q)" "job_id j = 1" "finished j" by (auto simp: list_ex_iff finished_def)
  then show ?thesis
    using finished_jobs_stay_finished[OF queue_step.Fail, of j ?q] by metis
qed

end
