(* ===== verification/Media.thy ===== *)
theory Media
  imports Auto_Delete Paths
begin

text \<open>
  What several parts know about a media file: the service enumeration
  (\<open>backend/enums/media.py\<close>) and the facts a media server reports about one physical file,
  the common columns of \<open>movie_versions\<close> and \<open>episode_versions\<close>
  (\<open>backend/database/models.py\<close>).
\<close>

datatype service =
  SONARR | RADARR | JELLYFIN | EMBY | PLEX | SEERR | TAUTULLI | TRACEARR | MDBLIST | OMDB

definition service_value :: "service \<Rightarrow> string" where
  "service_value s =
     (case s of SONARR \<Rightarrow> ''sonarr'' | RADARR \<Rightarrow> ''radarr'' | JELLYFIN \<Rightarrow> ''jellyfin'' | EMBY \<Rightarrow> ''emby''
      | PLEX \<Rightarrow> ''plex'' | SEERR \<Rightarrow> ''seerr'' | TAUTULLI \<Rightarrow> ''tautulli'' | TRACEARR \<Rightarrow> ''tracearr''
      | MDBLIST \<Rightarrow> ''mdblist'' | OMDB \<Rightarrow> ''omdb'')"

lemma service_value_inj: "service_value s = service_value t \<longleftrightarrow> s = t"
  by (cases s; cases t) (simp_all add: service_value_def)

text \<open>\<open>added_stamp\<close> is what \<open>added_at.timestamp()\<close> returns, in microseconds.\<close>

record file_facts =
  file_service :: service
  file_path :: "string option"
  file_size :: int
  added_stamp :: "int option"
  video_resolution :: "string option"
  video_width :: "int option"
  video_height :: "int option"
  video_codec_family :: "string option"
  video_hdr :: "bool option"
  video_dolby_vision :: "bool option"
  video_bitrate :: "int option"
  audio_codec_family :: "string option"
  audio_channels :: "int option"

text \<open>Python's \<open>x or 0\<close> on an optional number, and the truth of an optional Boolean.\<close>

definition or_zero :: "int option \<Rightarrow> int" where
  "or_zero x = (case x of None \<Rightarrow> 0 | Some i \<Rightarrow> i)"

definition is_true :: "bool option \<Rightarrow> bool" where
  "is_true x \<longleftrightarrow> x = Some True"

definition some_text :: "string option \<Rightarrow> bool" where
  "some_text x \<longleftrightarrow> (case x of None \<Rightarrow> False | Some s \<Rightarrow> s \<noteq> [])"

end
