(* ===== verification/Webhook_Delivery.thy ===== *)
theory Webhook_Delivery
  imports Candidate_Lifecycle Job_Queue Media
begin

text \<open>
  Durable webhook deliveries (\<open>backend/services/lifecycle_webhooks.py\<close>), the classification
  of an answer (\<open>backend/services/webhook_transport.py\<close>) and the admin's operations on
  endpoints and deliveries (\<open>backend/api/routes/settings/integrations.py\<close>).  An attempt
  is two transactions with the HTTP request in between, so it is two steps of the
  state machine: the endpoint can be deleted, or the delivery retried, while a
  request is in flight.  The HTTP exchange itself is an input.  Instants are integers
  (microseconds).
\<close>

section \<open>Deliveries\<close>

text \<open>\<open>status\<close> is one of \<open>pending\<close>, \<open>delivered\<close>, \<open>failed\<close>, \<open>canceled\<close>.\<close>

record delivery =
  delivery_id :: int
  delivery_event :: int
  delivery_endpoint :: int
  delivery_status :: string
  delivery_attempts :: nat
  next_attempt_at :: int
  last_status_code :: "int option"
  last_error :: "string option"
  delivered_at :: "int option"

record hook = endpoint +
  path_mode :: string

definition max_delivery_attempts :: nat where
  "max_delivery_attempts = 6"

definition second :: int where
  "second = 1000000"

definition retry_delays :: "int list" where
  "retry_delays = map (\<lambda>minutes. minutes * 60 * second) [1, 5, 30, 2 * 60, 12 * 60, 24 * 60]"

definition retryable :: "int option \<Rightarrow> bool" where
  "retryable status_code =
     (case status_code of None \<Rightarrow> True | Some c \<Rightarrow> c \<in> {408, 425, 429} \<or> c \<ge> 500)"

section \<open>The answer to a request\<close>

record send_result =
  sent_success :: bool
  sent_status :: "int option"
  sent_error :: "string option"
  retry_after_seconds :: "int option"

text \<open>
  What the exchange produced: a status, the excerpt of the body and the \<open>Retry-After\<close>
  header, or the text of the exception.  \<open>http_date\<close> is the standard library's parser of
  HTTP dates, as an instant.
\<close>

datatype exchange = Answered "int option" string "string option" | Failed_With string

definition parse_int :: "string \<Rightarrow> int option" where
  "parse_int text =
     (let (negative, digits) = take_sign (py_strip text)
      in case drop_underscores (CHR '' '') digits of
           None \<Rightarrow> None
         | Some ds \<Rightarrow> if ds \<noteq> [] \<and> list_all is_decimal ds
                     then Some (if negative then - digits_value ds else digits_value ds) else None)"

definition retry_after_of :: "(string \<Rightarrow> int option) \<Rightarrow> int \<Rightarrow> string option \<Rightarrow> int option" where
  "retry_after_of http_date now header =
     (if \<not> (case header of None \<Rightarrow> False | Some h \<Rightarrow> h \<noteq> []) then None
      else case parse_int (the header) of
             Some s \<Rightarrow> Some (max 0 s)
           | None \<Rightarrow> map_option (\<lambda>t. max 0 ((t - now) div second)) (http_date (the header)))"

definition read_exchange :: "(string \<Rightarrow> int option) \<Rightarrow> int \<Rightarrow> exchange \<Rightarrow> send_result" where
  "read_exchange http_date now e =
     (case e of
        Failed_With text \<Rightarrow>
          \<lparr>sent_success = False, sent_status = None, sent_error = Some text, retry_after_seconds = None\<rparr>
      | Answered answer body header \<Rightarrow>
          (let status_code = (case answer of None \<Rightarrow> 0 | Some c \<Rightarrow> c)
           in if 200 \<le> status_code \<and> status_code < 300
              then \<lparr>sent_success = True, sent_status = Some status_code, sent_error = None, retry_after_seconds = None\<rparr>
              else \<lparr>sent_success = False, sent_status = Some status_code,
                     sent_error = Some (''HTTP '' @ show_int status_code @ (if body = [] then [] else '': '' @ body)),
                     retry_after_seconds = retry_after_of http_date now header\<rparr>))"

section \<open>One attempt\<close>

text \<open>
  The path that a destination- or local-mode endpoint shows: the first truthy value in the
  order of the mode.  Python's \<open>or\<close> returns its last operand when none is truthy.
\<close>

definition py_or :: "pyval \<Rightarrow> pyval \<Rightarrow> pyval" where
  "py_or x y = (if truthy x then x else y)"

definition select_path :: "string \<Rightarrow> pyval dict \<Rightarrow> pyval dict" where
  "select_path mode message =
     (if mode = ''local'' \<or> mode = ''destination'' then
        (case dget message ''candidate'' of
           PDict candidate \<Rightarrow>
             (let local = py_or (dget candidate ''local_path'') (dget candidate ''path'');
                  path = (if mode = ''destination'' then py_or (dget candidate ''destination_path'') local else local)
              in dput ''path'' path (dput ''candidate'' (PDict (dput ''path'' path candidate)) message))
         | _ \<Rightarrow> message)
      else message)"

definition cancel_delivery :: "string \<Rightarrow> delivery \<Rightarrow> delivery" where
  "cancel_delivery reason d = d\<lparr>delivery_status := ''canceled'', last_error := Some reason\<rparr>"

text \<open>What follows the request: the new row and the status the job returns.\<close>

definition finish_delivery :: "int \<Rightarrow> send_result \<Rightarrow> delivery \<Rightarrow> delivery \<times> string" where
  "finish_delivery now r d =
     (let d = d\<lparr>delivery_attempts := delivery_attempts d + 1, last_status_code := sent_status r\<rparr>
      in if sent_success r
         then (d\<lparr>delivery_status := ''delivered'', delivered_at := Some now, last_error := None\<rparr>, ''delivered'')
         else let error = (if some_text (sent_error r) then the (sent_error r) else ''Webhook delivery failed'');
                  d = d\<lparr>last_error := Some (take 1000 error)\<rparr>
              in if \<not> retryable (last_status_code d) \<or> delivery_attempts d \<ge> max_delivery_attempts
                 then (d\<lparr>delivery_status := ''failed''\<rparr>, ''failed'')
                 else let delay = retry_delays ! min (delivery_attempts d - 1) (length retry_delays - 1);
                          delay = (case retry_after_seconds r of
                              None \<Rightarrow> delay
                            | Some s \<Rightarrow> if s \<ge> 0 then min s (24 * 60 * 60) * second else delay)
                      in (d\<lparr>next_attempt_at := now + delay\<rparr>, ''retrying''))"

section \<open>The tables and the transactions on them\<close>

record webhooks =
  delivery_table :: "delivery list"
  hook_table :: "hook list"
  event_table :: "(int \<times> pyval dict) list"
  in_flight :: "(int \<times> int) list"

text \<open>\<open>in_flight\<close> lists the attempts whose request is under way, with the instant they started at.\<close>

definition find_delivery :: "int \<Rightarrow> webhooks \<Rightarrow> delivery option" where
  "find_delivery i w = find (\<lambda>d. delivery_id d = i) (delivery_table w)"

definition update_deliveries :: "(delivery \<Rightarrow> bool) \<Rightarrow> (delivery \<Rightarrow> delivery) \<Rightarrow> webhooks \<Rightarrow> webhooks" where
  "update_deliveries P f w = w\<lparr>delivery_table := map (\<lambda>d. if P d then f d else d) (delivery_table w)\<rparr>"

definition active_hook :: "int \<Rightarrow> webhooks \<Rightarrow> hook option" where
  "active_hook i w =
     find (\<lambda>h. endpoint_id h = i \<and> endpoint_enabled h \<and> \<not> endpoint_deleted h) (hook_table w)"

definition begin_attempt :: "int \<Rightarrow> int \<Rightarrow> webhooks \<Rightarrow> (string + hook \<times> pyval dict) \<times> webhooks" where
  "begin_attempt now i w =
     (case find_delivery i w of
        None \<Rightarrow> (Inl ''missing'', w)
      | Some d \<Rightarrow>
          if delivery_status d \<noteq> ''pending'' then (Inl (delivery_status d), w)
          else (case (map_of (event_table w) (delivery_event d), active_hook (delivery_endpoint d) w) of
                  (Some message, Some h) \<Rightarrow> (Inr (h, select_path (path_mode h) message), w\<lparr>in_flight := (i, now) # in_flight w\<rparr>)
                | _ \<Rightarrow> (Inl ''canceled'',
                        update_deliveries (\<lambda>d. delivery_id d = i) (cancel_delivery ''Webhook endpoint is no longer active'') w)))"

definition finish_attempt :: "int \<Rightarrow> int \<Rightarrow> send_result \<Rightarrow> webhooks \<Rightarrow> string \<times> webhooks" where
  "finish_attempt now i r w =
     (let w = w\<lparr>in_flight := remove1 (i, now) (in_flight w)\<rparr>
      in case find_delivery i w of
           None \<Rightarrow> (''missing'', w)
         | Some d \<Rightarrow> (snd (finish_delivery now r d),
                      update_deliveries (\<lambda>d. delivery_id d = i) (\<lambda>d. fst (finish_delivery now r d)) w))"

definition delete_webhook_endpoint :: "int \<Rightarrow> webhooks \<Rightarrow> bool \<times> webhooks" where
  "delete_webhook_endpoint e w =
     (if \<not> list_ex (\<lambda>h. endpoint_id h = e \<and> \<not> endpoint_deleted h) (hook_table w) then (False, w)
      else (True,
        update_deliveries (\<lambda>d. delivery_endpoint d = e \<and> delivery_status d = ''pending'')
          (cancel_delivery ''Webhook endpoint was deleted'')
          (w\<lparr>hook_table := map (\<lambda>h. if endpoint_id h = e then h\<lparr>endpoint_enabled := False, endpoint_deleted := True\<rparr> else h)
               (hook_table w)\<rparr>)))"

definition restart_delivery :: "int \<Rightarrow> delivery \<Rightarrow> delivery" where
  "restart_delivery now d =
     d\<lparr>delivery_status := ''pending'', delivery_attempts := 0, next_attempt_at := now, last_error := None,
       last_status_code := None, delivered_at := None\<rparr>"

text \<open>The transaction of a retry; the answer is the HTTP status.\<close>

definition retry_webhook_delivery :: "int \<Rightarrow> int \<Rightarrow> webhooks \<Rightarrow> nat \<times> webhooks" where
  "retry_webhook_delivery now i w =
     (case find_delivery i w of
        None \<Rightarrow> (404, w)
      | Some d \<Rightarrow>
          if map_of (event_table w) (delivery_event d) = None \<or>
             \<not> list_ex (\<lambda>h. endpoint_id h = delivery_endpoint d) (hook_table w) then (404, w)
          else if active_hook (delivery_endpoint d) w = None then (409, w)
          else (200, update_deliveries (\<lambda>d. delivery_id d = i) (restart_delivery now) w))"

definition new_delivery :: "int \<Rightarrow> int \<Rightarrow> int \<Rightarrow> int \<Rightarrow> delivery" where
  "new_delivery now i event e =
     \<lparr>delivery_id = i, delivery_event = event, delivery_endpoint = e, delivery_status = ''pending'',
      delivery_attempts = 0, next_attempt_at = now, last_status_code = None, last_error = None, delivered_at = None\<rparr>"

section \<open>Jobs for deliveries\<close>

definition delivery_key :: "int \<Rightarrow> string" where
  "delivery_key i = ''webhook-delivery:'' @ show_int i"

definition enqueue_delivery :: "webhooks \<Rightarrow> int \<Rightarrow> int \<Rightarrow> int option \<Rightarrow> queue \<Rightarrow> queue" where
  "enqueue_delivery w i run_at endpoint q =
     (let endpoint = (case endpoint of None \<Rightarrow> map_option delivery_endpoint (find_delivery i w) | Some e \<Rightarrow> Some e)
      in snd (enqueue_background_job WEBHOOK_DELIVERY
           [(''delivery_id'', PInt i), (''endpoint_id'', case endpoint of None \<Rightarrow> PNone | Some e \<Rightarrow> PInt e)]
           run_at (Some (delivery_key i)) True False 1 High q))"

text \<open>Which deliveries the queue takes is \<open>takes\<close>: an enqueue that raises is logged, its transaction is undone and the loop goes on.\<close>

definition enqueue_all :: "(int \<Rightarrow> bool) \<Rightarrow> webhooks \<Rightarrow> delivery list \<Rightarrow> queue \<Rightarrow> queue" where
  "enqueue_all takes w ds q =
     foldl (\<lambda>q d. if takes (delivery_id d)
                   then enqueue_delivery w (delivery_id d) (next_attempt_at d) (Some (delivery_endpoint d)) q else q) q ds"

definition enqueue_event_deliveries :: "(int \<Rightarrow> bool) \<Rightarrow> webhooks \<Rightarrow> int \<Rightarrow> queue \<Rightarrow> queue" where
  "enqueue_event_deliveries takes w event q =
     enqueue_all takes w (filter (\<lambda>d. delivery_event d = event \<and> delivery_status d = ''pending'') (delivery_table w)) q"

definition recover_pending_webhook_deliveries :: "(int \<Rightarrow> bool) \<Rightarrow> webhooks \<Rightarrow> queue \<Rightarrow> nat \<times> queue" where
  "recover_pending_webhook_deliveries takes w q =
     (let ds = filter (\<lambda>d. delivery_status d = ''pending'') (delivery_table w)
      in (length ds, enqueue_all takes w ds q))"

text \<open>The whole job when nothing interferes: the answer depends on what is sent.\<close>

definition run_webhook_delivery_job ::
  "(string \<Rightarrow> int option) \<Rightarrow> (hook \<Rightarrow> pyval dict \<Rightarrow> exchange) \<Rightarrow> int \<Rightarrow> int \<Rightarrow> webhooks \<Rightarrow> queue \<Rightarrow> string \<times> webhooks \<times> queue" where
  "run_webhook_delivery_job http_date server now i w q =
     (case begin_attempt now i w of
        (Inl outcome, w) \<Rightarrow> (outcome, w, q)
      | (Inr (h, message), w) \<Rightarrow>
          (case finish_attempt now i (read_exchange http_date now (server h message)) w of
             (outcome, w) \<Rightarrow>
               (outcome, w,
                if outcome = ''retrying''
                then (case find_delivery i w of
                        None \<Rightarrow> q
                      | Some d \<Rightarrow> enqueue_delivery w i (next_attempt_at d) (Some (delivery_endpoint d)) q)
                else q)))"

section \<open>All interleavings\<close>

text \<open>
  The queue's exclusion keeps two attempts of one delivery from overlapping: their jobs hold
  the resource of its endpoint.  Nothing else is assumed about the order of steps.
\<close>

inductive hook_step :: "webhooks \<Rightarrow> webhooks \<Rightarrow> bool" where
  Record: "delivery_id d \<notin> delivery_id ` set (delivery_table w) \<Longrightarrow> d = new_delivery now i event e \<Longrightarrow>
     hook_step w (w\<lparr>delivery_table := delivery_table w @ [d], event_table := dput event message (event_table w)\<rparr>)"
| Begin: "i \<notin> fst ` set (in_flight w) \<Longrightarrow> begin_attempt now i w = (r, w') \<Longrightarrow> hook_step w w'"
| Finish: "(i, now) \<in> set (in_flight w) \<Longrightarrow> finish_attempt now i r w = (out, w') \<Longrightarrow> hook_step w w'"
| Delete: "delete_webhook_endpoint e w = (r, w') \<Longrightarrow> hook_step w w'"
| Retry: "retry_webhook_delivery now i w = (n, w') \<Longrightarrow> hook_step w w'"
| Restart: "hook_step w (w\<lparr>in_flight := []\<rparr>)"
| Configure: "hook_step w (w\<lparr>hook_table := hooks\<rparr>)"

inductive hook_reachable :: "webhooks \<Rightarrow> bool" where
  Start: "hook_reachable \<lparr>delivery_table = [], hook_table = [], event_table = [], in_flight = []\<rparr>"
| Step: "hook_reachable w \<Longrightarrow> hook_step w w' \<Longrightarrow> hook_reachable w'"

inductive_cases hook_stepE: "hook_step w w'"

section \<open>One delivery\<close>

lemma finish_facts:
  "delivery_id (fst (finish_delivery now r d)) = delivery_id d"
  "delivery_attempts (fst (finish_delivery now r d)) = Suc (delivery_attempts d)"
  "delivery_endpoint (fst (finish_delivery now r d)) = delivery_endpoint d"
  by (simp_all add: finish_delivery_def Let_def split: option.splits)

lemma finish_outcome:
  "snd (finish_delivery now r d) =
     (if sent_success r then ''delivered''
      else if retryable (sent_status r) \<and> Suc (delivery_attempts d) < max_delivery_attempts then ''retrying'' else ''failed'')"
  by (simp add: finish_delivery_def Let_def not_less)

lemma finish_status:
  "delivery_status (fst (finish_delivery now r d)) =
     (if snd (finish_delivery now r d) = ''retrying'' then delivery_status d else snd (finish_delivery now r d))"
  by (simp add: finish_delivery_def Let_def)

definition delivery_ok :: "delivery \<Rightarrow> bool" where
  "delivery_ok d \<longleftrightarrow>
     delivery_status d \<in> {''pending'', ''delivered'', ''failed'', ''canceled''} \<and>
     delivery_attempts d \<le> max_delivery_attempts \<and>
     (delivery_status d = ''pending'' \<longrightarrow> delivery_attempts d < max_delivery_attempts) \<and>
     (delivery_status d = ''delivered'' \<longleftrightarrow> delivered_at d \<noteq> None) \<and>
     (delivery_status d = ''delivered'' \<longrightarrow> last_error d = None) \<and>
     (delivery_status d \<in> {''failed'', ''canceled''} \<longrightarrow> last_error d \<noteq> None)"

text \<open>An attempt can only be under way for a delivery that was pending when it began.\<close>

definition attempt_ok :: "delivery \<Rightarrow> bool" where
  "attempt_ok d \<longleftrightarrow> delivery_status d \<in> {''pending'', ''canceled''} \<and> delivery_attempts d < max_delivery_attempts"

lemma finish_ok: "delivery_ok d \<Longrightarrow> attempt_ok d \<Longrightarrow> delivery_ok (fst (finish_delivery now r d))"
  by (auto simp: delivery_ok_def attempt_ok_def finish_delivery_def Let_def)

lemma cancel_ok:
  "delivery_ok d \<Longrightarrow> delivery_status d = ''pending'' \<Longrightarrow> delivery_ok (cancel_delivery m d)"
  "delivery_status d = ''pending'' \<Longrightarrow> delivery_ok d \<Longrightarrow> attempt_ok (cancel_delivery m d)"
  by (auto simp: delivery_ok_def attempt_ok_def cancel_delivery_def)

lemma restart_ok: "delivery_ok (restart_delivery now d)" "attempt_ok (restart_delivery now d)"
  by (simp_all add: delivery_ok_def attempt_ok_def restart_delivery_def max_delivery_attempts_def)

lemma new_ok: "delivery_ok (new_delivery now i event e)"
  by (simp add: delivery_ok_def new_delivery_def max_delivery_attempts_def)

section \<open>The state machine\<close>

definition hooks_inv :: "webhooks \<Rightarrow> bool" where
  "hooks_inv w \<longleftrightarrow>
     distinct (map delivery_id (delivery_table w)) \<and> distinct (map fst (in_flight w)) \<and>
     (\<forall>d \<in> set (delivery_table w). delivery_ok d \<and> (delivery_id d \<in> fst ` set (in_flight w) \<longrightarrow> attempt_ok d))"

lemma find_delivery_iff:
  "distinct (map delivery_id (delivery_table w)) \<Longrightarrow>
     find_delivery i w = Some d \<longleftrightarrow> d \<in> set (delivery_table w) \<and> delivery_id d = i"
proof (rule iffI)
  assume d: "distinct (map delivery_id (delivery_table w))"
  { assume "find_delivery i w = Some d"
    then show "d \<in> set (delivery_table w) \<and> delivery_id d = i" by (auto simp: find_delivery_def find_Some_iff) }
  assume "d \<in> set (delivery_table w) \<and> delivery_id d = i"
  with d show "find_delivery i w = Some d" unfolding find_delivery_def by (intro find_unique) auto
qed

lemma update_deliveries_inv:
  assumes "hooks_inv w"
    and "\<And>d. d \<in> set (delivery_table w) \<Longrightarrow> P d \<Longrightarrow>
       delivery_id (f d) = delivery_id d \<and> delivery_ok (f d) \<and> (delivery_id d \<in> fst ` set (in_flight w) \<longrightarrow> attempt_ok (f d))"
  shows "hooks_inv (update_deliveries P f w)"
proof -
  define g where "g d = (if P d then f d else d)" for d
  have g: "delivery_id (g d) = delivery_id d" "delivery_ok (g d)"
      "delivery_id d \<in> fst ` set (in_flight w) \<Longrightarrow> attempt_ok (g d)" if "d \<in> set (delivery_table w)" for d
    using assms that unfolding g_def hooks_inv_def by (cases "P d"; simp)+
  then have "map delivery_id (map g (delivery_table w)) = map delivery_id (delivery_table w)" by simp
  with g assms(1) have "hooks_inv (w\<lparr>delivery_table := map g (delivery_table w)\<rparr>)"
    by (simp add: hooks_inv_def del: map_map)
  then show ?thesis by (simp add: update_deliveries_def g_def[abs_def])
qed

lemma hooks_inv_frame:
  "hooks_inv w \<Longrightarrow> hooks_inv (w\<lparr>hook_table := hs\<rparr>)" "hooks_inv w \<Longrightarrow> hooks_inv (w\<lparr>event_table := es\<rparr>)"
  "hooks_inv w \<Longrightarrow> hooks_inv (w\<lparr>in_flight := []\<rparr>)"
  by (auto simp: hooks_inv_def)

lemma remove1_in_flight:
  "distinct (map fst xs) \<Longrightarrow> (i, t) \<in> set xs \<Longrightarrow> fst ` set (remove1 (i, t) xs) = fst ` set xs - {i}"
  by (induction xs) (auto simp: image_iff)

lemma distinct_map_remove1: "distinct (map f xs) \<Longrightarrow> distinct (map f (remove1 x xs))"
  using set_remove1_subset[of x] by (induction xs) auto

lemma hook_step_inv:
  assumes "hook_step w w'" "hooks_inv w"
  shows "hooks_inv w'"
  using assms(1)
proof (cases rule: hook_step.cases)
  case (Record d now i event e message)
  have "delivery_ok d" unfolding Record(3) by (rule new_ok)
  moreover have "attempt_ok d"
    unfolding Record(3) by (simp add: attempt_ok_def new_delivery_def max_delivery_attempts_def)
  ultimately show ?thesis using Record(1,2) assms(2) by (auto simp: hooks_inv_def)
next
  case (Begin i now r)
  show ?thesis
  proof (cases "find_delivery i w")
    case None
    with Begin(2) assms(2) show ?thesis by (simp add: begin_attempt_def)
  next
    case (Some d)
    have d: "d \<in> set (delivery_table w)" "delivery_id d = i" "delivery_ok d"
      using Some assms(2) by (auto simp: find_delivery_iff hooks_inv_def)
    have only: "x = d" if "x \<in> set (delivery_table w)" "delivery_id x = i" for x
      using that d assms(2) by (metis distinct_map hooks_inv_def inj_onD)
    consider "w' = w" | "delivery_status d = ''pending''" "w' = w\<lparr>in_flight := (i, now) # in_flight w\<rparr>"
      | "delivery_status d = ''pending''"
        "w' = update_deliveries (\<lambda>d. delivery_id d = i) (cancel_delivery ''Webhook endpoint is no longer active'') w"
      using Begin(2) Some unfolding begin_attempt_def by (auto split: if_splits option.splits)
    then show ?thesis
    proof cases
      case 1
      with assms(2) show ?thesis by simp
    next
      case 2
      have "attempt_ok d" using 2(1) d(3) by (simp add: attempt_ok_def delivery_ok_def)
      then have "attempt_ok x" if "x \<in> set (delivery_table w)" "delivery_id x = i" for x
        using only[OF that] by simp
      with 2(2) Begin(1) assms(2) show ?thesis by (simp add: hooks_inv_def)
    next
      case 3
      show ?thesis unfolding 3(2)
      proof (rule update_deliveries_inv[OF assms(2)])
        fix x assume "x \<in> set (delivery_table w)" "delivery_id x = i"
        then have "x = d" by (rule only)
        with 3(1) d(3) cancel_ok show "delivery_id (cancel_delivery ''Webhook endpoint is no longer active'' x) = delivery_id x \<and>
            delivery_ok (cancel_delivery ''Webhook endpoint is no longer active'' x) \<and>
            (delivery_id x \<in> fst ` set (in_flight w) \<longrightarrow> attempt_ok (cancel_delivery ''Webhook endpoint is no longer active'' x))"
          by (simp add: cancel_delivery_def)
      qed
    qed
  qed
next
  case (Finish i now r out)
  define w1 where "w1 = w\<lparr>in_flight := remove1 (i, now) (in_flight w)\<rparr>"
  have flying: "fst ` set (in_flight w1) = fst ` set (in_flight w) - {i}"
    using Finish(1) assms(2) unfolding w1_def hooks_inv_def by (simp add: remove1_in_flight)
  have "distinct (map fst (in_flight w1))"
    using assms(2) by (simp add: w1_def hooks_inv_def distinct_map_remove1)
  with flying assms(2) have w1: "hooks_inv w1" by (simp add: hooks_inv_def w1_def)
  show ?thesis
  proof (cases "find_delivery i w1")
    case None
    with Finish(2) w1 show ?thesis by (simp add: finish_attempt_def w1_def[symmetric])
  next
    case (Some d)
    have "delivery_ok x \<and> attempt_ok x" if "x \<in> set (delivery_table w1)" "delivery_id x = i" for x
      using that assms(2) imageI[OF Finish(1), of fst] unfolding hooks_inv_def w1_def by simp
    then have "hooks_inv (update_deliveries (\<lambda>d. delivery_id d = i) (\<lambda>d. fst (finish_delivery now r d)) w1)"
      by (intro update_deliveries_inv[OF w1]) (simp add: finish_facts finish_ok flying)
    with Finish(2) Some show ?thesis by (auto simp: finish_attempt_def w1_def[symmetric])
  qed
next
  case (Delete e r)
  show ?thesis
  proof (cases "list_ex (\<lambda>h. endpoint_id h = e \<and> \<not> endpoint_deleted h) (hook_table w)")
    case False
    with Delete assms(2) show ?thesis by (simp add: delete_webhook_endpoint_def)
  next
    case True
    let ?w = "w\<lparr>hook_table := map (\<lambda>h. if endpoint_id h = e then h\<lparr>endpoint_enabled := False, endpoint_deleted := True\<rparr> else h) (hook_table w)\<rparr>"
    have "hooks_inv ?w" using assms(2) by (simp add: hooks_inv_def)
    then have "hooks_inv (update_deliveries (\<lambda>d. delivery_endpoint d = e \<and> delivery_status d = ''pending'')
        (cancel_delivery ''Webhook endpoint was deleted'') ?w)"
      by (rule update_deliveries_inv) (use \<open>hooks_inv ?w\<close> in \<open>simp add: hooks_inv_def cancel_ok\<close>, simp add: cancel_delivery_def)
    with Delete True show ?thesis by (simp add: delete_webhook_endpoint_def)
  qed
next
  case (Retry now i n)
  have "hooks_inv (update_deliveries (\<lambda>d. delivery_id d = i) (restart_delivery now) w)"
    by (rule update_deliveries_inv[OF assms(2)]) (simp add: restart_ok, simp add: restart_delivery_def)
  with Retry assms(2) show ?thesis
    by (auto simp: retry_webhook_delivery_def split: option.splits if_splits)
qed (use assms(2) hooks_inv_frame in auto)

lemma hook_reachable_inv: "hook_reachable w \<Longrightarrow> hooks_inv w"
proof (induction rule: hook_reachable.induct)
  case Start
  show ?case by (simp add: hooks_inv_def)
next
  case (Step w w')
  then show ?case by (blast intro: hook_step_inv)
qed

text \<open>C40: a delivery's row tells the truth.  In every reachable state, under any interleaving of attempts,
  deletions of endpoints, retries and restarts, a delivery has had at most six attempts since it
  was last started, fewer while it is pending; it is marked delivered exactly when it has a time
  of delivery, and then shows no error; a failed or cancelled one shows its error; and only a delivery
  that was pending when its request went out is ever under way.\<close>

theorem delivery_rows_coherent:
  assumes "hook_reachable w" "d \<in> set (delivery_table w)"
  shows "delivery_attempts d \<le> max_delivery_attempts \<and>
         (delivery_status d = ''pending'' \<longrightarrow> delivery_attempts d < max_delivery_attempts) \<and>
         (delivery_status d = ''delivered'' \<longleftrightarrow> delivered_at d \<noteq> None) \<and>
         (delivery_status d = ''delivered'' \<longrightarrow> last_error d = None) \<and>
         (delivery_status d \<in> {''failed'', ''canceled''} \<longrightarrow> last_error d \<noteq> None) \<and>
         (delivery_id d \<in> fst ` set (in_flight w) \<longrightarrow> delivery_status d \<in> {''pending'', ''canceled''})"
  using hook_reachable_inv[OF assms(1)] assms(2) unfolding hooks_inv_def delivery_ok_def attempt_ok_def by blast

definition demo_hook :: hook where
  "demo_hook = endpoint.extend demo_endpoint \<lparr>path_mode = ''local''\<rparr>"

definition demo_webhooks :: webhooks where
  "demo_webhooks =
     \<lparr>delivery_table = [new_delivery 5 1 3 9], hook_table = [demo_hook], event_table = [(3, [(''type'', PStr ''x'')])], in_flight = []\<rparr>"

lemma demo_webhooks_reachable: "hook_reachable demo_webhooks"
proof -
  let ?w = "\<lparr>delivery_table = [], hook_table = [demo_hook], event_table = [], in_flight = []\<rparr>"
  have "hook_reachable ?w"
    using hook_reachable.Step[OF hook_reachable.Start hook_step.Configure[of _ "[demo_hook]"]] by simp
  from hook_reachable.Step[OF this hook_step.Record[of "new_delivery 5 1 3 9" ?w 5 1 3 9 "[(''type'', PStr ''x'')]"]]
  show ?thesis by (simp add: demo_webhooks_def)
qed

definition demo_retried :: webhooks where
  "demo_retried =
     snd (finish_attempt 5 1 (read_exchange (\<lambda>_. None) 5 (Answered (Some 503) ''busy'' (Some ''90''))) (snd (begin_attempt 5 1 demo_webhooks)))"

lemma demo_retried_reachable: "hook_reachable demo_retried"
proof -
  have b: "hook_reachable (snd (begin_attempt 5 1 demo_webhooks))"
    by (rule hook_reachable.Step[OF demo_webhooks_reachable hook_step.Begin[OF _ prod.collapse[symmetric]]])
      (simp add: demo_webhooks_def)
  have "(1, 5) \<in> set (in_flight (snd (begin_attempt 5 1 demo_webhooks)))" by code_simp
  from hook_reachable.Step[OF b hook_step.Finish[OF this prod.collapse[symmetric]]] show ?thesis
    unfolding demo_retried_def .
qed

lemma demo_retried_row:
  "map (\<lambda>d. (delivery_status d, delivery_attempts d, next_attempt_at d)) (delivery_table demo_retried) = [(''pending'', 1, 5 + 90 * second)]"
  by code_simp

lemma delivery_rows_coherent_witness:
  "\<exists>d \<in> set (delivery_table demo_retried). delivery_status d = ''pending'' \<and> delivered_at d = None"
proof -
  obtain d where d: "delivery_table demo_retried = [d]" "delivery_status d = ''pending''"
    using demo_retried_row by (auto simp: map_eq_Cons_conv)
  then have "d \<in> set (delivery_table demo_retried)" by simp
  from delivery_rows_coherent[OF demo_retried_reachable this] d show ?thesis by auto
qed

section \<open>Every delivery settles\<close>

text \<open>The attempts of a delivery, each with its instant and answer, as long as it is pending.\<close>

fun deliver :: "(int \<times> send_result) list \<Rightarrow> delivery \<Rightarrow> delivery" where
  "deliver [] d = d"
| "deliver ((now, r) # rs) d =
     (if delivery_status d \<noteq> ''pending'' then d else deliver rs (fst (finish_delivery now r d)))"

lemma deliver_settled: "delivery_status d \<noteq> ''pending'' \<Longrightarrow> deliver rs d = d"
  by (cases rs) auto

text \<open>The answers are read in order, up to the attempts that are left.\<close>

definition accepted_within :: "nat \<Rightarrow> (int \<times> send_result) list \<Rightarrow> bool" where
  "accepted_within n rs \<longleftrightarrow>
     (\<exists>k < min n (length rs). sent_success (snd (rs ! k)) \<and>
        (\<forall>j < k. \<not> sent_success (snd (rs ! j)) \<and> retryable (sent_status (snd (rs ! j)))))"

lemma accepted_within_Cons:
  "accepted_within (Suc n) ((t, r) # rs) \<longleftrightarrow>
     sent_success r \<or> retryable (sent_status r) \<and> accepted_within n rs"
proof
  assume "accepted_within (Suc n) ((t, r) # rs)"
  then obtain k where k: "k < Suc (min n (length rs))" "sent_success (snd (((t, r) # rs) ! k))"
    "\<And>j. j < k \<Longrightarrow> \<not> sent_success (snd (((t, r) # rs) ! j)) \<and> retryable (sent_status (snd (((t, r) # rs) ! j)))"
    by (auto simp: accepted_within_def)
  show "sent_success r \<or> retryable (sent_status r) \<and> accepted_within n rs"
  proof (cases k)
    case (Suc m)
    with k(1,2) k(3)[of 0] k(3)[of "Suc j" for j] show ?thesis
      unfolding accepted_within_def by (intro disjI2 conjI exI[of _ m]) auto
  qed (use k(2) in simp)
next
  assume "sent_success r \<or> retryable (sent_status r) \<and> accepted_within n rs"
  then show "accepted_within (Suc n) ((t, r) # rs)"
  proof (cases "sent_success r")
    case False
    assume "sent_success r \<or> retryable (sent_status r) \<and> accepted_within n rs"
    with False obtain k where "k < min n (length rs)" "sent_success (snd (rs ! k))"
      "\<forall>j < k. \<not> sent_success (snd (rs ! j)) \<and> retryable (sent_status (snd (rs ! j)))" "retryable (sent_status r)"
      by (auto simp: accepted_within_def)
    with False show ?thesis
      unfolding accepted_within_def by (intro exI[of _ "Suc k"]) (auto simp: less_Suc_eq_0_disj)
  qed (auto simp: accepted_within_def)
qed

text \<open>C38: every delivery settles.  Whatever the servers answer, a pending delivery is settled after at most
  the attempts it has left: then it is delivered if one of those answers accepts it and every answer
  before was worth retrying, and failed if not.\<close>

theorem delivery_settles:
  assumes "delivery_status d = ''pending''" "delivery_attempts d < max_delivery_attempts"
    and "length rs \<ge> max_delivery_attempts - delivery_attempts d"
  shows "delivery_status (deliver rs d) =
           (if accepted_within (max_delivery_attempts - delivery_attempts d) rs then ''delivered'' else ''failed'') \<and>
         delivery_attempts (deliver rs d) \<le> max_delivery_attempts"
  using assms
proof (induction rs arbitrary: d)
  case (Cons x rs)
  obtain now r where x: "x = (now, r)" by (cases x)
  define d1 where "d1 = fst (finish_delivery now r d)"
  define n where "n = max_delivery_attempts - Suc (delivery_attempts d)"
  have n: "max_delivery_attempts - delivery_attempts d = Suc n" using Cons.prems(2) by (simp add: n_def)
  have d1: "delivery_attempts d1 = Suc (delivery_attempts d)"
    "delivery_status d1 = (if sent_success r then ''delivered'' else if retryable (sent_status r) \<and> n \<noteq> 0 then ''pending'' else ''failed'')"
    using Cons.prems(1,2) by (auto simp: d1_def n_def finish_facts finish_status finish_outcome)
  have step: "deliver (x # rs) d = deliver rs d1" using Cons.prems(1) by (simp add: x d1_def)
  show ?case
  proof (cases "delivery_status d1 = ''pending''")
    case False
    then have "deliver rs d1 = d1" by (rule deliver_settled)
    moreover have "\<not> accepted_within 0 rs" by (simp add: accepted_within_def)
    ultimately show ?thesis
      unfolding step n unfolding x accepted_within_Cons using False d1 Cons.prems(2) by (cases "n = 0") auto
  next
    case True
    then have r: "\<not> sent_success r" "retryable (sent_status r)" "n \<noteq> 0" using d1(2) by (auto split: if_splits)
    then have "delivery_attempts d1 < max_delivery_attempts" "max_delivery_attempts - delivery_attempts d1 = n"
      by (auto simp: d1(1) n_def)
    with Cons.IH[OF True] Cons.prems(3) n show ?thesis
      unfolding step n unfolding x accepted_within_Cons by (simp add: r)
  qed
qed simp

lemma delivery_settles_witness:
  "delivery_status (deliver
     [(1, read_exchange (\<lambda>_. None) 1 (Failed_With ''refused'')), (9, read_exchange (\<lambda>_. None) 9 (Answered (Some 200) [] None)),
      (10, read_exchange (\<lambda>_. None) 10 (Answered (Some 404) [] None))]
     ((new_delivery 0 1 3 9)\<lparr>delivery_attempts := 3\<rparr>)) = ''delivered''"
proof -
  let ?rs = "[(1, read_exchange (\<lambda>_. None) 1 (Failed_With ''refused'')), (9, read_exchange (\<lambda>_. None) 9 (Answered (Some 200) [] None)),
      (10, read_exchange (\<lambda>_. None) 10 (Answered (Some 404) [] None))] :: (int \<times> send_result) list"
  have "accepted_within 3 ?rs"
    by (simp add: numeral_3_eq_3 accepted_within_Cons read_exchange_def retryable_def)
  then show ?thesis
    using delivery_settles[of "(new_delivery 0 1 3 9)\<lparr>delivery_attempts := 3\<rparr>" ?rs]
    by (simp add: new_delivery_def max_delivery_attempts_def)
qed

text \<open>Retries back off.  A retry waits as long as the server asks for, at most a day; when the server does not
  ask it waits one, five, thirty, 120 or 720 minutes, longer after each attempt, and never runs past the
  table of delays.\<close>

theorem retries_back_off:
  assumes "finish_delivery now r d = (d', ''retrying'')"
  shows "next_attempt_at d' =
           (case retry_after_seconds r of
              Some s \<Rightarrow> if s \<ge> 0 then now + min s 86400 * second
                       else now + [60, 300, 1800, 7200, 43200] ! delivery_attempts d * second
            | None \<Rightarrow> now + [60, 300, 1800, 7200, 43200] ! delivery_attempts d * second) \<and>
         now \<le> next_attempt_at d' \<and> next_attempt_at d' \<le> now + 86400 * second \<and>
         delivery_attempts d < 5 \<and> delivery_status d' = delivery_status d"
proof -
  have "delivery_attempts d < 5"
    using assms finish_outcome[of now r d] by (simp add: max_delivery_attempts_def split: if_splits)
  then have a: "delivery_attempts d \<in> {0, 1, 2, 3, 4}" by auto
  have "\<not> sent_success r" using assms finish_outcome[of now r d] by (auto split: if_splits)
  with assms have "next_attempt_at d' = now + (case retry_after_seconds r of
      Some s \<Rightarrow> if s \<ge> 0 then min s (24 * 60 * 60) * second else retry_delays ! min (delivery_attempts d) 5
    | None \<Rightarrow> retry_delays ! min (delivery_attempts d) 5) \<and> delivery_status d' = delivery_status d"
    by (auto simp: finish_delivery_def Let_def retry_delays_def eval_nat_numeral split: if_splits option.splits)
  then show ?thesis
    using a by (cases "retry_after_seconds r") (auto simp: retry_delays_def second_def)
qed

lemma retries_back_off_witness:
  "next_attempt_at (fst (finish_delivery 5 (read_exchange (\<lambda>_. None) 5 (Answered (Some 503) [] None)) (new_delivery 5 1 3 9))) = 5 + 60 * second"
  using retries_back_off[of 5 "read_exchange (\<lambda>_. None) 5 (Answered (Some 503) [] None)" "new_delivery 5 1 3 9",
      OF prod_eqI] by (simp add: finish_outcome) (simp add: read_exchange_def retry_after_of_def retryable_def new_delivery_def max_delivery_attempts_def)

section \<open>Pending deliveries have a job\<close>

lemma show_nat_inj: "show_nat m = show_nat n \<longleftrightarrow> m = n"
  by (metis digits_value_show_nat of_nat_eq_iff)

lemma show_int_inj: "show_int i = show_int j \<longleftrightarrow> i = j"
proof -
  have "show_nat n \<noteq> CHR ''-'' # s" for n s
    using show_nat_decimal[of n] by (auto simp: is_decimal_def)
  then show ?thesis by (auto simp: show_int_def show_nat_inj split: if_splits) (metis)+
qed

lemma delivery_key_inj: "delivery_key i = delivery_key j \<longleftrightarrow> i = j"
  by (simp add: delivery_key_def show_int_inj)

lemma enqueue_delivery_jobs:
  obtains j where "jobs (enqueue_delivery w i run_at (Some e) q) =
      map (\<lambda>j. if pending_with_key (delivery_key i) j then cancel_job run_at ''Replaced by newer queued job'' j else j) (jobs q) @ [j]"
    "scheduled_at j = run_at" "pending_with_key (delivery_key i) j" "job_type j = WEBHOOK_DELIVERY"
    "dget (payload j) ''delivery_id'' = PInt i" "dget (payload j) ''endpoint_id'' = PInt e"
  by (rule that[of "last (jobs (enqueue_delivery w i run_at (Some e) q))"])
    (simp_all add: enqueue_delivery_def enqueue_background_job_def insert_job_def update_where_def Let_def
      delivery_key_def pending_with_key_def dget_Cons)

lemma enqueue_delivery_pending:
  "\<exists>j. filter (pending_with_key (delivery_key i)) (jobs (enqueue_delivery w i run_at (Some e) q)) = [j] \<and>
     scheduled_at j = run_at \<and> job_type j = WEBHOOK_DELIVERY \<and>
     dget (payload j) ''delivery_id'' = PInt i \<and> dget (payload j) ''endpoint_id'' = PInt e"
proof -
  obtain j where j: "jobs (enqueue_delivery w i run_at (Some e) q) =
      map (\<lambda>j. if pending_with_key (delivery_key i) j then cancel_job run_at ''Replaced by newer queued job'' j else j) (jobs q) @ [j]"
    "scheduled_at j = run_at" "pending_with_key (delivery_key i) j" "job_type j = WEBHOOK_DELIVERY"
    "dget (payload j) ''delivery_id'' = PInt i" "dget (payload j) ''endpoint_id'' = PInt e"
    by (rule enqueue_delivery_jobs)
  have "filter (pending_with_key (delivery_key i)) (map (\<lambda>j. if pending_with_key (delivery_key i) j
      then cancel_job run_at ''Replaced by newer queued job'' j else j) (jobs q)) = []"
    by (auto simp: filter_empty_conv pending_with_key_def cancel_job_def)
  with j show ?thesis by simp
qed

lemma enqueue_delivery_other:
  assumes "k \<noteq> delivery_key i"
  shows "filter (pending_with_key k) (jobs (enqueue_delivery w i run_at (Some e) q)) = filter (pending_with_key k) (jobs q)"
proof -
  obtain j where j: "jobs (enqueue_delivery w i run_at (Some e) q) =
      map (\<lambda>j. if pending_with_key (delivery_key i) j then cancel_job run_at ''Replaced by newer queued job'' j else j) (jobs q) @ [j]"
    "pending_with_key (delivery_key i) j"
    by (rule enqueue_delivery_jobs)
  have "filter (pending_with_key k) (map (\<lambda>j. if pending_with_key (delivery_key i) j
      then cancel_job run_at ''Replaced by newer queued job'' j else j) js) = filter (pending_with_key k) js" for js
    using assms by (induction js) (auto simp: pending_with_key_def cancel_job_def)
  with j assms show ?thesis by (auto simp: pending_with_key_def)
qed

definition has_job :: "queue \<Rightarrow> delivery \<Rightarrow> bool" where
  "has_job q d \<longleftrightarrow>
     (\<exists>j. filter (pending_with_key (delivery_key (delivery_id d))) (jobs q) = [j] \<and>
        scheduled_at j = next_attempt_at d \<and> job_type j = WEBHOOK_DELIVERY \<and>
        dget (payload j) ''delivery_id'' = PInt (delivery_id d) \<and>
        dget (payload j) ''endpoint_id'' = PInt (delivery_endpoint d))"

lemma enqueue_all_jobs:
  "distinct (map delivery_id ds) \<Longrightarrow> d \<in> set ds \<Longrightarrow> takes (delivery_id d) \<Longrightarrow> has_job (enqueue_all takes w ds q) d"
proof (induction ds rule: rev_induct)
  case (snoc x ds)
  show ?case
  proof (cases "d = x")
    case True
    then show ?thesis using enqueue_delivery_pending snoc.prems(3) by (simp add: enqueue_all_def has_job_def)
  next
    case False
    with snoc.prems have "delivery_id d \<noteq> delivery_id x" by (auto simp: image_iff)
    then have "delivery_key (delivery_id d) \<noteq> delivery_key (delivery_id x)" by (simp add: delivery_key_inj)
    from enqueue_delivery_other[OF this] snoc False show ?thesis by (simp add: enqueue_all_def has_job_def)
  qed
qed simp

text \<open>C39: no pending delivery is forgotten.  After the recovery at start-up every pending delivery of a
  reachable state that the queue takes, whichever others it refuses, has exactly one pending job, due when its next
  attempt is and holding the resource of its endpoint; and when an attempt ends in a retry, its delivery has such a
  job too.\<close>

theorem pending_deliveries_have_a_job:
  assumes "hook_reachable w"
  shows "(\<forall>takes. \<forall>d \<in> set (delivery_table w). delivery_status d = ''pending'' \<and> takes (delivery_id d) \<longrightarrow>
            has_job (snd (recover_pending_webhook_deliveries takes w q)) d) \<and>
         (\<forall>http_date server now i w' q' d. run_webhook_delivery_job http_date server now i w q = (''retrying'', w', q') \<and>
            find_delivery i w' = Some d \<longrightarrow> has_job q' d)"
proof -
  have ids: "distinct (map delivery_id (delivery_table w))" using hook_reachable_inv[OF assms] by (simp add: hooks_inv_def)
  show ?thesis
  proof (intro conjI ballI impI allI)
    fix takes d assume d: "d \<in> set (delivery_table w)" "delivery_status d = ''pending'' \<and> takes (delivery_id d)"
    have "distinct (map delivery_id (filter (\<lambda>d. delivery_status d = ''pending'') (delivery_table w)))"
      using ids by (rule distinct_map_filter)
    from enqueue_all_jobs[OF this] d show "has_job (snd (recover_pending_webhook_deliveries takes w q)) d"
      by (simp add: recover_pending_webhook_deliveries_def Let_def)
  next
    fix http_date server now i w' q' d
    assume r: "run_webhook_delivery_job http_date server now i w q = (''retrying'', w', q') \<and>
              find_delivery i w' = Some d"
    then have i: "delivery_id d = i" by (auto simp: find_delivery_def find_Some_iff)
    obtain o1 w1 where b: "begin_attempt now i w = (o1, w1)" by (cases "begin_attempt now i w")
    show "has_job q' d"
    proof (cases o1)
      case (Inl s)
      then have "s = ''retrying''" using r b by (simp add: run_webhook_delivery_job_def)
      moreover have "delivery_status x \<noteq> ''retrying''" if "x \<in> set (delivery_table w)" for x
        using hook_reachable_inv[OF assms] that by (auto simp: hooks_inv_def delivery_ok_def)
      ultimately show ?thesis
        using b Inl ids by (auto simp: begin_attempt_def find_delivery_iff split: option.splits if_splits)
    next
      case (Inr hp)
      with r b i show ?thesis
        using enqueue_delivery_pending[of i w' "next_attempt_at d" "delivery_endpoint d" q]
        by (cases hp) (auto simp: run_webhook_delivery_job_def has_job_def split: prod.splits)
    qed
  qed
qed

lemma pending_deliveries_have_a_job_witness:
  "has_job (snd (recover_pending_webhook_deliveries (\<lambda>_. True) demo_retried empty_queue)) (hd (delivery_table demo_retried)) \<and>
   next_attempt_at (hd (delivery_table demo_retried)) = 5 + 90 * second"
proof -
  obtain d where "delivery_table demo_retried = [d]" "delivery_status d = ''pending''" "next_attempt_at d = 5 + 90 * second"
    using demo_retried_row by (auto simp: map_eq_Cons_conv)
  with pending_deliveries_have_a_job[OF demo_retried_reachable, of empty_queue] show ?thesis by auto
qed

end
