(* ===== verification/Duplicates.thy ===== *)
theory Duplicates
  imports Media Candidate_Lifecycle "HOL-Library.Product_Lexorder"
begin

text \<open>
  Duplicate detection and the plan of a duplicate deletion (\<open>backend/services/duplicates.py\<close>).
  A group is the files one movie or episode has more than one of; rows that describe the same
  physical file are collapsed, the files are ranked by the keeper priority, and a deletion is
  planned against the group as the tables hold it.  Parameters: the digest
  (\<open>hashlib.sha256\<close> of the encoded text, as hex), and for a search the titles
  that the database's \<open>ILIKE\<close> selects.
\<close>

section \<open>Keeper priority\<close>

datatype keeper_criterion =
  RESOLUTION | DOLBY_VISION | HDR | VIDEO_CODEC | AUDIO_CHANNELS | VIDEO_BITRATE | SIZE_LARGER | SIZE_SMALLER

type_synonym keeper_priority = "(keeper_criterion \<times> bool) list"

definition criterion_name :: "keeper_criterion \<Rightarrow> string" where
  "criterion_name c =
     (case c of RESOLUTION \<Rightarrow> ''resolution'' | DOLBY_VISION \<Rightarrow> ''dolby_vision'' | HDR \<Rightarrow> ''hdr''
      | VIDEO_CODEC \<Rightarrow> ''video_codec'' | AUDIO_CHANNELS \<Rightarrow> ''audio_channels''
      | VIDEO_BITRATE \<Rightarrow> ''video_bitrate'' | SIZE_LARGER \<Rightarrow> ''size_larger'' | SIZE_SMALLER \<Rightarrow> ''size_smaller'')"

definition default_keeper_priority :: keeper_priority where
  "default_keeper_priority =
     [(RESOLUTION, True), (DOLBY_VISION, True), (HDR, True), (VIDEO_CODEC, True), (AUDIO_CHANNELS, True),
      (VIDEO_BITRATE, True), (SIZE_LARGER, False), (SIZE_SMALLER, False)]"

definition criterion_of :: "string \<Rightarrow> keeper_criterion option" where
  "criterion_of name = find (\<lambda>c. criterion_name c = name) (map fst default_keeper_priority)"

fun read_priority :: "runtime \<Rightarrow> pyval list \<Rightarrow> keeper_priority \<Rightarrow> keeper_priority result" where
  "read_priority rt [] p = Ok p"
| "read_priority rt (PDict entry # raw) p =
     (case criterion_of (py_str rt (dget entry ''key'')) of
        None \<Rightarrow> read_priority rt raw p
      | Some c \<Rightarrow>
          if List.member (map fst p) c then read_priority rt raw p
          else read_priority rt raw (p @ [(c, truthy (dget_or entry ''enabled'' (PBool True)))]))"
| "read_priority rt (_ # raw) p = Raise AttributeError"

definition append_missing :: "keeper_priority \<Rightarrow> keeper_priority" where
  "append_missing p =
     p @ map (\<lambda>(c, _). (c, False)) (filter (\<lambda>(c, _). \<not> List.member (map fst p) c) default_keeper_priority)"

definition is_size :: "keeper_criterion \<Rightarrow> bool" where
  "is_size c \<longleftrightarrow> c = SIZE_LARGER \<or> c = SIZE_SMALLER"

fun one_size :: "bool \<Rightarrow> keeper_priority \<Rightarrow> keeper_priority" where
  "one_size size_enabled [] = []"
| "one_size size_enabled ((c, enabled) # p) =
     (if is_size c \<and> enabled then (c, \<not> size_enabled) # one_size True p
      else (c, enabled) # one_size size_enabled p)"

definition normalize_keeper_priority :: "runtime \<Rightarrow> pyval list option \<Rightarrow> keeper_priority result" where
  "normalize_keeper_priority rt raw =
     (case raw of
        None \<Rightarrow> Ok default_keeper_priority
      | Some entries \<Rightarrow> rbind (read_priority rt entries []) (\<lambda>p. Ok (one_size False (append_missing p))))"

definition keeper_priority_payload :: "keeper_priority \<Rightarrow> pyval list" where
  "keeper_priority_payload p =
     map (\<lambda>(c, enabled). PDict [(''key'', PStr (criterion_name c)), (''enabled'', PBool enabled)]) p"

section \<open>Files\<close>

record version_row = file_facts +
  row_id :: int
  row_item_id :: string
  row_library_id :: string
  row_library_name :: string

record duplicate_file = file_facts +
  version_ids :: "int list"
  service_item_ids :: "string list"
  library_ids :: "string list"
  library_names :: "string list"
  is_protected :: bool

section \<open>Ranking\<close>

definition codec_rank :: "string \<Rightarrow> int" where
  "codec_rank family =
     (case map_of [(''h266'', 5), (''vvc'', 5), (''av1'', 4), (''h265'', 3), (''h264'', 2), (''avc'', 2)] family of
        None \<Rightarrow> 1 | Some r \<Rightarrow> r)"

definition label_height :: "string \<Rightarrow> int" where
  "label_height label =
     (case map_of [(''8k'', 4320), (''4k'', 2160), (''2160'', 2160), (''2160p'', 2160), (''1440'', 1440),
                   (''1440p'', 1440), (''1080'', 1080), (''1080p'', 1080), (''720'', 720), (''720p'', 720),
                   (''576'', 576), (''480'', 480), (''sd'', 480)] label of
        None \<Rightarrow> 0 | Some h \<Rightarrow> h)"

text \<open>\<open>round(width * 9 / 16)\<close>: the quotient is the nearest double, which is finite for a database integer.\<close>

definition width_height :: "int \<Rightarrow> int" where
  "width_height width =
     (case round_double (of_int (width * 9) / 16) of FFin q \<Rightarrow> round_half_even q | _ \<Rightarrow> 0)"

definition resolution_height :: "('a file_facts_scheme) \<Rightarrow> int" where
  "resolution_height f =
     (if or_zero (video_height f) \<noteq> 0 \<and> or_zero (video_width f) \<noteq> 0
      then max (or_zero (video_height f)) (width_height (or_zero (video_width f)))
      else if or_zero (video_height f) \<noteq> 0 then or_zero (video_height f)
      else label_height (py_lower (py_strip (or_empty (video_resolution f)))))"

definition criterion_value :: "keeper_criterion \<Rightarrow> ('a file_facts_scheme) \<Rightarrow> int" where
  "criterion_value c f =
     (case c of
        RESOLUTION \<Rightarrow> resolution_height f
      | DOLBY_VISION \<Rightarrow> of_bool (is_true (video_dolby_vision f))
      | HDR \<Rightarrow> of_bool (is_true (video_hdr f) \<or> is_true (video_dolby_vision f))
      | VIDEO_CODEC \<Rightarrow> codec_rank (py_lower (or_empty (video_codec_family f)))
      | AUDIO_CHANNELS \<Rightarrow> or_zero (audio_channels f)
      | VIDEO_BITRATE \<Rightarrow> or_zero (video_bitrate f)
      | SIZE_LARGER \<Rightarrow> file_size f
      | SIZE_SMALLER \<Rightarrow> - file_size f)"

definition enabled_criteria :: "keeper_priority \<Rightarrow> keeper_criterion list" where
  "enabled_criteria p = map fst (filter snd p)"

definition rank_key :: "keeper_priority \<Rightarrow> duplicate_file \<Rightarrow> int list" where
  "rank_key p f =
     map (\<lambda>c. criterion_value c f) (enabled_criteria p) @ [or_zero (added_stamp f), - min_list (version_ids f)]"

text \<open>A stable sort in reverse: equal keys keep their order.\<close>

definition rank_files :: "duplicate_file list \<Rightarrow> keeper_priority \<Rightarrow> duplicate_file list" where
  "rank_files files p = rev (sort_key (rank_key p) (rev files))"


section \<open>Collapsing the rows of one file\<close>

definition file_key :: "version_row \<Rightarrow> string" where
  "file_key r =
     (if some_text (file_path r) then normalize_fpath True False (or_empty (file_path r))
      else ''#row:'' @ show_int (row_id r))"

definition new_file :: "version_row \<Rightarrow> duplicate_file" where
  "new_file r = file_facts.extend (file_facts.truncate r)
     \<lparr>version_ids = [row_id r], service_item_ids = [row_item_id r], library_ids = [row_library_id r],
      library_names = [row_library_name r], is_protected = False\<rparr>"

definition add_row :: "duplicate_file \<Rightarrow> version_row \<Rightarrow> duplicate_file" where
  "add_row f r =
     (let f = f\<lparr>version_ids := version_ids f @ [row_id r]\<rparr>;
          f = (if List.member (service_item_ids f) (row_item_id r) then f
               else f\<lparr>service_item_ids := service_item_ids f @ [row_item_id r]\<rparr>)
      in if List.member (library_ids f) (row_library_id r) then f
         else f\<lparr>library_ids := library_ids f @ [row_library_id r],
                library_names := library_names f @ [row_library_name r]\<rparr>)"

definition merge_row :: "(string \<times> duplicate_file) list \<Rightarrow> version_row \<Rightarrow> (string \<times> duplicate_file) list" where
  "merge_row files r =
     (case map_of files (file_key r) of
        None \<Rightarrow> dput (file_key r) (new_file r) files
      | Some f \<Rightarrow> dput (file_key r) (add_row f r) files)"

definition collapse_twins :: "version_row list \<Rightarrow> duplicate_file list" where
  "collapse_twins rows = map snd (foldl merge_row [] (sort_key row_id rows))"

definition fingerprint_key :: "duplicate_file \<Rightarrow> string" where
  "fingerprint_key f =
     (if some_text (file_path f) then normalize_fpath True False (or_empty (file_path f))
      else ''#row:'' @ show_int (min_list (version_ids f)))"

definition fingerprint_files :: "(string \<Rightarrow> string) \<Rightarrow> duplicate_file list \<Rightarrow> string" where
  "fingerprint_files digest files = digest (join [CHR 0x0A] (sort (map fingerprint_key files)))"

section \<open>What cannot be removed from here\<close>

definition is_cross_library :: "duplicate_file list \<Rightarrow> bool" where
  "is_cross_library files \<longleftrightarrow> foldl (\<lambda>common f. common \<inter> set (library_ids f)) (set (library_ids (hd files))) (tl files) = {}"

text \<open>The owner of every item id seen so far; the loop stops at the first id with a second owner.\<close>

fun claim_items :: "nat \<Rightarrow> string list \<Rightarrow> (string \<times> nat) list \<Rightarrow> (string \<times> nat) list option" where
  "claim_items index [] owners = Some owners"
| "claim_items index (i # ids) owners =
     (case map_of owners i of
        None \<Rightarrow> claim_items index ids (dput i index owners)
      | Some owner \<Rightarrow> if owner \<noteq> index then None else claim_items index ids owners)"

fun shares_item :: "nat \<Rightarrow> duplicate_file list \<Rightarrow> (string \<times> nat) list \<Rightarrow> bool" where
  "shares_item index [] owners = False"
| "shares_item index (f # files) owners =
     (if file_service f = PLEX then shares_item (Suc index) files owners
      else case claim_items index (service_item_ids f) owners of
             None \<Rightarrow> True
           | Some owners' \<Rightarrow> shares_item (Suc index) files owners')"

definition manual_reason_of :: "duplicate_file list \<Rightarrow> string list \<Rightarrow> string option" where
  "manual_reason_of files multi_episode_paths =
     (if list_ex (\<lambda>f. \<not> some_text (file_path f) \<or> file_size f \<le> 0) files
      then Some ''File info incomplete''
      else if multi_episode_paths \<noteq> [] \<and>
              list_ex (\<lambda>f. some_text (file_path f) \<and>
                  List.member multi_episode_paths (normalize_fpath True False (or_empty (file_path f)))) files
      then Some ''File contains multiple episodes''
      else if shares_item 0 files [] then Some ''Server can't delete a single version of this item''
      else None)"

section \<open>Groups\<close>

record group_meta =
  group_type :: media_type
  item_id :: int
  group_title :: string
  group_year :: "int option"
  poster_url :: "string option"
  group_series :: "int option"
  group_season :: "int option"
  season_number :: "int option"
  episode_number :: "int option"
  episode_name :: "string option"

record duplicate_group = group_meta +
  group_files :: "duplicate_file list"
  manual_reason :: "string option"
  cross_library :: bool
  ignored :: bool
  fingerprint :: string

definition fully_protected :: "duplicate_group \<Rightarrow> bool" where
  "fully_protected g \<longleftrightarrow> group_files g \<noteq> [] \<and> list_all is_protected (group_files g)"

definition group_key :: "duplicate_group \<Rightarrow> string" where
  "group_key g = (if group_type g = MOVIE then ''movie'' else ''episode'') @ '':'' @ show_int (item_id g)"

definition reclaimable_size :: "duplicate_group \<Rightarrow> int" where
  "reclaimable_size g = sum_list (map file_size (filter (\<lambda>f. \<not> is_protected f) (tl (group_files g))))"

record protection =
  whole :: bool
  protected_versions :: "int list"

definition mark_protected :: "protection option \<Rightarrow> duplicate_file \<Rightarrow> duplicate_file" where
  "mark_protected protection f =
     (case protection of
        None \<Rightarrow> f
      | Some p \<Rightarrow> f\<lparr>is_protected := whole p \<or> list_ex (List.member (version_ids f)) (protected_versions p)\<rparr>)"

definition build_group ::
  "(string \<Rightarrow> string) \<Rightarrow> group_meta \<Rightarrow> version_row list \<Rightarrow> keeper_priority \<Rightarrow> protection option \<Rightarrow> string list \<Rightarrow>
   string option \<Rightarrow> duplicate_group option" where
  "build_group digest meta rows priority protection multi_episode_paths ignore_fingerprint =
     (let files = collapse_twins rows
      in if length files < 2 then None
         else let files = map (mark_protected protection) files;
                  fp = fingerprint_files digest files
              in Some (group_meta.extend meta
                   \<lparr>group_files = rank_files files priority,
                    manual_reason = manual_reason_of files multi_episode_paths,
                    cross_library = is_cross_library files,
                    ignored = ignore_fingerprint = Some fp,
                    fingerprint = fp\<rparr>))"

section \<open>The tables read\<close>

record title_row =
  title_id :: int
  title_text :: string
  title_year :: "int option"
  title_poster :: "string option"
  title_removed :: bool

record season_row =
  row_season_id :: int
  row_season_number :: "int option"
  row_season_series :: int

record episode_row =
  row_episode_id :: int
  row_episode_number :: "int option"
  row_episode_name :: "string option"
  row_episode_season :: int

record duplicate_tables =
  movie_versions :: "(int \<times> version_row) list"
  movies :: "title_row list"
  episode_versions :: "(int \<times> version_row) list"
  episodes :: "episode_row list"
  seasons :: "season_row list"
  series :: "title_row list"
  protected_table :: "protected_media list"
  ignores :: "(media_type \<times> int \<times> string) list"
  stored_priority :: "pyval list option"

text \<open>A query with an \<open>IN\<close> list runs once per chunk of the list.\<close>

definition sql_chunk :: nat where
  "sql_chunk = 500"

function chunks :: "'a list \<Rightarrow> 'a list list" where
  "chunks xs = (if xs = [] then [] else take sql_chunk xs # chunks (drop sql_chunk xs))"
  by pat_completeness auto
termination
  by (relation "measure length") (auto simp: sql_chunk_def)

declare chunks.simps [simp del]

definition select_in :: "('r \<Rightarrow> int option) \<Rightarrow> 'r list \<Rightarrow> int list \<Rightarrow> 'r list" where
  "select_in column rows ids =
     concat (map (\<lambda>chunk. filter (\<lambda>r. case column r of None \<Rightarrow> False | Some i \<Rightarrow> List.member chunk i) rows) (chunks ids))"

definition ignored_fingerprints :: "duplicate_tables \<Rightarrow> media_type \<Rightarrow> int list \<Rightarrow> (int \<times> string) list" where
  "ignored_fingerprints db m ids =
     foldl (\<lambda>d (i, fp). dput i fp d) []
       (map snd (select_in (\<lambda>(m', i, fp). if m' = m then Some i else None) (ignores db) ids))"

definition has_many :: "(int \<times> version_row) list \<Rightarrow> int \<Rightarrow> bool" where
  "has_many versions i \<longleftrightarrow> length (filter (\<lambda>(j, r). j = i) versions) > 1"

definition wanted_id :: "int list option \<Rightarrow> int \<Rightarrow> bool" where
  "wanted_id ids i = (case ids of None \<Rightarrow> True | Some l \<Rightarrow> List.member l i)"

definition matches_search :: "(string \<Rightarrow> string \<Rightarrow> bool) \<Rightarrow> string option \<Rightarrow> string \<Rightarrow> bool" where
  "matches_search ilike search title = (case search of None \<Rightarrow> True | Some s \<Rightarrow> ilike (''%'' @ s @ ''%'') title)"

definition live_title :: "title_row list \<Rightarrow> int \<Rightarrow> title_row option" where
  "live_title titles i = find (\<lambda>t. title_id t = i \<and> \<not> title_removed t) titles"

definition rows_of :: "(int \<times> version_row) list \<Rightarrow> int \<Rightarrow> version_row list" where
  "rows_of versions i = map snd (filter (\<lambda>(j, r). j = i) versions)"

section \<open>Movies\<close>

definition movie_meta :: "title_row \<Rightarrow> group_meta" where
  "movie_meta t =
     \<lparr>group_type = MOVIE, item_id = title_id t, group_title = title_text t, group_year = title_year t,
      poster_url = title_poster t, group_series = None, group_season = None, season_number = None,
      episode_number = None, episode_name = None\<rparr>"

definition movie_protection :: "protected_media list \<Rightarrow> int \<Rightarrow> protection option" where
  "movie_protection rows movie =
     (let rows = filter (\<lambda>r. protected_movie r = Some movie) rows
      in if rows = [] then None
         else Some \<lparr>whole = list_ex (\<lambda>r. movie_version_id r = None) rows,
                    protected_versions = somes (map movie_version_id rows)\<rparr>)"

definition movie_groups ::
  "(string \<Rightarrow> string) \<Rightarrow> (string \<Rightarrow> string \<Rightarrow> bool) \<Rightarrow> int \<Rightarrow> duplicate_tables \<Rightarrow> keeper_priority \<Rightarrow> int list option \<Rightarrow>
   string option \<Rightarrow> duplicate_group list" where
  "movie_groups digest ilike now db priority movie_ids search =
     (let versions = filter (\<lambda>(m, r). has_many (movie_versions db) m \<and> wanted_id movie_ids m \<and>
              (case live_title (movies db) m of None \<Rightarrow> False | Some t \<Rightarrow> matches_search ilike search (title_text t)))
            (movie_versions db);
          ids = uniq (map fst versions);
          protections = select_in (\<lambda>r. if protected_type r = MOVIE \<and> active_protection now r then protected_movie r else None)
            (protected_table db) ids;
          marks = ignored_fingerprints db MOVIE ids
      in somes (map (\<lambda>m. case live_title (movies db) m of
              None \<Rightarrow> None
            | Some t \<Rightarrow> build_group digest (movie_meta t) (rows_of versions m) priority (movie_protection protections m) []
                (map_of marks m)) ids))"

section \<open>Episodes\<close>

record episode_place =
  place_episode :: episode_row
  place_season :: season_row
  place_series :: title_row

definition place_of :: "duplicate_tables \<Rightarrow> int \<Rightarrow> episode_place option" where
  "place_of db e =
     (case find (\<lambda>r. row_episode_id r = e) (episodes db) of
        None \<Rightarrow> None
      | Some ep \<Rightarrow>
          (case find (\<lambda>r. row_season_id r = row_episode_season ep) (seasons db) of
             None \<Rightarrow> None
           | Some sn \<Rightarrow>
               (case live_title (series db) (row_season_series sn) of
                  None \<Rightarrow> None
                | Some sr \<Rightarrow> Some \<lparr>place_episode = ep, place_season = sn, place_series = sr\<rparr>)))"

definition episode_meta :: "episode_place \<Rightarrow> group_meta" where
  "episode_meta p =
     \<lparr>group_type = SERIES, item_id = row_episode_id (place_episode p), group_title = title_text (place_series p),
      group_year = title_year (place_series p), poster_url = title_poster (place_series p),
      group_series = Some (title_id (place_series p)), group_season = Some (row_season_id (place_season p)),
      season_number = row_season_number (place_season p), episode_number = row_episode_number (place_episode p),
      episode_name = row_episode_name (place_episode p)\<rparr>"

text \<open>A path that versions of several episodes share is a file of several episodes.\<close>

definition shared_paths :: "(int \<times> version_row) list \<Rightarrow> string list \<Rightarrow> string list" where
  "shared_paths versions paths =
     filter (\<lambda>p. length (uniq (map fst (filter (\<lambda>(e, r). file_path r = Some p) versions))) > 1) paths"

definition multi_episode_paths_of :: "duplicate_tables \<Rightarrow> (int \<times> version_row) list \<Rightarrow> string list" where
  "multi_episode_paths_of db versions =
     (let paths = sort (uniq (filter (\<lambda>p. p \<noteq> []) (somes (map (\<lambda>(e, r). file_path r) versions))))
      in concat (map (\<lambda>chunk. map (normalize_fpath True False) (shared_paths (episode_versions db) chunk)) (chunks paths)))"

definition episode_covered :: "protected_media list \<Rightarrow> episode_place \<Rightarrow> bool" where
  "episode_covered rows p =
     list_ex (\<lambda>r. protected_series r = Some (title_id (place_series p)) \<and>
         (season_id r = None \<and> episode_id r = None \<or>
          episode_id r = None \<and> season_id r = Some (row_season_id (place_season p)) \<or>
          episode_id r = Some (row_episode_id (place_episode p)))) rows"

definition episode_groups ::
  "(string \<Rightarrow> string) \<Rightarrow> (string \<Rightarrow> string \<Rightarrow> bool) \<Rightarrow> int \<Rightarrow> duplicate_tables \<Rightarrow> keeper_priority \<Rightarrow> int list option \<Rightarrow>
   string option \<Rightarrow> duplicate_group list" where
  "episode_groups digest ilike now db priority wanted search =
     (let versions = filter (\<lambda>(e, r). has_many (episode_versions db) e \<and> wanted_id wanted e \<and>
              (case place_of db e of None \<Rightarrow> False | Some p \<Rightarrow> matches_search ilike search (title_text (place_series p))))
            (episode_versions db);
          ids = uniq (map fst versions);
          multi = multi_episode_paths_of db versions;
          series_ids = sort (uniq (map (\<lambda>p. title_id (place_series p)) (somes (map (place_of db) ids))));
          protections = select_in (\<lambda>r. if protected_type r = SERIES \<and> active_protection now r then protected_series r else None)
            (protected_table db) series_ids;
          marks = ignored_fingerprints db SERIES ids
      in somes (map (\<lambda>e. case place_of db e of
              None \<Rightarrow> None
            | Some p \<Rightarrow> build_group digest (episode_meta p) (rows_of versions e) priority
                (Some \<lparr>whole = episode_covered protections p, protected_versions = []\<rparr>) multi (map_of marks e)) ids))"

section \<open>Loading groups and planning a deletion\<close>

definition group_order :: "duplicate_group \<Rightarrow> string \<times> int \<times> int \<times> int" where
  "group_order g =
     (py_casefold (group_title g), or_zero (group_year g), or_zero (season_number g), or_zero (episode_number g))"

definition load_duplicate_groups ::
  "runtime \<Rightarrow> (string \<Rightarrow> string) \<Rightarrow> (string \<Rightarrow> string \<Rightarrow> bool) \<Rightarrow> int \<Rightarrow> duplicate_tables \<Rightarrow> media_type option \<Rightarrow> string option \<Rightarrow>
   keeper_priority option \<Rightarrow> int list option \<Rightarrow> int list option \<Rightarrow> duplicate_group list result" where
  "load_duplicate_groups rt digest ilike now db m search priority movie_ids episode_ids =
     rbind (case priority of None \<Rightarrow> normalize_keeper_priority rt (stored_priority db) | Some p \<Rightarrow> Ok p)
       (\<lambda>priority.
          let text = py_strip (or_empty search);
              search = (if text = [] then None else Some text);
              found = (if m \<noteq> Some SERIES \<and> movie_ids \<noteq> Some []
                       then movie_groups digest ilike now db priority movie_ids search else []) @
                      (if m \<noteq> Some MOVIE \<and> episode_ids \<noteq> Some []
                       then episode_groups digest ilike now db priority episode_ids search else [])
          in Ok (sort_key group_order found))"

definition load_group ::
  "runtime \<Rightarrow> (string \<Rightarrow> string) \<Rightarrow> (string \<Rightarrow> string \<Rightarrow> bool) \<Rightarrow> int \<Rightarrow> duplicate_tables \<Rightarrow> media_type \<Rightarrow> int \<Rightarrow>
   duplicate_group option result" where
  "load_group rt digest ilike now db m i =
     rbind (load_duplicate_groups rt digest ilike now db (Some m) None None
              (Some (if m = MOVIE then [i] else [])) (Some (if m = MOVIE then [] else [i])))
       (\<lambda>groups. Ok (case groups of [] \<Rightarrow> None | g # _ \<Rightarrow> Some g))"

definition plan_duplicate_delete ::
  "runtime \<Rightarrow> (string \<Rightarrow> string) \<Rightarrow> (string \<Rightarrow> string \<Rightarrow> bool) \<Rightarrow> int \<Rightarrow> duplicate_tables \<Rightarrow> media_type \<Rightarrow> int \<Rightarrow> int list \<Rightarrow>
   (duplicate_group \<times> duplicate_file list) result" where
  "plan_duplicate_delete rt digest ilike now db m i picked =
     rbind (load_group rt digest ilike now db m i)
       (\<lambda>g. case g of
          None \<Rightarrow> Raise (ValueError ''No longer a duplicate - refresh the page'')
        | Some g \<Rightarrow>
            if some_text (manual_reason g)
            then Raise (ValueError (''Needs manual review: '' @ or_empty (manual_reason g)))
            else if picked = [] \<or> \<not> list_all (\<lambda>v. list_ex (\<lambda>f. List.member (version_ids f) v) (group_files g)) picked
            then Raise (ValueError ''Files changed since the page loaded - refresh'')
            else let selected = filter (\<lambda>f. list_ex (List.member (version_ids f)) picked) (group_files g)
                 in if length selected \<ge> length (group_files g)
                    then Raise (ValueError ''At least one file has to be kept'')
                    else if list_ex is_protected selected
                    then Raise (ValueError ''A selected file is protected'')
                    else Ok (g, selected))"

section \<open>The priority is a total, unambiguous order of criteria\<close>

lemma all_criteria: "c \<in> set (map fst default_keeper_priority)"
  by (cases c) (simp_all add: default_keeper_priority_def)

lemma criterion_of_name [simp]: "criterion_of (criterion_name c) = Some c"
  by (cases c) (simp_all add: criterion_of_def default_keeper_priority_def criterion_name_def)

lemma read_priority_distinct:
  "read_priority rt raw p = Ok q \<Longrightarrow> distinct (map fst p) \<Longrightarrow> distinct (map fst q)"
  by (induction rt raw p rule: read_priority.induct) (auto split: option.splits if_splits)

lemma append_missing_complete:
  assumes "distinct (map fst p)"
  shows "distinct (map fst (append_missing p))" "set (map fst (append_missing p)) = UNIV"
proof -
  let ?new = "map (\<lambda>(c, _). (c, False)) (filter (\<lambda>(c, _). \<not> List.member (map fst p) c) default_keeper_priority)"
  have new: "map fst ?new = filter (\<lambda>c. \<not> List.member (map fst p) c) (map fst default_keeper_priority)"
    by (simp add: filter_map comp_def case_prod_beta')
  have "distinct (map fst default_keeper_priority)" by (simp add: default_keeper_priority_def)
  with assms show "distinct (map fst (append_missing p))"
    unfolding append_missing_def map_append distinct_append new by (auto simp del: map_map)
  show "set (map fst (append_missing p)) = UNIV"
    unfolding append_missing_def map_append set_append new using all_criteria by (auto simp del: set_map)
qed

lemma append_missing_id: "set (map fst p) = UNIV \<Longrightarrow> append_missing p = p"
  by (auto simp: append_missing_def filter_empty_conv simp del: set_map) 

definition enabled_sizes :: "keeper_priority \<Rightarrow> nat" where
  "enabled_sizes p = length (filter (\<lambda>(c, enabled). is_size c \<and> enabled) p)"

lemma one_size_keys [simp]: "map fst (one_size b p) = map fst p"
  by (induction b p rule: one_size.induct) auto

lemma one_size_bound: "enabled_sizes (one_size b p) \<le> (if b then 0 else 1)"
proof (induction b p rule: one_size.induct)
  case (2 b c e p)
  then show ?case by (cases b; cases "is_size c \<and> e") (auto simp: enabled_sizes_def)
qed (simp add: enabled_sizes_def)

lemma one_size_id: "enabled_sizes p \<le> (if b then 0 else 1) \<Longrightarrow> one_size b p = p"
proof (induction b p rule: one_size.induct)
  case (2 b c e p)
  then show ?case by (cases b; cases "is_size c \<and> e") (auto simp: enabled_sizes_def)
qed simp

lemma read_payload:
  "distinct (map fst (acc @ p)) \<Longrightarrow> read_priority rt (keeper_priority_payload p) acc = Ok (acc @ p)"
proof (induction p arbitrary: acc)
  case (Cons x p)
  obtain c e where x: "x = (c, e)" by (cases x)
  have "read_priority rt (keeper_priority_payload p) (acc @ [x]) = Ok ((acc @ [x]) @ p)"
    using Cons.prems by (intro Cons.IH) simp
  then show ?case
    using Cons.prems by (simp add: x keeper_priority_payload_def dget_Cons dget_or_def)
qed (simp add: keeper_priority_payload_def)

lemma default_sizes: "enabled_sizes default_keeper_priority \<le> 1"
  by (simp add: enabled_sizes_def default_keeper_priority_def is_size_def)

lemma normalized_priority:
  assumes "normalize_keeper_priority rt raw = Ok p"
  shows "distinct (map fst p)" "set (map fst p) = UNIV" "enabled_sizes p \<le> 1"
proof -
  have "distinct (map fst p) \<and> set (map fst p) = UNIV \<and> enabled_sizes p \<le> 1"
  proof (cases raw)
    case None
    with assms all_criteria default_sizes show ?thesis
      by (auto simp: normalize_keeper_priority_def default_keeper_priority_def)
  next
    case (Some entries)
    with assms obtain q where q: "read_priority rt entries [] = Ok q" "p = one_size False (append_missing q)"
      by (auto simp: normalize_keeper_priority_def result_simps)
    have "distinct (map fst q)" by (rule read_priority_distinct[OF q(1)]) simp
    from append_missing_complete[OF this] one_size_bound[of False "append_missing q"] show ?thesis
      by (simp add: q(2) del: set_map)
  qed
  then show "distinct (map fst p)" "set (map fst p) = UNIV" "enabled_sizes p \<le> 1" by simp_all
qed

text \<open>The keeper priority is complete and survives being stored.\<close>

theorem keeper_priority_roundtrip:
  assumes "normalize_keeper_priority rt raw = Ok p"
  shows "normalize_keeper_priority rt (Some (keeper_priority_payload p)) = Ok p \<and>
         distinct (map fst p) \<and> set (map fst p) = UNIV \<and>
         length (filter (\<lambda>(c, enabled). is_size c \<and> enabled) p) \<le> 1"
  using normalized_priority[OF assms] read_payload[of "[]" p rt] append_missing_id[of p] one_size_id[of p False]
  by (simp add: normalize_keeper_priority_def enabled_sizes_def)

lemma keeper_priority_roundtrip_witness:
  "normalize_keeper_priority demo_runtime (Some (keeper_priority_payload
     [(SIZE_SMALLER, True), (SIZE_LARGER, False), (RESOLUTION, False), (DOLBY_VISION, False), (HDR, False),
      (VIDEO_CODEC, False), (AUDIO_CHANNELS, False), (VIDEO_BITRATE, False)])) =
   Ok [(SIZE_SMALLER, True), (SIZE_LARGER, False), (RESOLUTION, False), (DOLBY_VISION, False), (HDR, False),
      (VIDEO_CODEC, False), (AUDIO_CHANNELS, False), (VIDEO_BITRATE, False)]"
proof -
  have "normalize_keeper_priority demo_runtime
      (Some [PDict [(''key'', PStr ''size_smaller'')], PDict [(''key'', PStr ''bogus'')], PDict [(''key'', PStr ''size_larger'')]]) =
    Ok [(SIZE_SMALLER, True), (SIZE_LARGER, False), (RESOLUTION, False), (DOLBY_VISION, False), (HDR, False),
      (VIDEO_CODEC, False), (AUDIO_CHANNELS, False), (VIDEO_BITRATE, False)]"
    by code_simp
  from keeper_priority_roundtrip[OF this] show ?thesis by blast
qed

section \<open>Collapsing groups the rows by file\<close>

lemma uniq_acc_snoc: "uniq_acc seen (xs @ [x]) = uniq_acc seen xs @ (if x \<in> set seen \<union> set xs then [] else [x])"
  by (induction seen xs rule: uniq_acc.induct) auto

lemma uniq_snoc: "uniq (xs @ [x]) = uniq xs @ (if x \<in> set xs then [] else [x])"
  by (simp add: uniq_def uniq_acc_snoc)

lemma dput_map:
  "distinct ks \<Longrightarrow> k \<in> set ks \<Longrightarrow> dput k v (map (\<lambda>i. (i, F i)) ks) = map (\<lambda>i. (i, if i = k then v else F i)) ks"
  by (induction ks) (auto intro: map_cong)

lemma dput_new: "k \<notin> fst ` set d \<Longrightarrow> dput k v d = d @ [(k, v)]"
  by (induction k v d rule: dput.induct) auto

text \<open>The file that a non-empty list of rows describes.\<close>

definition file_of :: "version_row list \<Rightarrow> duplicate_file" where
  "file_of rs = foldl add_row (new_file (hd rs)) (tl rs)"

lemma file_of_snoc: "file_of (rs @ [r]) = (if rs = [] then new_file r else add_row (file_of rs) r)"
  by (cases rs) (simp_all add: file_of_def)

lemma merge_rows:
  "foldl merge_row [] rs = map (\<lambda>k. (k, file_of (filter (\<lambda>r. file_key r = k) rs))) (uniq (map file_key rs))"
proof (induction rs rule: rev_induct)
  case (snoc r rs)
  let ?F = "\<lambda>k. file_of (filter (\<lambda>r. file_key r = k) rs)" and ?ks = "uniq (map file_key rs)"
  let ?G = "\<lambda>k. file_of (filter (\<lambda>r. file_key r = k) (rs @ [r]))"
  have other: "?G k = ?F k" if "k \<noteq> file_key r" for k using that by simp
  show ?case
  proof (cases "file_key r \<in> set ?ks")
    case True
    have "map_of (map (\<lambda>k. (k, ?F k)) ?ks) (file_key r) = Some (?F (file_key r))"
      using True by (simp add: map_of_map_restrict)
    moreover have "add_row (?F (file_key r)) r = ?G (file_key r)"
      using True by (auto simp: file_of_snoc filter_empty_conv)
    ultimately have "merge_row (map (\<lambda>k. (k, ?F k)) ?ks) r = map (\<lambda>k. (k, if k = file_key r then ?G (file_key r) else ?F k)) ?ks"
      using True by (simp add: merge_row_def dput_map)
    also have "\<dots> = map (\<lambda>k. (k, ?G k)) ?ks" by auto
    finally show ?thesis using snoc True by (simp add: uniq_snoc del: filter_append)
  next
    case False
    have none: "map_of (map (\<lambda>k. (k, ?F k)) ?ks) (file_key r) = None"
      using False by (auto simp: map_of_eq_None_iff image_iff)
    have "merge_row (map (\<lambda>k. (k, ?F k)) ?ks) r = map (\<lambda>k. (k, ?F k)) ?ks @ [(file_key r, new_file r)]"
      using False none by (auto simp: merge_row_def dput_new image_iff)
    moreover have "filter (\<lambda>q. file_key q = file_key r) rs = []"
      using False unfolding filter_empty_conv set_uniq by (metis imageI list.set_map)
    then have "new_file r = ?G (file_key r)" by (simp add: file_of_def)
    moreover have "map (\<lambda>k. (k, ?F k)) ?ks = map (\<lambda>k. (k, ?G k)) ?ks"
      using False by auto
    ultimately have "merge_row (map (\<lambda>k. (k, ?F k)) ?ks) r = map (\<lambda>k. (k, ?G k)) ?ks @ [(file_key r, ?G (file_key r))]"
      by (simp only:)
    then show ?thesis using snoc False by (simp add: uniq_snoc del: filter_append)
  qed
qed (simp add: uniq_def)

lemma add_row_facts:
  "version_ids (add_row f r) = version_ids f @ [row_id r]"
  "file_facts.truncate (add_row f r) = file_facts.truncate f"
  "is_protected (add_row f r) = is_protected f"
  "set (service_item_ids (add_row f r)) = insert (row_item_id r) (set (service_item_ids f))"
  "set (library_ids (add_row f r)) = insert (row_library_id r) (set (library_ids f))"
  by (auto simp: add_row_def Let_def file_facts.defs)

lemma new_file_facts:
  "version_ids (new_file r) = [row_id r]" "file_facts.truncate (new_file r) = file_facts.truncate r"
  "\<not> is_protected (new_file r)" "service_item_ids (new_file r) = [row_item_id r]" "library_ids (new_file r) = [row_library_id r]"
  by (simp_all add: new_file_def file_facts.defs)

lemma file_of_facts:
  assumes "rs \<noteq> []"
  shows "version_ids (file_of rs) = map row_id rs" "file_facts.truncate (file_of rs) = file_facts.truncate (hd rs)"
    "\<not> is_protected (file_of rs)" "set (service_item_ids (file_of rs)) = row_item_id ` set rs"
    "set (library_ids (file_of rs)) = row_library_id ` set rs"
  using assms
proof (induction rs rule: rev_induct)
  case (snoc r rs)
  { case 1 then show ?case using snoc by (auto simp: file_of_snoc add_row_facts new_file_facts) }
  { case 2 then show ?case using snoc by (auto simp: file_of_snoc add_row_facts new_file_facts) }
  { case 3 then show ?case using snoc by (auto simp: file_of_snoc add_row_facts new_file_facts) }
  { case 4 then show ?case using snoc by (auto simp: file_of_snoc add_row_facts new_file_facts) }
  { case 5 then show ?case using snoc by (auto simp: file_of_snoc add_row_facts new_file_facts) }
qed simp_all

lemma collapse_twins_groups:
  "collapse_twins rows =
     (let rs = sort_key row_id rows
      in map (\<lambda>k. file_of (filter (\<lambda>r. file_key r = k) rs)) (uniq (map file_key rs)))"
  by (simp add: collapse_twins_def merge_rows Let_def comp_def)

lemma row_of_key: "k \<in> set (uniq (map file_key rs)) \<Longrightarrow> filter (\<lambda>r. file_key r = k) rs \<noteq> []"
  by (auto simp: filter_empty_conv)

lemma collapse_file:
  assumes "f \<in> set (collapse_twins rows)"
  obtains k where "k \<in> file_key ` set rows" "set (version_ids f) = row_id ` {r \<in> set rows. file_key r = k}"
    "\<not> is_protected f" "f = file_of (filter (\<lambda>r. file_key r = k) (sort_key row_id rows))"
proof -
  let ?rs = "sort_key row_id rows"
  obtain k where k: "k \<in> set (uniq (map file_key ?rs))" "f = file_of (filter (\<lambda>r. file_key r = k) ?rs)"
    using assms by (auto simp: collapse_twins_groups Let_def)
  have "filter (\<lambda>r. file_key r = k) ?rs \<noteq> []" by (rule row_of_key[OF k(1)])
  note facts = file_of_facts[OF this]
  show thesis by (rule that[OF _ _ _ k(2)]) (use k facts in \<open>auto simp: set_map\<close>)
qed

lemma collapse_covers:
  assumes "r \<in> set rows"
  shows "\<exists>f \<in> set (collapse_twins rows). set (version_ids f) = row_id ` {s \<in> set rows. file_key s = file_key r}"
proof -
  let ?rs = "sort_key row_id rows"
  have k: "file_key r \<in> set (uniq (map file_key ?rs))" using assms by simp
  show ?thesis
    by (rule bexI[of _ "file_of (filter (\<lambda>s. file_key s = file_key r) ?rs)"])
      (use k file_of_facts(1)[OF row_of_key[OF k]] in \<open>auto simp: collapse_twins_groups Let_def\<close>)
qed

text \<open>Twin rows are one file.  Collapsing yields as many files as there are distinct normalised paths
  (rows without a path count for themselves), every row belongs to a file, and two rows belong to the
  same file exactly when their paths are the same.\<close>

theorem twins_are_one_file:
  assumes "distinct (map row_id rows)"
  shows "length (collapse_twins rows) = card (file_key ` set rows) \<and>
         \<Union> (set ` version_ids ` set (collapse_twins rows)) = row_id ` set rows \<and>
         (\<forall>f \<in> set (collapse_twins rows). \<forall>r \<in> set rows. \<forall>s \<in> set rows. row_id r \<in> set (version_ids f) \<longrightarrow>
            (row_id s \<in> set (version_ids f) \<longleftrightarrow> file_key s = file_key r))"
proof (intro conjI ballI impI)
  show "length (collapse_twins rows) = card (file_key ` set rows)"
    by (simp add: collapse_twins_groups Let_def flip: distinct_card[OF distinct_uniq])
  show "\<Union> (set ` version_ids ` set (collapse_twins rows)) = row_id ` set rows"
    using collapse_covers by (auto elim!: collapse_file) (metis (mono_tags, lifting) collapse_covers image_eqI mem_Collect_eq)
  fix f r s assume *: "f \<in> set (collapse_twins rows)" "r \<in> set rows" "s \<in> set rows" "row_id r \<in> set (version_ids f)"
  have same: "x = y" if "x \<in> set rows" "y \<in> set rows" "row_id x = row_id y" for x y
    using assms that by (metis distinct_map inj_onD)
  obtain k where k: "set (version_ids f) = row_id ` {r \<in> set rows. file_key r = k}"
    using *(1) by (rule collapse_file)
  have "row_id x \<in> set (version_ids f) \<longleftrightarrow> file_key x = k" if "x \<in> set rows" for x
    unfolding k using same that by blast
  with * show "row_id s \<in> set (version_ids f) \<longleftrightarrow> file_key s = file_key r" by simp
qed

section \<open>Ranking\<close>

lemma set_rank_files [simp]: "set (rank_files fs p) = set fs"
  by (simp add: rank_files_def)

lemma length_rank_files [simp]: "length (rank_files fs p) = length fs"
  by (simp add: rank_files_def)

lemma sorted_last: "sorted (map k xs) \<Longrightarrow> x \<in> set xs \<Longrightarrow> k x \<le> k (last xs)"
  by (induction xs rule: rev_induct) (auto simp: sorted_append)

lemma rank_head: "f \<in> set fs \<Longrightarrow> rank_key p f \<le> rank_key p (hd (rank_files fs p))"
proof -
  assume "f \<in> set fs"
  let ?s = "sort_key (rank_key p) (rev fs)"
  have "sorted (map (rank_key p) ?s)" by (rule sorted_sort_key)
  moreover have f: "f \<in> set ?s" using \<open>f \<in> set fs\<close> by simp
  ultimately have "rank_key p f \<le> rank_key p (last ?s)"
    by (rule sorted_last)
  then show ?thesis using f by (simp add: rank_files_def hd_rev)
qed

lemma lexicographic:
  "map f cs @ t \<le> map g cs @ u \<longleftrightarrow>
     (\<exists>cs1 c cs2. cs = cs1 @ c # cs2 \<and> (\<forall>b \<in> set cs1. f b = g b) \<and> f c < g c) \<or>
     (\<forall>c \<in> set cs. f c = g c) \<and> t \<le> u" for f g :: "'a \<Rightarrow> int"
proof (induction cs)
  case (Cons a cs)
  have "(\<exists>cs1 c cs2. a # cs = cs1 @ c # cs2 \<and> (\<forall>b \<in> set cs1. f b = g b) \<and> f c < g c) \<longleftrightarrow>
      f a < g a \<or> f a = g a \<and> (\<exists>cs1 c cs2. cs = cs1 @ c # cs2 \<and> (\<forall>b \<in> set cs1. f b = g b) \<and> f c < g c)"
    (is "?L \<longleftrightarrow> ?R")
  proof
    assume ?L
    then obtain cs1 c cs2 where *: "a # cs = cs1 @ c # cs2" "\<forall>b \<in> set cs1. f b = g b" "f c < g c" by blast
    then show ?R by (cases cs1) auto
  next
    assume ?R
    then show ?L by (metis append_Cons append_Nil empty_iff list.set(1) set_ConsD)
  qed
  moreover have "map f (a # cs) @ t \<le> map g (a # cs) @ u \<longleftrightarrow> f a < g a \<or> f a = g a \<and> map f cs @ t \<le> map g cs @ u"
    by simp
  ultimately show ?case unfolding Cons by (simp only: list.set ball_simps) blast
qed simp

text \<open>The suggested keeper is the best file.  Against any other file of the group it wins on the first
  enabled criterion on which they differ; when they differ on none it was added later, or it was
  added at the same time and has the lower row number.\<close>

theorem keeper_wins:
  assumes "f \<in> set files" and "keeper = hd (rank_files files p)"
  shows "keeper \<in> set files \<and>
     ((\<exists>cs1 c cs2. enabled_criteria p = cs1 @ c # cs2 \<and>
          (\<forall>b \<in> set cs1. criterion_value b f = criterion_value b keeper) \<and> criterion_value c f < criterion_value c keeper) \<or>
      (\<forall>c \<in> set (enabled_criteria p). criterion_value c f = criterion_value c keeper) \<and>
      (or_zero (added_stamp f) < or_zero (added_stamp keeper) \<or>
       or_zero (added_stamp f) = or_zero (added_stamp keeper) \<and> min_list (version_ids keeper) \<le> min_list (version_ids f)))"
proof -
  have "rank_files files p \<noteq> []" using assms(1) set_rank_files[of files p] by (auto simp del: set_rank_files)
  then have "keeper \<in> set files" using assms(2) hd_in_set[of "rank_files files p"] by simp
  moreover have "rank_key p f \<le> rank_key p keeper" using rank_head[OF assms(1)] assms(2) by simp
  ultimately show ?thesis
    unfolding rank_key_def lexicographic by (auto simp: le_less)
qed

section \<open>What a plan is made of\<close>

lemma mark_protected_facts [simp]:
  "version_ids (mark_protected p f) = version_ids f" "service_item_ids (mark_protected p f) = service_item_ids f"
  "library_ids (mark_protected p f) = library_ids f" "file_path (mark_protected p f) = file_path f"
  "file_size (mark_protected p f) = file_size f" "file_service (mark_protected p f) = file_service f"
  by (simp_all add: mark_protected_def split: option.splits)

lemma build_group_facts:
  assumes "build_group digest meta rows priority prot multi ign = Some g"
  shows "set (group_files g) = mark_protected prot ` set (collapse_twins rows)"
    "length (group_files g) = length (collapse_twins rows)" "2 \<le> length (group_files g)"
    "group_meta.truncate g = group_meta.truncate meta"
    "group_files g = rank_files (map (mark_protected prot) (collapse_twins rows)) priority"
    "manual_reason g = manual_reason_of (map (mark_protected prot) (collapse_twins rows)) multi"
  using assms by (auto simp: build_group_def Let_def group_meta.defs split: if_splits)

declare mark_protected_facts [simp del]

lemma in_chunks: "(\<exists>c \<in> set (chunks xs). x \<in> set c) \<longleftrightarrow> x \<in> set xs"
proof (induction xs rule: chunks.induct)
  case (1 xs)
  show ?case
  proof (cases "xs = []")
    case False
    have "set xs = set (take sql_chunk xs) \<union> set (drop sql_chunk xs)" by (metis append_take_drop_id set_append)
    with 1 False show ?thesis by (subst chunks.simps) auto
  qed (simp add: chunks.simps)
qed

lemma set_select_in: "set (select_in col rows ids) = {r \<in> set rows. \<exists>i \<in> set ids. col r = Some i}"
  unfolding select_in_def by (auto split: option.splits) (metis in_chunks)+

lemma sort_single: "(case sort_key k xs of [] \<Rightarrow> None | g # _ \<Rightarrow> Some g) = Some g \<Longrightarrow> g \<in> set xs"
  by (metis list.case_eq_if list.set_sel(1) option.distinct(1) option.inject set_sort)

definition item_versions :: "duplicate_tables \<Rightarrow> media_type \<Rightarrow> (int \<times> version_row) list" where
  "item_versions db m = (if m = MOVIE then movie_versions db else episode_versions db)"

text \<open>The protection that a group of an item is built with.\<close>

definition item_protection :: "int \<Rightarrow> duplicate_tables \<Rightarrow> media_type \<Rightarrow> int \<Rightarrow> protection option \<Rightarrow> bool" where
  "item_protection now db m i prot \<longleftrightarrow>
     (\<forall>r \<in> set (protected_table db). protected_type r = m \<and> active_protection now r \<longrightarrow>
        (if m = MOVIE
         then protected_movie r = Some i \<longrightarrow>
              (\<exists>p. prot = Some p \<and> (case movie_version_id r of None \<Rightarrow> whole p | Some v \<Rightarrow> v \<in> set (protected_versions p)))
         else (\<forall>place. place_of db i = Some place \<and> protected_series r = Some (title_id (place_series place)) \<and>
                 (season_id r = None \<and> episode_id r = None \<or>
                  episode_id r = None \<and> season_id r = Some (row_season_id (place_season place)) \<or>
                  episode_id r = Some (row_episode_id (place_episode place))) \<longrightarrow>
              (\<exists>p. prot = Some p \<and> whole p))))"

lemma movie_groups_built:
  assumes "g \<in> set (movie_groups digest ilike now db priority (Some [i]) search)"
  obtains meta prot multi ign where "build_group digest meta (rows_of (movie_versions db) i) priority prot multi ign = Some g"
    "item_protection now db MOVIE i prot"
proof -
  let ?P = "\<lambda>(m, r). has_many (movie_versions db) m \<and> wanted_id (Some [i]) m \<and>
              (case live_title (movies db) m of None \<Rightarrow> False | Some t \<Rightarrow> matches_search ilike search (title_text t))"
  define versions where "versions = filter ?P (movie_versions db)"
  define ids where "ids = uniq (map fst versions)"
  define protections where "protections = select_in (\<lambda>r. if protected_type r = MOVIE \<and> active_protection now r then protected_movie r else None)
            (protected_table db) ids"
  obtain m t where m: "m \<in> set ids" and t: "live_title (movies db) m = Some t"
    and g: "build_group digest (movie_meta t) (rows_of versions m) priority (movie_protection protections m) []
                (map_of (ignored_fingerprints db MOVIE ids) m) = Some g"
    using assms unfolding movie_groups_def Let_def versions_def[symmetric] ids_def[symmetric] protections_def[symmetric]
    by (auto split: option.splits)
  have mi: "m = i" and all: "?P (m, r)" for r
    using m by (auto simp: ids_def versions_def wanted_id_def)
  have "filter (\<lambda>(j, r). j = m) versions = filter (\<lambda>(j, r). j = m) (movie_versions db)"
    unfolding versions_def filter_filter by (rule filter_cong[OF refl]) (use all in auto)
  then have "rows_of versions m = rows_of (movie_versions db) i" by (simp add: rows_of_def mi)
  moreover have "item_protection now db MOVIE i (movie_protection protections m)"
    unfolding item_protection_def
  proof (intro ballI impI, simp only: if_True simp_thms, intro impI)
    fix r assume r: "r \<in> set (protected_table db)" "protected_type r = MOVIE \<and> active_protection now r" "protected_movie r = Some i"
    then have "r \<in> set (filter (\<lambda>r. protected_movie r = Some m) protections)"
      using m mi by (auto simp: protections_def set_select_in)
    then show "\<exists>p. movie_protection protections m = Some p \<and> (case movie_version_id r of None \<Rightarrow> whole p | Some v \<Rightarrow> v \<in> set (protected_versions p))"
      by (auto simp: movie_protection_def Let_def list_ex_iff filter_empty_conv image_iff split: option.splits)
  qed
  ultimately show thesis using that g by metis
qed

lemma episode_groups_built:
  assumes "g \<in> set (episode_groups digest ilike now db priority (Some [i]) search)"
  obtains meta prot multi ign where "build_group digest meta (rows_of (episode_versions db) i) priority prot multi ign = Some g"
    "item_protection now db SERIES i prot"
proof -
  let ?P = "\<lambda>(e, r). has_many (episode_versions db) e \<and> wanted_id (Some [i]) e \<and>
              (case place_of db e of None \<Rightarrow> False | Some p \<Rightarrow> matches_search ilike search (title_text (place_series p)))"
  define versions where "versions = filter ?P (episode_versions db)"
  define ids where "ids = uniq (map fst versions)"
  define series_ids where "series_ids = sort (uniq (map (\<lambda>p. title_id (place_series p)) (somes (map (place_of db) ids))))"
  define protections where "protections = select_in (\<lambda>r. if protected_type r = SERIES \<and> active_protection now r then protected_series r else None)
            (protected_table db) series_ids"
  obtain e p where e: "e \<in> set ids" and p: "place_of db e = Some p"
    and g: "build_group digest (episode_meta p) (rows_of versions e) priority
                (Some \<lparr>whole = episode_covered protections p, protected_versions = []\<rparr>) (multi_episode_paths_of db versions)
                (map_of (ignored_fingerprints db SERIES ids) e) = Some g"
    using assms unfolding episode_groups_def Let_def versions_def[symmetric] ids_def[symmetric] series_ids_def[symmetric] protections_def[symmetric]
    by (auto split: option.splits)
  have ei: "e = i" and all: "?P (e, r)" for r
    using e by (auto simp: ids_def versions_def wanted_id_def)
  have "filter (\<lambda>(j, r). j = e) versions = filter (\<lambda>(j, r). j = e) (episode_versions db)"
    unfolding versions_def filter_filter by (rule filter_cong[OF refl]) (use all in auto)
  then have "rows_of versions e = rows_of (episode_versions db) i" by (simp add: rows_of_def ei)
  moreover have "item_protection now db SERIES i (Some \<lparr>whole = episode_covered protections p, protected_versions = []\<rparr>)"
    unfolding item_protection_def
  proof (intro ballI impI, simp only: if_False media_type.distinct simp_thms, intro allI impI)
    fix r place
    assume r: "r \<in> set (protected_table db)" "protected_type r = SERIES \<and> active_protection now r"
      and place: "place_of db i = Some place \<and> protected_series r = Some (title_id (place_series place)) \<and>
           (season_id r = None \<and> episode_id r = None \<or>
            episode_id r = None \<and> season_id r = Some (row_season_id (place_season place)) \<or>
            episode_id r = Some (row_episode_id (place_episode place)))"
    then have "place = p" using p ei by simp
    moreover have "title_id (place_series p) \<in> set series_ids"
      unfolding series_ids_def set_sort set_uniq set_map set_somes using e p by force
    ultimately have "r \<in> set protections" using r place by (simp add: protections_def set_select_in)
    with place \<open>place = p\<close> show "\<exists>q. Some \<lparr>whole = episode_covered protections p, protected_versions = []\<rparr> = Some q \<and> whole q"
      by (auto simp: episode_covered_def list_ex_iff)
  qed
  ultimately show thesis using that g by metis
qed

lemma planned_group:
  assumes "plan_duplicate_delete rt digest ilike now db m i picked = Ok (g, selected)"
  obtains meta priority prot multi ign where
    "build_group digest meta (rows_of (item_versions db m) i) priority prot multi ign = Some g"
    "item_protection now db m i prot" "\<not> some_text (manual_reason g)" "picked \<noteq> []"
    "\<forall>v \<in> set picked. \<exists>f \<in> set (group_files g). v \<in> set (version_ids f)"
    "selected = filter (\<lambda>f. list_ex (List.member (version_ids f)) picked) (group_files g)"
    "length selected < length (group_files g)" "\<forall>f \<in> set selected. \<not> is_protected f"
proof -
  from assms obtain og where og: "load_group rt digest ilike now db m i = Ok og"
    unfolding plan_duplicate_delete_def rbind_Ok_iff by blast
  with assms obtain g' where g': "load_group rt digest ilike now db m i = Ok (Some g')"
    by (cases og) (auto simp: plan_duplicate_delete_def)
  with assms have plan: "g' = g" "\<not> some_text (manual_reason g)" "picked \<noteq> []"
      "\<forall>v \<in> set picked. \<exists>f \<in> set (group_files g). v \<in> set (version_ids f)"
      "selected = filter (\<lambda>f. list_ex (List.member (version_ids f)) picked) (group_files g)"
      "length selected < length (group_files g)" "\<forall>f \<in> set selected. \<not> is_protected f"
    by (auto simp: plan_duplicate_delete_def Let_def list_all_iff list_ex_iff split: if_splits)
  from g' plan(1) obtain priority where
    "g \<in> set (if m = MOVIE then movie_groups digest ilike now db priority (Some [i]) None
              else episode_groups digest ilike now db priority (Some [i]) None)"
    unfolding load_group_def load_duplicate_groups_def rbind_Ok_iff
    by (cases m) (auto simp: or_empty_def dest!: sort_single)
  then obtain meta prot multi ign where
    "build_group digest meta (rows_of (item_versions db m) i) priority prot multi ign = Some g" "item_protection now db m i prot"
    by (cases m) (auto simp: item_versions_def elim: movie_groups_built episode_groups_built)
  with plan that show thesis by metis
qed

lemma group_file:
  assumes "build_group digest meta rows priority prot multi ign = Some g" "f \<in> set (group_files g)"
  obtains k where "k \<in> file_key ` set rows" "set (version_ids f) = row_id ` {r \<in> set rows. file_key r = k}"
proof -
  obtain f' where "f' \<in> set (collapse_twins rows)" "version_ids f = version_ids f'"
    using build_group_facts(1)[OF assms(1)] assms(2) by (auto simp: mark_protected_facts)
  with that show thesis by (metis collapse_file)
qed

text \<open>C36: a duplicate deletion keeps a file.  Whatever rows were picked, an accepted plan leaves a row of the
  item whose path is none of the paths that are removed; it removes only files of the item of which
  a row was picked, and every picked row is removed.\<close>

theorem planned_delete_keeps_a_file:
  assumes "plan_duplicate_delete rt digest ilike now db m i picked = Ok (g, selected)"
  defines "rows \<equiv> rows_of (item_versions db m) i"
  assumes "distinct (map row_id rows)"
  shows "(\<exists>r \<in> set rows. \<forall>f \<in> set selected. \<forall>s \<in> set rows. row_id s \<in> set (version_ids f) \<longrightarrow> file_key s \<noteq> file_key r) \<and>
         (\<forall>f \<in> set selected. set (version_ids f) \<inter> set picked \<noteq> {} \<and> set (version_ids f) \<subseteq> row_id ` set rows) \<and>
         set picked \<subseteq> \<Union> (set ` version_ids ` set selected)"
proof -
  obtain meta priority prot multi ign where
    g: "build_group digest meta rows priority prot multi ign = Some g" and p: "picked \<noteq> []"
      "\<forall>v \<in> set picked. \<exists>f \<in> set (group_files g). v \<in> set (version_ids f)"
    and sel: "selected = filter (\<lambda>f. list_ex (List.member (version_ids f)) picked) (group_files g)"
      "length selected < length (group_files g)"
    using planned_group[OF assms(1)] unfolding rows_def by metis
  obtain k where k: "k \<in> set (group_files g)" "\<not> list_ex (List.member (version_ids k)) picked"
    using sel by (metis filter_True less_irrefl)
  obtain key where key: "key \<in> file_key ` set rows" "set (version_ids k) = row_id ` {r \<in> set rows. file_key r = key}"
    using group_file[OF g k(1)] by metis
  then obtain r where r: "r \<in> set rows" "file_key r = key" by blast
  have same: "x = y" if "x \<in> set rows" "y \<in> set rows" "row_id x = row_id y" for x y
    using assms(3) that by (metis distinct_map inj_onD)
  have "file_key s \<noteq> file_key r" if f: "f \<in> set selected" and s: "s \<in> set rows" "row_id s \<in> set (version_ids f)" for f s
  proof
    assume "file_key s = file_key r"
    obtain kf where kf: "set (version_ids f) = row_id ` {r \<in> set rows. file_key r = kf}"
      using group_file[OF g] f sel(1) by (metis filter_is_subset subsetD)
    with s same have "kf = file_key s" by blast
    with kf key r \<open>file_key s = file_key r\<close> have "set (version_ids f) = set (version_ids k)" by simp
    with f sel(1) k(2) show False by (auto simp: list_ex_iff)
  qed
  moreover have "set (version_ids f) \<inter> set picked \<noteq> {} \<and> set (version_ids f) \<subseteq> row_id ` set rows" if "f \<in> set selected" for f
    using that sel(1) group_file[OF g, of f] by (auto simp: list_ex_iff)
  moreover have "set picked \<subseteq> \<Union> (set ` version_ids ` set selected)"
    using p(2) sel(1) by (fastforce simp: list_ex_iff)
  ultimately show ?thesis using r(1) by metis
qed

text \<open>C37: a duplicate deletion spares what is protected.  No row of a file that an accepted plan removes
  lies in the scope of an active protection of its movie version, or of its episode, season or
  series.\<close>

theorem planned_delete_spares_protected:
  assumes "plan_duplicate_delete rt digest ilike now db m i picked = Ok (g, selected)"
    and "r \<in> set (protected_table db)" "protected_type r = m" "active_protection now r"
    and "f \<in> set selected" "v \<in> set (version_ids f)"
    and target: "if m = MOVIE then file = Version_File i v
       else \<exists>p. place_of db i = Some p \<and>
              file = Episode_File (title_id (place_series p)) (row_season_id (place_season p)) (row_episode_id (place_episode p))"
  shows "\<not> file_in_scope (protected_movie r) (protected_series r) r file"
proof
  assume scope: "file_in_scope (protected_movie r) (protected_series r) r file"
  obtain meta priority prot multi ign where
    g: "build_group digest meta (rows_of (item_versions db m) i) priority prot multi ign = Some g"
    and prot: "item_protection now db m i prot"
    and sel: "set selected \<subseteq> set (group_files g)" "\<not> is_protected f"
    using planned_group[OF assms(1)] assms(5) by (metis filter_is_subset)
  have "\<exists>p. prot = Some p \<and> (whole p \<or> v \<in> set (protected_versions p))"
  proof (cases "m = MOVIE")
    case True
    then show ?thesis
      using prot assms(2-4) scope target by (fastforce simp: item_protection_def split: option.splits)
  next
    case False
    then obtain p where "place_of db i = Some p"
        "file = Episode_File (title_id (place_series p)) (row_season_id (place_season p)) (row_episode_id (place_episode p))"
      using target by auto
    then show ?thesis
      using prot assms(2-4) scope False by (fastforce simp: item_protection_def)
  qed
  then obtain p where p: "prot = Some p" "whole p \<or> v \<in> set (protected_versions p)" by blast
  obtain f' where "f = mark_protected prot f'"
    using build_group_facts(1)[OF g] sel(1) assms(5) by auto
  with p assms(6) have "is_protected f" by (auto simp: mark_protected_def list_ex_iff)
  with sel(2) show False by simp
qed

section \<open>An example\<close>

definition demo_version :: "int \<Rightarrow> string \<Rightarrow> int \<Rightarrow> version_row" where
  "demo_version i path height =
     \<lparr>file_service = PLEX, file_path = Some path, file_size = 7, added_stamp = None, video_resolution = None,
      video_width = None, video_height = Some height, video_codec_family = None, video_hdr = None,
      video_dolby_vision = None, video_bitrate = None, audio_codec_family = None, audio_channels = None,
      row_id = i, row_item_id = ''a'', row_library_id = ''1'', row_library_name = ''Films''\<rparr>"

definition demo_duplicates :: duplicate_tables where
  "demo_duplicates =
     \<lparr>movie_versions = [(5, demo_version 1 ''/m/a.mkv'' 720), (5, demo_version 2 ''/m/b.mkv'' 1080), (5, demo_version 3 ''/m/a.mkv/'' 720)],
      movies = [\<lparr>title_id = 5, title_text = ''A'', title_year = None, title_poster = None, title_removed = False\<rparr>],
      episode_versions = [], episodes = [], seasons = [], series = [],
      protected_table = [(demo_row None True None)\<lparr>protected_type := MOVIE, protected_movie := Some 5, protected_series := None,
                           movie_version_id := Some 2\<rparr>],
      ignores = [], stored_priority = None\<rparr>"

definition demo_plan :: "(duplicate_group \<times> duplicate_file list) result" where
  "demo_plan = plan_duplicate_delete demo_runtime (\<lambda>s. s) (\<lambda>_ _. True) 0 demo_duplicates MOVIE 5 [3]"

lemma demo_plan_selects: "(case demo_plan of Ok (g, fs) \<Rightarrow> map version_ids fs = [[1, 3]] | Raise e \<Rightarrow> False)"
  by code_simp

lemma demo_plan_Ok:
  obtains g f where "plan_duplicate_delete demo_runtime (\<lambda>s. s) (\<lambda>_ _. True) 0 demo_duplicates MOVIE 5 [3] = Ok (g, [f])"
    "version_ids f = [1, 3]"
  using demo_plan_selects unfolding demo_plan_def by (auto split: result.splits prod.splits)

lemma keeper_wins_witness:
  "criterion_value RESOLUTION (new_file (demo_version 1 ''a'' 720)) < criterion_value RESOLUTION (new_file (demo_version 2 ''b'' 1080))"
proof -
  let ?fs = "[new_file (demo_version 1 ''a'' 720), new_file (demo_version 2 ''b'' 1080)]"
  have "version_ids (hd (rank_files ?fs [(RESOLUTION, True)])) = [2]" by code_simp
  moreover have "enabled_criteria [(RESOLUTION, True)] = [RESOLUTION]" by code_simp
  moreover have "hd (rank_files ?fs [(RESOLUTION, True)]) \<in> set ?fs" using keeper_wins[of "hd ?fs" ?fs] by simp
  ultimately have "hd (rank_files ?fs [(RESOLUTION, True)]) = new_file (demo_version 2 ''b'' 1080)"
    by (auto simp: new_file_facts demo_version_def)
  with keeper_wins[of "hd ?fs" ?fs _ "[(RESOLUTION, True)]", OF _ refl] \<open>enabled_criteria _ = _\<close>
  show ?thesis by (auto simp: new_file_def demo_version_def file_facts.defs criterion_value_def resolution_height_def or_zero_def)
qed

lemma twins_are_one_file_witness:
  "length (collapse_twins (rows_of (movie_versions demo_duplicates) 5)) =
   card (file_key ` set (rows_of (movie_versions demo_duplicates) 5))"
  by (rule conjunct1[OF twins_are_one_file]) (simp add: demo_duplicates_def rows_of_def demo_version_def)

lemma planned_delete_keeps_a_file_witness:
  "\<exists>r \<in> set (rows_of (item_versions demo_duplicates MOVIE) 5). row_id r = 2"
proof (rule demo_plan_Ok)
  fix g f
  assume plan: "plan_duplicate_delete demo_runtime (\<lambda>s. s) (\<lambda>_ _. True) 0 demo_duplicates MOVIE 5 [3] = Ok (g, [f])"
    and f: "version_ids f = [1, 3]"
  let ?rows = "rows_of (item_versions demo_duplicates MOVIE) 5"
  have rows: "?rows = [demo_version 1 ''/m/a.mkv'' 720, demo_version 2 ''/m/b.mkv'' 1080, demo_version 3 ''/m/a.mkv/'' 720]"
    by (simp add: item_versions_def rows_of_def demo_duplicates_def)
  then have "distinct (map row_id ?rows)" by (simp add: demo_version_def)
  from planned_delete_keeps_a_file[OF plan this] obtain r where r: "r \<in> set ?rows"
    "\<And>s. s \<in> set ?rows \<Longrightarrow> row_id s \<in> set (version_ids f) \<Longrightarrow> file_key s \<noteq> file_key r" by auto
  then have "row_id r \<notin> {1, 3}" using f by auto
  with r(1) rows have "row_id r = 2" by (auto simp: demo_version_def)
  with r(1) show ?thesis by blast
qed

lemma planned_delete_spares_protected_witness:
  "\<not> file_in_scope (protected_movie (hd (protected_table demo_duplicates))) (protected_series (hd (protected_table demo_duplicates)))
     (hd (protected_table demo_duplicates)) (Version_File 5 1)"
proof (rule demo_plan_Ok)
  fix g f
  assume plan: "plan_duplicate_delete demo_runtime (\<lambda>s. s) (\<lambda>_ _. True) 0 demo_duplicates MOVIE 5 [3] = Ok (g, [f])"
    and f: "version_ids f = [1, 3]"
  show ?thesis
    by (rule planned_delete_spares_protected[OF plan, of _ f 1])
      (simp_all add: f, simp_all add: demo_duplicates_def demo_row_def active_protection_def)
qed

section \<open>Items of Jellyfin and Emby hold one file\<close>

lemma claim_items_owners:
  "claim_items index ids owners = Some owners' \<Longrightarrow>
     (\<forall>i \<in> set ids. map_of owners' i = Some index) \<and>
     (\<forall>i ow. map_of owners i = Some ow \<longrightarrow> map_of owners' i = Some ow) \<and>
     (\<forall>i ow. map_of owners' i = Some ow \<longrightarrow> map_of owners i = Some ow \<or> ow = index)"
proof (induction index ids owners rule: claim_items.induct)
  case (2 index i ids owners)
  show ?case
  proof (cases "map_of owners i")
    case None
    with 2(3) have "claim_items index ids (dput i index owners) = Some owners'" by simp
    from 2(1)[OF None this] have ih: "\<And>j. j \<in> set ids \<Longrightarrow> map_of owners' j = Some index"
        "\<And>j ow. (if j = i then Some index else map_of owners j) = Some ow \<Longrightarrow> map_of owners' j = Some ow"
        "\<And>j ow. map_of owners' j = Some ow \<Longrightarrow> (if j = i then Some index else map_of owners j) = Some ow \<or> ow = index"
      by (simp_all add: map_of_dput fun_upd_def)
    show ?thesis
    proof (intro conjI allI impI ballI)
      show "map_of owners' j = Some index" if "j \<in> set (i # ids)" for j using that ih(1)[of j] ih(2)[of i index] by auto
      show "map_of owners' j = Some ow" if "map_of owners j = Some ow" for j ow
        using that ih(2)[of j ow] None by (cases "j = i") auto
      show "map_of owners j = Some ow \<or> ow = index" if "map_of owners' j = Some ow" for j ow
        using ih(3)[OF that] by (auto split: if_splits)
    qed
  next
    case (Some ow)
    with 2 show ?thesis by (auto split: if_splits)
  qed
qed auto

lemma claim_items_free:
  "claim_items index ids owners = Some owners' \<Longrightarrow> i \<in> set ids \<Longrightarrow> map_of owners i = Some ow \<Longrightarrow> ow = index"
  using claim_items_owners[of index ids owners owners'] by fastforce

definition apart :: "duplicate_file \<Rightarrow> duplicate_file \<Rightarrow> bool" where
  "apart f g \<longleftrightarrow> file_service f = PLEX \<or> file_service g = PLEX \<or> set (service_item_ids f) \<inter> set (service_item_ids g) = {}"

lemma unshared_apart:
  "\<not> shares_item index files owners \<Longrightarrow> \<forall>i ow. map_of owners i = Some ow \<longrightarrow> ow < index \<Longrightarrow>
   sorted_wrt apart files \<and>
   (\<forall>f \<in> set files. file_service f \<noteq> PLEX \<longrightarrow> (\<forall>i \<in> set (service_item_ids f). map_of owners i = None))"
proof (induction index files owners rule: shares_item.induct)
  case (2 index f files owners)
  show ?case
  proof (cases "file_service f = PLEX")
    case True
    with "2.IH"(1) "2.prems" show ?thesis by (auto simp: apart_def less_Suc_eq)
  next
    case False
    then obtain owners' where o: "claim_items index (service_item_ids f) owners = Some owners'"
      and rest: "\<not> shares_item (Suc index) files owners'"
      using "2.prems"(1) by (auto split: option.splits)
    note own = claim_items_owners[OF o]
    have "\<forall>i ow. map_of owners' i = Some ow \<longrightarrow> ow < Suc index"
      using own "2.prems"(2) by (metis less_Suc_eq)
    then have ih: "sorted_wrt apart files"
      "\<forall>g \<in> set files. file_service g \<noteq> PLEX \<longrightarrow> (\<forall>i \<in> set (service_item_ids g). map_of owners' i = None)"
      using "2.IH"(2)[OF False o rest] by simp_all
    have "apart f g" if "g \<in> set files" for g
      using ih(2) own that by (auto simp: apart_def)
    moreover have "map_of owners i = None" if "i \<in> set (service_item_ids f)" for i
      using claim_items_free[OF o that] "2.prems"(2) by (metis less_irrefl not_Some_eq)
    moreover have "map_of owners i = None" if "g \<in> set files" "file_service g \<noteq> PLEX" "i \<in> set (service_item_ids g)" for g i
      using ih(2) own that by (metis not_Some_eq)
    ultimately show ?thesis using ih(1) by auto
  qed
qed simp

lemma sorted_wrt_pair:
  "sorted_wrt P xs \<Longrightarrow> x \<in> set xs \<Longrightarrow> y \<in> set xs \<Longrightarrow> x = y \<or> P x y \<or> P y x"
  by (induction xs) auto

text \<open>Removing an item removes one file.  In an accepted plan, two different files of the group share
  no item of the media server, unless the server is Plex, which removes single versions; so removing
  the items of a selected file leaves the kept files alone.\<close>

theorem planned_items_hold_one_file:
  assumes "plan_duplicate_delete rt digest ilike now db m i picked = Ok (g, selected)"
    and "f \<in> set selected" "k \<in> set (group_files g)" "k \<noteq> f"
    and "file_service f \<noteq> PLEX" "file_service k \<noteq> PLEX"
  shows "set (service_item_ids f) \<inter> set (service_item_ids k) = {}"
proof -
  obtain meta priority prot multi ign where
    g: "build_group digest meta (rows_of (item_versions db m) i) priority prot multi ign = Some g"
    and ok: "\<not> some_text (manual_reason g)" and f: "f \<in> set (group_files g)"
    using planned_group[OF assms(1)] assms(2) by (metis filter_is_subset subsetD)
  let ?fs = "map (mark_protected prot) (collapse_twins (rows_of (item_versions db m) i))"
  have "\<not> shares_item 0 ?fs []"
    using ok build_group_facts(6)[OF g] by (auto simp: manual_reason_of_def some_text_def split: if_splits)
  then have "sorted_wrt apart ?fs" using unshared_apart by auto
  from sorted_wrt_pair[OF this, of f k] f assms(3-6) build_group_facts(1)[OF g] show ?thesis
    by (auto simp: apart_def)
qed

definition demo_jellyfin :: duplicate_tables where
  "demo_jellyfin = demo_duplicates\<lparr>movie_versions :=
     [(5, (demo_version 1 ''/m/a.mkv'' 720)\<lparr>file_service := JELLYFIN\<rparr>),
      (5, (demo_version 2 ''/m/b.mkv'' 1080)\<lparr>file_service := JELLYFIN, row_item_id := ''b''\<rparr>)]\<rparr>"

definition demo_jellyfin_plan :: "(duplicate_group \<times> duplicate_file list) result" where
  "demo_jellyfin_plan = plan_duplicate_delete demo_runtime (\<lambda>s. s) (\<lambda>_ _. True) 0 demo_jellyfin MOVIE 5 [1]"

lemma demo_jellyfin_files:
  "(case demo_jellyfin_plan of Raise e \<Rightarrow> False
    | Ok (g, fs) \<Rightarrow> map (\<lambda>f. (version_ids f, service_item_ids f, file_service f)) (group_files g) =
        [([2], [''b''], JELLYFIN), ([1], [''a''], JELLYFIN)] \<and> map version_ids fs = [[1]] \<and> list_all (List.member (group_files g)) fs)"
  by code_simp

lemma planned_items_hold_one_file_witness: "set [''a''] \<inter> set [''b''] = {}"
proof -
  obtain g fs where plan: "plan_duplicate_delete demo_runtime (\<lambda>s. s) (\<lambda>_ _. True) 0 demo_jellyfin MOVIE 5 [1] = Ok (g, fs)"
    and all: "map (\<lambda>f. (version_ids f, service_item_ids f, file_service f)) (group_files g) =
        [([2], [''b''], JELLYFIN), ([1], [''a''], JELLYFIN)]" "map version_ids fs = [[1]]" "list_all (List.member (group_files g)) fs"
    using demo_jellyfin_files unfolding demo_jellyfin_plan_def by (auto split: result.splits)
  obtain k f where kf: "group_files g = [k, f]" "service_item_ids k = [''b'']" "service_item_ids f = [''a'']"
      "file_service k = JELLYFIN" "file_service f = JELLYFIN" "version_ids k = [2]" "version_ids f = [1]"
    using all(1) by (auto simp: map_eq_Cons_conv)
  obtain s where "fs = [s]" "version_ids s = [1]" "s \<in> {k, f}" using all(2,3) kf(1) by (auto simp: map_eq_Cons_conv)
  with kf have "f \<in> set fs" "k \<noteq> f" by auto
  from planned_items_hold_one_file[OF plan this(1) _ this(2)] kf show ?thesis by simp
qed

end
