(* ===== verification/File_Store.thy ===== *)
theory File_Store
  imports Paths "HOL-Library.Sublist"
begin

text \<open>
  The disk under the file operations of \<open>backend/core/utils/filesystem.py\<close>: names and their
  stems, a store of entries addressed by resolved paths, and the calls of \<open>pathlib\<close>, \<open>os\<close>
  and \<open>shutil\<close> the code makes on it.  What a call does when the system lets it down (a rename
  across devices, a copy that stops or arrives cut off, an entry that cannot be removed) is
  decided by the record \<open>disk\<close>, over which every theorem quantifies.
\<close>

section \<open>Names\<close>

text \<open>\<open>PurePath.suffix\<close> and \<open>PurePath.stem\<close>: the last dot counts unless it is the first or the last character.\<close>

definition suffix_index :: "string \<Rightarrow> nat option" where
  "suffix_index name =
     (let after = length (takeWhile (\<lambda>c. c \<noteq> CHR ''.'') (rev name)); i = length name - 1 - after
      in if after < length name \<and> 0 < i \<and> i < length name - 1 then Some i else None)"

definition path_suffix :: "string \<Rightarrow> string" where
  "path_suffix name = (case suffix_index name of None \<Rightarrow> [] | Some i \<Rightarrow> drop i name)"

definition path_stem :: "string \<Rightarrow> string" where
  "path_stem name = (case suffix_index name of None \<Rightarrow> name | Some i \<Rightarrow> take i name)"

lemma stem_suffix: "path_stem name @ path_suffix name = name"
  by (simp add: path_stem_def path_suffix_def split: option.splits)

definition plain_name_char :: "char \<Rightarrow> bool" where
  "plain_name_char c \<longleftrightarrow> 97 \<le> code c \<and> code c \<le> 122 \<or> 48 \<le> code c \<and> code c \<le> 57"

definition compact_name :: "string \<Rightarrow> string" where
  "compact_name s = filter plain_name_char (py_lower s)"

definition name_tokens :: "string \<Rightarrow> string list" where
  "name_tokens s =
     filter (\<lambda>t. t \<noteq> []) (components (map (\<lambda>c. if plain_name_char c then c else CHR ''/'') (py_lower s)))"

text \<open>\<open>PurePath.name\<close> of a path text.\<close>

definition path_name :: "string \<Rightarrow> string" where
  "path_name raw =
     (let parts = filter (\<lambda>c. c \<noteq> [] \<and> c \<noteq> ''.'') (components raw) in if parts = [] then [] else last parts)"

section \<open>The store\<close>

text \<open>
  A path is the list of its components, symbolic links on the way resolved.  A link records
  what following it reads: the content of a regular file, or nothing when it dangles.  Links
  to directories and entries of other kinds than these are \<open>Special\<close>.
\<close>

type_synonym fpath = "string list"

datatype entry = File string | Directory | Link "string option" | Special

type_synonym store = "(fpath \<times> entry) list"

definition look :: "store \<Rightarrow> fpath \<Rightarrow> entry option" where
  "look t p = map_of t p"

definition is_dir :: "store \<Rightarrow> fpath \<Rightarrow> bool" where
  "is_dir t p \<longleftrightarrow> look t p = Some Directory"

definition is_symlink :: "store \<Rightarrow> fpath \<Rightarrow> bool" where
  "is_symlink t p = (case look t p of Some (Link _) \<Rightarrow> True | _ \<Rightarrow> False)"

text \<open>The bytes reading the path gives, links followed.\<close>

definition content :: "store \<Rightarrow> fpath \<Rightarrow> string option" where
  "content t p = (case look t p of Some (File c) \<Rightarrow> Some c | Some (Link c) \<Rightarrow> c | _ \<Rightarrow> None)"

definition is_file :: "store \<Rightarrow> fpath \<Rightarrow> bool" where
  "is_file t p \<longleftrightarrow> content t p \<noteq> None"

definition path_exists :: "store \<Rightarrow> fpath \<Rightarrow> bool" where
  "path_exists t p \<longleftrightarrow> look t p \<noteq> None \<and> look t p \<noteq> Some (Link None)"

text \<open>\<open>p.exists() or p.is_symlink()\<close>\<close>

definition occupied :: "store \<Rightarrow> fpath \<Rightarrow> bool" where
  "occupied t p \<longleftrightarrow> path_exists t p \<or> is_symlink t p"

lemma occupied_iff: "occupied t p \<longleftrightarrow> look t p \<noteq> None"
  by (auto simp: occupied_def path_exists_def is_symlink_def split: option.splits entry.splits)

text \<open>The names \<open>iterdir\<close> yields, each once.\<close>

definition listing :: "store \<Rightarrow> fpath \<Rightarrow> string list" where
  "listing t p = remdups (map last (filter (\<lambda>q. q \<noteq> [] \<and> butlast q = p) (map fst t)))"

definition sorted_directory_entries :: "store \<Rightarrow> fpath \<Rightarrow> string list" where
  "sorted_directory_entries t p = sort_key py_casefold (listing t p)"

definition count_regular_files :: "store \<Rightarrow> fpath \<Rightarrow> nat" where
  "count_regular_files t p =
     length (filter (\<lambda>q. strict_prefix p q \<and> (case look t q of Some (File _) \<Rightarrow> True | _ \<Rightarrow> False))
       (remdups (map fst t)))"

lemma listing_iff: "n \<in> set (listing t p) \<longleftrightarrow> look t (p @ [n]) \<noteq> None"
proof -
  have "q \<noteq> [] \<Longrightarrow> butlast q = p \<Longrightarrow> q = p @ [last q]" for q :: fpath by auto
  then show ?thesis
    by (auto simp: listing_def look_def map_of_eq_None_iff image_iff) (metis butlast_snoc fst_conv last_snoc snoc_eq_iff_butlast)+
qed

lemma set_sorted_entries [simp]: "set (sorted_directory_entries t p) = set (listing t p)"
  by (simp add: sorted_directory_entries_def)

lemma distinct_sorted_entries [simp]: "distinct (sorted_directory_entries t p)"
  by (simp add: sorted_directory_entries_def listing_def)

text \<open>Every entry lies in a directory.\<close>

definition well_formed :: "store \<Rightarrow> bool" where
  "well_formed t \<longleftrightarrow> (\<forall>q n. look t (q @ [n]) \<noteq> None \<longrightarrow> look t q = Some Directory)"

lemma below_directory:
  "well_formed t \<Longrightarrow> look t (q @ p) \<noteq> None \<Longrightarrow> p \<noteq> [] \<Longrightarrow> look t q = Some Directory"
proof (induction p rule: rev_induct)
  case (snoc x xs)
  then have "look t (q @ xs) = Some Directory"
    unfolding well_formed_def by (metis append_assoc)
  with snoc show ?case by (cases "xs = []") auto
qed simp

lemma below_absent: "well_formed t \<Longrightarrow> look t q = None \<Longrightarrow> look t (q @ p) = None"
  using below_directory[of t q p] by (cases "p = []") fastforce+

section \<open>Calls with effects\<close>

datatype copy_outcome = Copied string | Copy_Fails "string option"

record disk =
  sha256 :: "string \<Rightarrow> string"
  renames :: "fpath \<Rightarrow> fpath \<Rightarrow> bool"
  copied :: "fpath \<Rightarrow> string \<Rightarrow> copy_outcome"
  makes_dir :: "fpath \<Rightarrow> bool"
  removes :: "fpath \<Rightarrow> bool"
  resolved :: "string \<Rightarrow> fpath"

text \<open>
  \<open>FileExistsError\<close> with the two paths and the reason, every other \<open>OSError\<close>, and the
  \<open>RecursionError\<close> of a recursion deeper than the interpreter allows.  A call
  returns a value or an error, and in both cases the store it leaves and the counts of the
  move so far (\<open>_MoveStats\<close>).
\<close>

datatype move_error = File_Exists fpath fpath string | Os_Error | Recursion_Exhausted

record mover =
  tree :: store
  moved_files :: nat
  deduplicated_files :: nat

type_synonym 'a io = "mover \<Rightarrow> (move_error + 'a) \<times> mover"

definition io_return :: "'a \<Rightarrow> 'a io" where
  "io_return x m = (Inr x, m)"

definition io_raise :: "move_error \<Rightarrow> 'a io" where
  "io_raise e m = (Inl e, m)"

definition io_bind :: "'a io \<Rightarrow> ('a \<Rightarrow> 'b io) \<Rightarrow> 'b io" where
  "io_bind act f m = (case act m of (Inl e, m') \<Rightarrow> (Inl e, m') | (Inr x, m') \<Rightarrow> f x m')"

text \<open>\<open>try: ... except OSError:\<close> with a handler.\<close>

definition io_catch :: "'a io \<Rightarrow> 'a io \<Rightarrow> 'a io" where
  "io_catch act handler m = (case act m of (Inl e, m') \<Rightarrow> if e = Recursion_Exhausted then (Inl e, m') else handler m' | r \<Rightarrow> r)"

fun io_each :: "('a \<Rightarrow> unit io) \<Rightarrow> 'a list \<Rightarrow> unit io" where
  "io_each f [] m = io_return () m"
| "io_each f (x # xs) m = io_bind (f x) (\<lambda>_. io_each f xs) m"

definition on_tree :: "(store \<Rightarrow> store) \<Rightarrow> unit io" where
  "on_tree f m = (Inr (), m\<lparr>tree := f (tree m)\<rparr>)"

definition put :: "fpath \<Rightarrow> entry \<Rightarrow> store \<Rightarrow> store" where
  "put p e t = (p, e) # t"

definition erase :: "fpath \<Rightarrow> store \<Rightarrow> store" where
  "erase p t = filter (\<lambda>(q, _). q \<noteq> p) t"

lemma look_put [simp]: "look (put p e t) q = (if q = p then Some e else look t q)"
  by (simp add: look_def put_def)

lemma look_filter: "look (filter (\<lambda>(q, _). P q) t) q = (if P q then look t q else None)"
  by (induction t) (auto simp: look_def)

lemma look_erase [simp]: "look (erase p t) q = (if q = p then None else look t q)"
  by (simp add: erase_def look_filter)

definition unlink :: "disk \<Rightarrow> fpath \<Rightarrow> unit io" where
  "unlink env p m =
     (if removes env p \<and> look (tree m) p \<noteq> None \<and> \<not> is_dir (tree m) p then on_tree (erase p) m
      else io_raise Os_Error m)"

definition rmdir :: "disk \<Rightarrow> fpath \<Rightarrow> unit io" where
  "rmdir env p m =
     (if removes env p \<and> is_dir (tree m) p \<and> listing (tree m) p = [] then on_tree (erase p) m
      else io_raise Os_Error m)"

text \<open>\<open>mkdir(parents=True, exist_ok=True)\<close>: the missing ancestors are made from the top.\<close>

definition make_dir :: "disk \<Rightarrow> fpath \<Rightarrow> unit io" where
  "make_dir env q m =
     (if is_dir (tree m) q then io_return () m
      else if look (tree m) q = None \<and> (q \<noteq> [] \<longrightarrow> is_dir (tree m) (butlast q)) \<and> makes_dir env q then on_tree (put q Directory) m
      else io_raise Os_Error m)"

definition mkdirs :: "disk \<Rightarrow> fpath \<Rightarrow> unit io" where
  "mkdirs env p = io_each (make_dir env) (map (\<lambda>i. take i p) [0..<Suc (length p)])"

text \<open>\<open>os.rename\<close> onto a free name; a directory cannot be moved into itself.\<close>

definition renamed :: "fpath \<Rightarrow> fpath \<Rightarrow> store \<Rightarrow> store" where
  "renamed src dest t =
     map (\<lambda>(q, e). (if prefix src q then dest @ drop (length src) q else q, e))
       (filter (\<lambda>(q, _). \<not> prefix dest q) t)"

definition os_rename :: "disk \<Rightarrow> fpath \<Rightarrow> fpath \<Rightarrow> unit io" where
  "os_rename env src dest m =
     (if renames env src dest \<and> look (tree m) src \<noteq> None \<and> is_dir (tree m) (butlast dest) \<and> \<not> prefix src dest
      then on_tree (renamed src dest) m else io_raise Os_Error m)"

text \<open>\<open>shutil.copy2\<close> follows a link, and a copy that stops may leave a part behind.\<close>

definition copy2 :: "disk \<Rightarrow> fpath \<Rightarrow> fpath \<Rightarrow> unit io" where
  "copy2 env src dest m =
     (case content (tree m) src of
        None \<Rightarrow> io_raise Os_Error m
      | Some c \<Rightarrow>
          (case copied env src c of
             Copied c' \<Rightarrow> on_tree (put dest (File c')) m
           | Copy_Fails part \<Rightarrow>
               io_bind (on_tree (case part of None \<Rightarrow> id | Some c' \<Rightarrow> put dest (File c')))
                 (\<lambda>_. io_raise Os_Error) m))"

text \<open>
  \<open>shutil.copytree\<close> to a free name: it copies what it can, follows links, and raises at the end
  when anything failed.  A directory that cannot be made takes everything below it along.  The
  directory is listed before the copy is made in it.
\<close>

definition dirs_made :: "disk \<Rightarrow> store \<Rightarrow> fpath \<Rightarrow> fpath \<Rightarrow> fpath \<Rightarrow> bool" where
  "dirs_made env t src dest rest \<longleftrightarrow>
     list_all (\<lambda>i. is_dir t (src @ take i rest) \<longrightarrow> makes_dir env (dest @ take i rest)) [0..<Suc (length rest)]"

definition tree_copy :: "disk \<Rightarrow> store \<Rightarrow> fpath \<Rightarrow> fpath \<Rightarrow> fpath \<Rightarrow> entry option \<times> bool" where
  "tree_copy env t src dest rest =
     (if \<not> dirs_made env t src dest rest then (None, False)
      else if is_dir t (src @ rest) then (Some Directory, True)
      else (case content t (src @ rest) of
              None \<Rightarrow> (None, False)
            | Some c \<Rightarrow> (case copied env (src @ rest) c of
                            Copied c' \<Rightarrow> (Some (File c'), True)
                          | Copy_Fails part \<Rightarrow> (map_option File part, False))))"

definition below :: "store \<Rightarrow> fpath \<Rightarrow> fpath list" where
  "below t p = map (drop (length p)) (filter (prefix p) (map fst t))"

definition tree_made :: "disk \<Rightarrow> store \<Rightarrow> fpath \<Rightarrow> fpath \<Rightarrow> fpath list \<Rightarrow> store" where
  "tree_made env t src dest rests =
     concat (map (\<lambda>rest. case fst (tree_copy env t src dest rest) of
                            Some e \<Rightarrow> [(dest @ rest, e)] | None \<Rightarrow> []) rests)"

definition copytree :: "disk \<Rightarrow> fpath \<Rightarrow> fpath \<Rightarrow> unit io" where
  "copytree env src dest m =
     (let t = tree m; rests = below t src; made = tree_made env t src dest rests
      in if \<not> is_dir t src then io_raise Os_Error m
         else io_bind (on_tree (\<lambda>t. made @ t))
                (\<lambda>_. if list_all (\<lambda>rest. snd (tree_copy env t src dest rest)) rests
                     then io_return () else io_raise Os_Error) m)"

text \<open>
  \<open>shutil.rmtree\<close> stops at what it cannot remove: that stays, with the directories above it.
\<close>

definition rmtree :: "disk \<Rightarrow> fpath \<Rightarrow> unit io" where
  "rmtree env p m =
     (let stuck = filter (\<lambda>q. prefix p q \<and> \<not> removes env q) (map fst (tree m))
      in io_bind (on_tree (filter (\<lambda>(q, _). \<not> prefix p q \<or> list_ex (prefix q) stuck)))
           (\<lambda>_. if stuck = [] then io_return () else io_raise Os_Error) m)"


section \<open>What a move must preserve\<close>

text \<open>
  From one store to the next, while entries go from below \<open>src\<close> to below \<open>dest\<close>: a file's
  content is still at its place or at the corresponding place below \<open>dest\<close>; whatever was below
  \<open>dest\<close> is untouched; nothing appears below \<open>src\<close>; and elsewhere nothing changes but that missing
  directories above \<open>dest\<close> may be made.
\<close>

definition carried :: "fpath \<Rightarrow> fpath \<Rightarrow> store \<Rightarrow> store \<Rightarrow> bool" where
  "carried src dest t t' \<longleftrightarrow>
     (\<forall>p c. look t (src @ p) = Some (File c) \<longrightarrow>
        look t' (src @ p) = Some (File c) \<or> look t' (dest @ p) = Some (File c)) \<and>
     (\<forall>p e. look t (dest @ p) = Some e \<longrightarrow> look t' (dest @ p) = Some e) \<and>
     (\<forall>p. look t' (src @ p) = None \<or> look t' (src @ p) = look t (src @ p)) \<and>
     (\<forall>q. \<not> prefix src q \<and> \<not> prefix dest q \<longrightarrow>
        look t' q = look t q \<or> look t q = None \<and> strict_prefix q dest \<and> look t' q = Some Directory)"

text \<open>A step that preserves it, and keeps the store well-formed.\<close>

definition carries :: "fpath \<Rightarrow> fpath \<Rightarrow> store \<Rightarrow> store \<Rightarrow> bool" where
  "carries src dest t t' \<longleftrightarrow> well_formed t' \<and> carried src dest t t'"

lemma carried_refl: "carried src dest t t"
  by (simp add: carried_def)

lemma carries_refl: "well_formed t \<Longrightarrow> carries src dest t t"
  by (simp add: carries_def carried_refl)

lemma carried_trans:
  assumes "carried src dest t u" and "carried src dest u v"
  shows "carried src dest t v"
proof -
  note a = assms[unfolded carried_def]
  have "look v (src @ p) = Some (File c) \<or> look v (dest @ p) = Some (File c)" if "look t (src @ p) = Some (File c)" for p c
    using a that by metis
  moreover have "look v (dest @ p) = Some e" if "look t (dest @ p) = Some e" for p e
    using a that by blast
  moreover have "look v (src @ p) = None \<or> look v (src @ p) = look t (src @ p)" for p
    using a by metis
  moreover have "look v q = look t q \<or> look t q = None \<and> strict_prefix q dest \<and> look v q = Some Directory"
    if "\<not> prefix src q \<and> \<not> prefix dest q" for q
    using a that by metis
  ultimately show ?thesis unfolding carried_def by blast
qed

lemma carries_trans: "carries src dest t u \<Longrightarrow> carries src dest u v \<Longrightarrow> carries src dest t v"
  unfolding carries_def using carried_trans by blast

lemma parallel_apart:
  fixes src dest :: fpath
  assumes "src \<parallel> dest"
  shows "\<not> prefix (dest @ r) (src @ p)" and "\<not> prefix (src @ r) (dest @ p)" and "src @ p \<noteq> dest @ r"
    and "dest @ r \<noteq> src @ p" and "src \<noteq> dest" and "\<not> prefix src dest" and "\<not> prefix dest src"
proof -
  have "prefix a (b @ p) \<Longrightarrow> prefix a b \<or> prefix b a" for a b p :: fpath
    using prefix_same_cases[of a "b @ p" b] by auto
  from this[of dest src p] this[of src dest p] show out: "\<not> prefix (dest @ r) (src @ p)" "\<not> prefix (src @ r) (dest @ p)"
    using assms append_prefixD[of dest r "src @ p"] append_prefixD[of src r "dest @ p"] unfolding parallel_def by blast+
  then show "src @ p \<noteq> dest @ r" "dest @ r \<noteq> src @ p" by auto
  show "src \<noteq> dest" "\<not> prefix src dest" "\<not> prefix dest src" using assms by (auto simp: parallel_def)
qed

lemma parallel_snoc: "src \<parallel> dest \<Longrightarrow> src @ [n] \<parallel> dest @ [n]"
  unfolding parallel_def by (metis parallel_def parallel_append)

text \<open>What is carried for an entry of both directories is carried for the directories.\<close>

lemma carried_up:
  assumes "carried (src @ [n]) (dest @ [n]) t t'" and "src \<parallel> dest"
  shows "carried src dest t t'"
proof -
  have pre: "prefix (a @ [n]) (a @ p) \<longleftrightarrow> (\<exists>r. p = n # r)" for a p :: fpath
    by (auto simp: prefix_def)
  have up: "prefix q a" if "strict_prefix q (a @ [n])" for q a :: fpath
    using that by (auto simp: strict_prefix_def)
  note out = parallel_apart[OF assms(2)]
  note c = assms(1)[unfolded carried_def, simplified]
  have "look t' (src @ p) = Some (File d) \<or> look t' (dest @ p) = Some (File d)" if "look t (src @ p) = Some (File d)" for p d
  proof (cases "\<exists>r. p = n # r")
    case True then show ?thesis using c that by auto
  next
    case False
    then have "\<not> prefix (src @ [n]) (src @ p)" "\<not> prefix (dest @ [n]) (src @ p)" using pre out by auto
    then have "look t' (src @ p) = look t (src @ p)" using c that by fastforce
    with that show ?thesis by simp
  qed
  moreover have "look t' (dest @ p) = Some e" if "look t (dest @ p) = Some e" for p e
  proof (cases "\<exists>r. p = n # r")
    case True then show ?thesis using c that by auto
  next
    case False
    then have "\<not> prefix (dest @ [n]) (dest @ p)" "\<not> prefix (src @ [n]) (dest @ p)" using pre out by auto
    then have "look t' (dest @ p) = look t (dest @ p)" using c that by fastforce
    with that show ?thesis by simp
  qed
  moreover have "look t' (src @ p) = None \<or> look t' (src @ p) = look t (src @ p)" for p
  proof (cases "\<exists>r. p = n # r")
    case True then show ?thesis using c by auto
  next
    case False
    then have "\<not> prefix (src @ [n]) (src @ p)" "\<not> prefix (dest @ [n]) (src @ p)" using pre out by auto
    moreover have "\<not> strict_prefix (src @ p) (dest @ [n])"
      using up[of "src @ p" dest] out(6) by (meson append_prefixD)
    ultimately show ?thesis using c by metis
  qed
  moreover have "look t' q = look t q \<or> look t q = None \<and> strict_prefix q dest \<and> look t' q = Some Directory"
    if q: "\<not> prefix src q \<and> \<not> prefix dest q" for q
  proof -
    have "\<not> prefix (src @ [n]) q" "\<not> prefix (dest @ [n]) q" using q by (meson append_prefixD)+
    then have "look t' q = look t q \<or> look t q = None \<and> strict_prefix q (dest @ [n]) \<and> look t' q = Some Directory"
      using c by blast
    then show ?thesis using up[of q dest] q by (auto simp: strict_prefix_def)
  qed
  ultimately show ?thesis unfolding carried_def by blast
qed

section \<open>Single calls carry\<close>

lemma well_formed_erase: "well_formed t \<Longrightarrow> \<not> is_dir t p \<Longrightarrow> well_formed (erase p t)"
  unfolding well_formed_def is_dir_def by (metis look_erase)

lemma well_formed_erase_empty: "well_formed t \<Longrightarrow> listing t p = [] \<Longrightarrow> well_formed (erase p t)"
  unfolding well_formed_def using listing_iff[of _ t p] by auto

lemma well_formed_put:
  assumes "well_formed t" and "look t p = None \<or> e = Directory" and "p \<noteq> [] \<longrightarrow> is_dir t (butlast p)"
  shows "well_formed (put p e t)"
proof -
  have "look (put p e t) q = Some Directory" if "look (put p e t) (q @ [n]) \<noteq> None" for q n
  proof (cases "q @ [n] = p")
    case True
    then have "butlast p = q" "p \<noteq> []" by auto
    with assms(3) True show ?thesis by (auto simp: is_dir_def)
  next
    case False
    with that have "look t q = Some Directory" "q = p \<Longrightarrow> look t p \<noteq> None"
      using assms(1) by (auto simp: well_formed_def)
    then show ?thesis using assms(2) by auto
  qed
  then show ?thesis by (simp add: well_formed_def)
qed

lemma carries_erase:
  assumes "well_formed t" "src \<parallel> dest" "\<not> is_dir t src"
    "\<And>c. look t src = Some (File c) \<Longrightarrow> look t dest = Some (File c)"
  shows "carries src dest t (erase src t)"
  unfolding carries_def carried_def using assms parallel_apart[OF assms(2)] 
  by (auto simp: well_formed_erase)

lemma carries_rmdir:
  assumes "well_formed t" "src \<parallel> dest" "is_dir t src" "listing t src = []"
  shows "carries src dest t (erase src t)"
  unfolding carries_def carried_def using assms parallel_apart[OF assms(2)]
  by (auto simp: well_formed_erase_empty is_dir_def)

lemma carries_put:
  assumes "well_formed t" "src \<parallel> dest" "look t dest = None" "is_dir t (butlast dest)"
  shows "carries src dest t (put dest e t)"
  unfolding carries_def carried_def using assms parallel_apart[OF assms(2)] 
  by (auto simp: well_formed_put)

lemma carries_make:
  assumes "well_formed t" "src \<parallel> dest" "look t q = None" "strict_prefix q dest" "q \<noteq> [] \<longrightarrow> is_dir t (butlast q)"
  shows "carries src dest t (put q Directory t)"
proof -
  have "src @ p \<noteq> q" "dest @ p \<noteq> q" for p
    using assms(4) parallel_apart(6)[OF assms(2)]
    by (metis append_prefixD prefix_order.strict_implies_order prefix_order.less_le_not_le prefixI)+
  with assms show ?thesis
    unfolding carries_def carried_def by (auto simp: well_formed_put)
qed

lemma parallel_apart':
  fixes src dest :: fpath
  assumes "src \<parallel> dest"
  shows "\<not> prefix dest (src @ p)" and "\<not> prefix src (dest @ p)" and "src @ p \<noteq> dest" and "dest @ p \<noteq> src"
  using parallel_apart[OF assms] by (metis append_Nil2)+

lemmas paths_apart = parallel_apart parallel_apart'

lemma look_renamed:
  assumes "src \<parallel> dest"
  shows "look (renamed src dest t) q =
    (if prefix dest q then look t (src @ drop (length dest) q) else if prefix src q then None else look t q)"
proof (induction t)
  case Nil
  then show ?case by (simp add: renamed_def look_def)
next
  case (Cons a t)
  obtain p e where a: "a = (p, e)" by force
  consider r where "p = dest @ r" | r where "p = src @ r" | "\<not> prefix dest p" "\<not> prefix src p"
    by (auto simp: prefix_def)
  then show ?case
  proof cases
    case 1
    then have "renamed src dest (a # t) = renamed src dest t" by (simp add: a renamed_def)
    moreover have "look (a # t) (src @ r') = look t (src @ r')" for r'
      using parallel_apart[OF assms] 1 by (simp add: look_def a)
    moreover have "\<not> prefix dest q \<Longrightarrow> look (a # t) q = look t q"
      using 1 by (auto simp: look_def a)
    ultimately show ?thesis using Cons by simp
  next
    case 2
    then have r: "renamed src dest (a # t) = (dest @ r, e) # renamed src dest t"
      using paths_apart[OF assms] by (simp add: a renamed_def)
    show ?thesis
    proof (cases "prefix dest q")
      case True
      then obtain s where "q = dest @ s" by (auto simp: prefix_def)
      with r 2 Cons show ?thesis by (simp add: look_def a)
    next
      case False
      then have "q \<noteq> dest @ r" by auto
      moreover have "\<not> prefix src q \<Longrightarrow> q \<noteq> src @ r" by auto
      ultimately show ?thesis using r 2 Cons False by (simp add: look_def a)
    qed
  next
    case 3
    then have r: "renamed src dest (a # t) = (p, e) # renamed src dest t" by (simp add: a renamed_def)
    have "src @ s \<noteq> p" for s using 3 by auto
    then have s: "look (a # t) (src @ s) = look t (src @ s)" for s by (simp add: look_def a)
    show ?thesis
    proof (cases "q = p")
      case True with 3 r show ?thesis by (simp add: look_def a)
    next
      case False
      then have "look (renamed src dest (a # t)) q = look (renamed src dest t) q" "look (a # t) q = look t q"
        using r by (auto simp: look_def a)
      then show ?thesis using s Cons by simp
    qed
  qed
qed

lemma parallel_not_Nil: "src \<parallel> dest \<Longrightarrow> src \<noteq> [] \<and> dest \<noteq> []"
  by (auto simp: parallel_def)

lemma prefix_snoc_cases: "prefix d (q @ [n]) \<longleftrightarrow> d = q @ [n] \<or> prefix d q"
  by simp

lemma carries_rename:
  assumes "well_formed t" "src \<parallel> dest" "look t dest = None" "is_dir t (butlast dest)"
  shows "carries src dest t (renamed src dest t)"
proof -
  note out = paths_apart[OF assms(2)]
  note l = look_renamed[OF assms(2), of t]
  have none: "look t (dest @ p) = None" for p using below_absent[OF assms(1,3)] .
  have "look (renamed src dest t) q = Some Directory" if "look (renamed src dest t) (q @ [n]) \<noteq> None" for q n
  proof (cases "prefix dest (q @ [n])")
    case True
    then consider "q @ [n] = dest" | r where "q = dest @ r"
      unfolding prefix_snoc by (auto simp: prefix_def)
    then show ?thesis
    proof cases
      case 1
      then have q: "q = butlast dest" by (metis butlast_snoc)
      have "\<not> prefix dest q" using 1 by auto
      moreover have "\<not> prefix src q" using out(6) 1 by (metis append_prefixD prefix_snoc)
      ultimately show ?thesis using l[of q] assms(4) q by (simp add: is_dir_def)
    next
      case 2
      then have "look t (src @ r @ [n]) \<noteq> None" using that l[of "q @ [n]"] by simp
      then have "look t (src @ r) = Some Directory" using assms(1) by (metis append_assoc well_formed_def)
      then show ?thesis using 2 l[of q] by simp
    qed
  next
    case False
    then have "\<not> prefix src (q @ [n])" "look t (q @ [n]) \<noteq> None" using that l[of "q @ [n]"] by (auto split: if_splits)
    moreover from this False have "\<not> prefix src q" "\<not> prefix dest q" by auto
    ultimately show ?thesis using assms(1) l[of q] unfolding well_formed_def by metis
  qed
  then have "well_formed (renamed src dest t)" by (simp add: well_formed_def)
  moreover have "carried src dest t (renamed src dest t)"
    using none out by (auto simp: carried_def l)
  ultimately show ?thesis by (simp add: carries_def)
qed

lemma renamed_away: "src \<parallel> dest \<Longrightarrow> look (renamed src dest t) (src @ p) = None"
  by (simp add: look_renamed paths_apart)

lemma renamed_there: "src \<parallel> dest \<Longrightarrow> look (renamed src dest t) (dest @ p) = look t (src @ p)"
  by (simp add: look_renamed)

lemma carries_rmtree:
  assumes "well_formed t" "src \<parallel> dest" "\<And>p c. look t (src @ p) = Some (File c) \<Longrightarrow> look t (dest @ p) = Some (File c)"
  shows "carries src dest t (filter (\<lambda>(q, _). \<not> prefix src q \<or> list_ex (prefix q) stuck) t)"
proof -
  have "well_formed (filter (\<lambda>(q, _). \<not> prefix src q \<or> list_ex (prefix q) stuck) t)"
    unfolding well_formed_def look_filter
  proof (intro allI impI)
    fix q n
    assume a: "(if \<not> prefix src (q @ [n]) \<or> list_ex (prefix (q @ [n])) stuck then look t (q @ [n]) else None) \<noteq> None"
    then have "\<not> prefix src q \<or> list_ex (prefix q) stuck"
      by (auto simp: list_ex_iff split: if_splits dest: append_prefixD)
    with a assms(1) show "(if \<not> prefix src q \<or> list_ex (prefix q) stuck then look t q else None) = Some Directory"
      by (auto simp: well_formed_def split: if_splits)
  qed
  then show ?thesis using assms(3) paths_apart[OF assms(2)] by (auto simp: carries_def carried_def look_filter)
qed


lemma below_iff: "r \<in> set (below t p) \<longleftrightarrow> look t (p @ r) \<noteq> None"
proof -
  let ?K = "set (map fst t)"
  have "set (below t p) = drop (length p) ` {q \<in> ?K. prefix p q}" by (simp add: below_def)
  also have "\<dots> = {r. p @ r \<in> ?K}"
  proof (intro equalityI subsetI)
    fix r assume "r \<in> {r. p @ r \<in> ?K}"
    then have "p @ r \<in> {q \<in> ?K. prefix p q}" "r = drop (length p) (p @ r)" by auto
    then show "r \<in> drop (length p) ` {q \<in> ?K. prefix p q}" by (rule rev_image_eqI)
  qed (auto simp: prefix_def simp del: set_map)
  finally show ?thesis by (simp add: look_def map_of_eq_None_iff)
qed

lemma look_made:
  "look (tree_made env t src dest rests @ u) (dest @ p) =
     (if p \<in> set rests \<and> fst (tree_copy env t src dest p) \<noteq> None then fst (tree_copy env t src dest p) else look u (dest @ p))"
  by (induction rests) (auto simp: tree_made_def look_def split: option.splits)

lemma look_made_apart: "\<not> prefix dest q \<Longrightarrow> look (tree_made env t src dest rests @ u) q = look u q"
  by (induction rests) (auto simp: tree_made_def look_def split: option.splits)

lemma dirs_made_up:
  assumes "dirs_made env t src dest (r @ [n])"
  shows "dirs_made env t src dest r"
proof -
  have "take i (r @ [n]) = take i r" if "i \<in> set [0..<Suc (length r)]" for i using that by (auto simp: less_Suc_eq)
  then show ?thesis using assms by (fastforce simp: dirs_made_def list_all_iff)
qed

lemma tree_copy_up:
  assumes "fst (tree_copy env t src dest (r @ [n])) \<noteq> None" "look t (src @ r) = Some Directory"
  shows "fst (tree_copy env t src dest r) = Some Directory"
  using assms dirs_made_up[of env t src dest r n] by (auto simp: tree_copy_def is_dir_def split: if_splits)

lemma carries_copytree:
  assumes "well_formed t" "src \<parallel> dest" "look t dest = None" "is_dir t (butlast dest)"
  shows "carries src dest t (tree_made env t src dest (below t src) @ t)" (is "carries src dest t ?u")
proof -
  note out = paths_apart[OF assms(2)]
  have none: "look t (dest @ p) = None" for p using below_absent[OF assms(1,3)] .
  have "look ?u q = Some Directory" if a: "look ?u (q @ [n]) \<noteq> None" for q n
  proof (cases "prefix dest (q @ [n])")
    case True
    then consider "q @ [n] = dest" | r where "q = dest @ r"
      unfolding prefix_snoc by (auto simp: prefix_def)
    then show ?thesis
    proof cases
      case 1
      then have "q = butlast dest" "\<not> prefix dest q" by auto
      then show ?thesis using assms(4) by (simp add: look_made_apart is_dir_def)
    next
      case 2
      then have "look ?u (dest @ (r @ [n])) \<noteq> None" using a by simp
      then have c: "r @ [n] \<in> set (below t src)" "fst (tree_copy env t src dest (r @ [n])) \<noteq> None"
        unfolding look_made using none by (auto split: if_splits)
      from c(1) have "look t (src @ r @ [n]) \<noteq> None" unfolding below_iff by simp
      then have d: "look t (src @ r) = Some Directory"
        using assms(1) unfolding well_formed_def by (metis append_assoc)
      then have "r \<in> set (below t src)" unfolding below_iff by simp
      then show ?thesis using 2 tree_copy_up[OF c(2) d] by (simp add: look_made)
    qed
  next
    case False
    then have "\<not> prefix dest q" by auto
    moreover have "look t (q @ [n]) \<noteq> None" using a False by (simp only: look_made_apart not_False_eq_True)
    ultimately show ?thesis using assms(1) unfolding well_formed_def by (metis look_made_apart)
  qed
  then have "well_formed ?u" by (simp add: well_formed_def)
  moreover have "carried src dest t ?u"
    using none out by (auto simp: carried_def look_made_apart)
  ultimately show ?thesis by (simp add: carries_def)
qed

text \<open>A copy that reports success wrote what it read; one of the right size is enough after a move of one file.\<close>

definition honest_copies :: "disk \<Rightarrow> bool" where
  "honest_copies env \<longleftrightarrow> (\<forall>p c c'. copied env p c = Copied c' \<longrightarrow> c' = c)"

definition sized_copies :: "disk \<Rightarrow> bool" where
  "sized_copies env \<longleftrightarrow> (\<forall>p c c'. copied env p c = Copied c' \<longrightarrow> length c' = length c \<longrightarrow> c' = c)"

lemma honest_sized: "honest_copies env \<Longrightarrow> sized_copies env"
  by (auto simp: honest_copies_def sized_copies_def)

lemma copytree_complete:
  assumes "honest_copies env" "list_all (\<lambda>r. snd (tree_copy env t src dest r)) (below t src)"
    "look t (src @ p) = Some (File c)"
  shows "look (tree_made env t src dest (below t src) @ u) (dest @ p) = Some (File c)"
proof -
  have "p \<in> set (below t src)" using assms(3) by (simp add: below_iff)
  moreover from this assms(2) have "snd (tree_copy env t src dest p)" by (simp add: list_all_iff)
  then have "fst (tree_copy env t src dest p) = Some (File c)"
    using assms(1,3) by (auto simp: tree_copy_def is_dir_def content_def honest_copies_def split: if_splits copy_outcome.splits)
  ultimately show ?thesis by (simp add: look_made)
qed

end
