(* ===== verification/File_Moves.thy ===== *)
theory File_Moves
  imports File_Store
begin

text \<open>
  Moving, merging and cleaning up files: the rest of \<open>backend/core/utils/filesystem.py\<close>, on the
  store of theory \<open>File_Store\<close>.  Every operation is a call that returns a value or an error
  together with the store it leaves behind, so what survives a failure is part of the model.
  Logging and the recording of operation steps are left out.
\<close>

section \<open>Media files, assets and sidecars\<close>

definition media_file_extensions :: "string list" where
  "media_file_extensions =
     [''.3g2'', ''.3gp'', ''.avi'', ''.divx'', ''.flv'', ''.m2ts'', ''.m4v'', ''.mkv'', ''.mov'', ''.mp4'',
      ''.mpeg'', ''.mpg'', ''.mts'', ''.ogm'', ''.ogv'', ''.rmvb'', ''.ts'', ''.vob'', ''.webm'', ''.wmv'']"

definition non_primary_media_stem_tokens :: "string list" where
  "non_primary_media_stem_tokens =
     [''behindthescenes'', ''deletedscene'', ''deletedscenes'', ''extra'', ''extras'', ''featurette'',
      ''featurettes'', ''interview'', ''interviews'', ''sample'', ''scene'', ''scenes'', ''short'',
      ''shorts'', ''trailer'', ''trailers'']"

definition known_asset_directory_names :: "string list" where
  "known_asset_directory_names =
     [''behindthescenes'', ''deletedscene'', ''deletedscenes'', ''extra'', ''extras'', ''featurette'',
      ''featurettes'', ''interview'', ''interviews'', ''sample'', ''samples'', ''scene'', ''scenes'',
      ''short'', ''shorts'', ''subs'', ''subtitles'', ''trailer'', ''trailers'']"

definition is_media_file :: "string \<Rightarrow> bool" where
  "is_media_file name = List.member media_file_extensions (py_lower (path_suffix name))"

definition is_known_asset_directory :: "string \<Rightarrow> bool" where
  "is_known_asset_directory name = List.member known_asset_directory_names (compact_name name)"

text \<open>The paths compared here are entries of one folder, so they are told apart by name.\<close>

definition is_primary_media_candidate :: "string \<Rightarrow> string \<Rightarrow> bool" where
  "is_primary_media_candidate name primary =
     (if \<not> is_media_file name then False
      else if name = primary then True
      else if List.member non_primary_media_stem_tokens (compact_name (path_stem name)) then False
      else (let stem_tokens = name_tokens (path_stem name)
            in \<not> (stem_tokens \<noteq> [] \<and> List.member non_primary_media_stem_tokens (last stem_tokens))))"

definition is_related_sidecar :: "string \<Rightarrow> string \<Rightarrow> bool" where
  "is_related_sidecar name primary_stem =
     (if is_media_file name then False
      else path_stem name = primary_stem \<or> starts_with (primary_stem @ ''.'') (path_stem name))"

section \<open>Comparing and moving one file\<close>

definition files_are_identical :: "disk \<Rightarrow> fpath \<Rightarrow> fpath \<Rightarrow> bool io" where
  "files_are_identical env src dest m =
     (case (content (tree m) src, content (tree m) dest) of
        (Some c, Some d) \<Rightarrow> io_return (length c = length d \<and> sha256 env c = sha256 env d) m
      | _ \<Rightarrow> io_raise Os_Error m)"

definition preflight_file_move :: "disk \<Rightarrow> fpath \<times> fpath \<Rightarrow> unit io" where
  "preflight_file_move env move m =
     (let (src, dest) = move; t = tree m
      in if \<not> occupied t dest then io_return () m
         else if is_symlink t dest then io_raise (File_Exists src dest ''destination is a symlink'') m
         else if \<not> is_file t dest
         then io_raise (File_Exists src dest ''source file conflicts with a destination directory'') m
         else io_bind (files_are_identical env src dest) (\<lambda>same.
                if same then io_return ()
                else io_raise (File_Exists src dest ''destination file has different content'')) m)"

definition preflight_file_moves :: "disk \<Rightarrow> (fpath \<times> fpath) list \<Rightarrow> unit io" where
  "preflight_file_moves env moves = io_each (preflight_file_move env) moves"

definition count_moved :: "nat \<Rightarrow> unit io" where
  "count_moved n m = (Inr (), m\<lparr>moved_files := moved_files m + n\<rparr>)"

definition count_deduplicated :: "unit io" where
  "count_deduplicated m = (Inr (), m\<lparr>deduplicated_files := deduplicated_files m + 1\<rparr>)"

text \<open>What follows a failed rename: copy, compare the sizes, then delete the source.\<close>

definition copy_and_remove :: "disk \<Rightarrow> fpath \<Rightarrow> fpath \<Rightarrow> fpath io" where
  "copy_and_remove env src dest =
     io_bind (copy2 env src dest) (\<lambda>_ m.
       let size = (\<lambda>p. map_option length (content (tree m) p))
       in if size dest \<noteq> size src
          then io_bind (unlink env dest) (\<lambda>_. io_raise Os_Error) m
          else io_bind (unlink env src) (\<lambda>_. io_bind (count_moved 1) (\<lambda>_. io_return dest)) m)"

definition move_single_file_to_path :: "disk \<Rightarrow> fpath \<Rightarrow> fpath \<Rightarrow> fpath io" where
  "move_single_file_to_path env src dest =
     io_bind (mkdirs env (butlast dest)) (\<lambda>_ m.
       let t = tree m
       in if occupied t dest then
            (if is_symlink t dest then io_raise (File_Exists src dest ''destination is a symlink'') m
             else io_bind (if is_file t dest then files_are_identical env src dest else io_return False) (\<lambda>same.
                    if same
                    then io_bind (unlink env src) (\<lambda>_. io_bind count_deduplicated (\<lambda>_. io_return dest))
                    else io_raise (File_Exists src dest
                           (if is_file t dest then ''destination file has different content''
                            else ''source file conflicts with a destination directory''))) m)
          else io_catch (io_bind (os_rename env src dest) (\<lambda>_. io_bind (count_moved 1) (\<lambda>_. io_return dest)))
                 (copy_and_remove env src dest) m)"

definition move_single_file :: "disk \<Rightarrow> fpath \<Rightarrow> fpath \<Rightarrow> fpath io" where
  "move_single_file env src destination_root = move_single_file_to_path env src (destination_root @ [last src])"

section \<open>Moving and merging directories\<close>

text \<open>\<open>sorted(path.iterdir(), ...)\<close>, which fails on what is not a directory.\<close>

definition list_directory :: "fpath \<Rightarrow> string list io" where
  "list_directory p m =
     (if is_dir (tree m) p then io_return (sorted_directory_entries (tree m) p) m else io_raise Os_Error m)"

text \<open>
  The two recursions over a directory carry the number of calls the interpreter still allows;
  what they do to one entry of the source takes the recursive call as an argument.
\<close>

definition preflight_entry :: "disk \<Rightarrow> (fpath \<Rightarrow> fpath \<Rightarrow> unit io) \<Rightarrow> fpath \<Rightarrow> fpath \<Rightarrow> string \<Rightarrow> unit io" where
  "preflight_entry env recurse src dest name m =
     (let t = tree m; source = src @ [name]; destination = dest @ [name]
      in if is_symlink t source then io_raise Os_Error m
         else if \<not> occupied t destination then io_return () m
         else if is_symlink t destination
         then io_raise (File_Exists source destination ''destination is a symlink'') m
         else if is_dir t source then
           (if \<not> is_dir t destination
            then io_raise (File_Exists source destination ''source directory conflicts with a destination file'') m
            else recurse source destination m)
         else if is_file t source then
           (if \<not> is_file t destination
            then io_raise (File_Exists source destination ''source file conflicts with a destination directory'') m
            else io_bind (files_are_identical env source destination) (\<lambda>same.
                   if same then io_return ()
                   else io_raise (File_Exists source destination ''destination file has different content'')) m)
         else io_raise Os_Error m)"

primrec preflight_directory_merge :: "disk \<Rightarrow> nat \<Rightarrow> fpath \<Rightarrow> fpath \<Rightarrow> unit io" where
  "preflight_directory_merge env 0 src dest = io_raise Recursion_Exhausted"
| "preflight_directory_merge env (Suc n) src dest = (\<lambda>m.
     if is_symlink (tree m) dest then io_raise (File_Exists src dest ''destination is a symlink'') m
     else if \<not> is_dir (tree m) dest
     then io_raise (File_Exists src dest ''source directory conflicts with a destination file'') m
     else io_bind (list_directory src)
            (io_each (preflight_entry env (preflight_directory_merge env n) src dest)) m)"

definition move_directory_to_path :: "disk \<Rightarrow> fpath \<Rightarrow> fpath \<Rightarrow> unit io" where
  "move_directory_to_path env src dest =
     io_bind (mkdirs env (butlast dest)) (\<lambda>_ m.
       if occupied (tree m) dest then io_raise (File_Exists src dest ''destination already exists'') m
       else io_catch (os_rename env src dest)
              (io_bind (copytree env src dest) (\<lambda>_. rmtree env src)) m)"

definition merge_entry :: "disk \<Rightarrow> (fpath \<Rightarrow> fpath \<Rightarrow> unit io) \<Rightarrow> fpath \<Rightarrow> fpath \<Rightarrow> string \<Rightarrow> unit io" where
  "merge_entry env recurse src dest name m =
     (let source = src @ [name]; destination = dest @ [name]
      in if is_dir (tree m) source then
           (if path_exists (tree m) destination then recurse source destination m
            else io_bind (count_moved (count_regular_files (tree m) source))
                   (\<lambda>_. move_directory_to_path env source destination) m)
         else io_bind (move_single_file_to_path env source destination) (\<lambda>_. io_return ()) m)"

primrec merge_directory :: "disk \<Rightarrow> nat \<Rightarrow> fpath \<Rightarrow> fpath \<Rightarrow> unit io" where
  "merge_directory env 0 src dest = io_raise Recursion_Exhausted"
| "merge_directory env (Suc n) src dest =
     io_bind (list_directory src) (\<lambda>names.
     io_bind (io_each (merge_entry env (merge_directory env n) src dest) names)
     (\<lambda>_. rmdir env src))"

definition remove_empty_directory :: "disk \<Rightarrow> fpath \<Rightarrow> bool io" where
  "remove_empty_directory env p m =
     (if \<not> is_dir (tree m) p \<or> listing (tree m) p \<noteq> [] then io_return False m
      else io_catch (io_bind (rmdir env p) (\<lambda>_. io_return True)) (io_return False) m)"

text \<open>
  The folders to keep under a destination: those below the first mapping that applies and
  contains the source.
\<close>

definition mappings_by_local :: "string option \<Rightarrow> int option \<Rightarrow> path_mapping list \<Rightarrow> path_mapping list" where
  "mappings_by_local service_type service_config_id ms =
     sort_key (\<lambda>m. (mapping_rank service_type service_config_id m, - int (length (local_prefix m)))) ms"

fun relative_below :: "disk \<Rightarrow> string option \<Rightarrow> int option \<Rightarrow> fpath \<Rightarrow> path_mapping list \<Rightarrow> fpath option" where
  "relative_below env st cid src [] = None"
| "relative_below env st cid src (m # ms) =
     (let local = py_strip (local_prefix m)
      in if \<not> mapping_applies_to_scope m st cid \<or> local = [] \<or> \<not> prefix (resolved env local) src
         then relative_below env st cid src ms
         else Some (butlast (drop (length (resolved env local)) src)))"

definition destination_relative_parent ::
  "disk \<Rightarrow> fpath \<Rightarrow> path_mapping list \<Rightarrow> string option \<Rightarrow> int option \<Rightarrow> fpath option \<Rightarrow> fpath" where
  "destination_relative_parent env src ms st cid fallback_parent =
     (case relative_below env st cid src (mappings_by_local st cid ms) of
        Some p \<Rightarrow> p
      | None \<Rightarrow> (case fallback_parent of Some p \<Rightarrow> p
                | None \<Rightarrow> (if butlast src = [] then [] else [last (butlast src)])))"

definition move_directory ::
  "disk \<Rightarrow> nat \<Rightarrow> fpath \<Rightarrow> fpath \<Rightarrow> path_mapping list \<Rightarrow> string option \<Rightarrow> int option \<Rightarrow> bool \<Rightarrow> fpath io" where
  "move_directory env limit src destination_root ms st cid cleanup_empty_parent =
     (let dest = destination_root @ destination_relative_parent env src ms st cid (Some []) @ [last src]
      in io_bind (\<lambda>m. if occupied (tree m) dest
                      then io_bind (preflight_directory_merge env limit src dest)
                             (\<lambda>_. merge_directory env limit src dest) m
                      else move_directory_to_path env src dest m)
           (\<lambda>_. io_bind (if cleanup_empty_parent then remove_empty_directory env (butlast src) else io_return False)
           (\<lambda>_. io_return dest)))"

section \<open>Moving a media file with what belongs to it\<close>

text \<open>A plan: whether the whole folder moves, and why.\<close>

definition plan_media_move :: "store \<Rightarrow> fpath \<Rightarrow> bool \<times> string" where
  "plan_media_move t src =
     (let parent = butlast src; entries = listing t parent;
          unknown_directories = filter (\<lambda>n. is_dir t (parent @ [n]) \<and> \<not> is_known_asset_directory n) entries;
          primary_media_files = filter (\<lambda>n. is_file t (parent @ [n]) \<and> is_primary_media_candidate n (last src)) entries
      in if \<not> is_dir t parent then (False, ''source parent is not a directory'')
         else if unknown_directories \<noteq> []
         then (False, ''contains non-asset subdirectories: '' @ join '', '' (take 5 unknown_directories))
         else if length primary_media_files \<noteq> 1
         then (False, ''contains '' @ show_nat (length primary_media_files) @ '' primary media files'')
         else if parent @ primary_media_files \<noteq> src
         then (False, ''selected file is not the primary media file'')
         else (True, ''item-scoped source directory''))"

definition media_move_source_scope :: "store \<Rightarrow> fpath \<Rightarrow> fpath \<times> bool" where
  "media_move_source_scope t src =
     (let directory = fst (plan_media_move t src) in (if directory then butlast src else src, directory))"

text \<open>A sidecar that cannot be moved is logged and stays.\<close>

definition move_logged :: "disk \<Rightarrow> fpath \<Rightarrow> fpath \<Rightarrow> unit io" where
  "move_logged env dest_dir src =
     io_catch (io_bind (move_single_file env src dest_dir) (\<lambda>_. io_return ())) (io_return ())"

definition move_media ::
  "disk \<Rightarrow> nat \<Rightarrow> fpath \<Rightarrow> fpath \<Rightarrow> path_mapping list \<Rightarrow> string option \<Rightarrow> int option \<Rightarrow> fpath io" where
  "move_media env limit src destination_root ms st cid m =
     (let t = tree m; parent = butlast src
      in if fst (plan_media_move t src) then
           io_bind (move_directory env limit parent destination_root ms st cid False)
             (\<lambda>moved_parent. io_return (moved_parent @ [last src])) m
         else
           (let dest_dir = destination_root @ destination_relative_parent env src ms st cid None;
                siblings = (if is_dir t parent
                            then map (\<lambda>n. parent @ [n])
                                   (filter (\<lambda>n. is_file t (parent @ [n]) \<and> parent @ [n] \<noteq> src \<and>
                                                is_related_sidecar n (path_stem (last src)))
                                      (sorted_directory_entries t parent))
                            else [])
            in io_bind (preflight_file_moves env (map (\<lambda>f. (f, dest_dir @ [last f])) (src # siblings))) (\<lambda>_.
               io_bind (move_single_file env src dest_dir) (\<lambda>dest.
               io_bind (io_each (move_logged env dest_dir) siblings) (\<lambda>_.
               io_bind (remove_empty_directory env parent) (\<lambda>_. io_return dest)))) m))"

section \<open>Seasons\<close>

definition at_number_end :: "string \<Rightarrow> bool" where
  "at_number_end s \<longleftrightarrow> s = [] \<or> \<not> is_decimal (hd s)"

text \<open>\<open>season\s+0*N(?:\D|$)\<close> at the beginning of a lowered name; season 0 is written with zeros only.\<close>

definition season_pattern_at :: "int \<Rightarrow> string \<Rightarrow> bool" where
  "season_pattern_at season_number s =
     (starts_with ''season'' s \<and>
      (let gap = drop 6 s; rest = dropWhile py_isspace gap; after = dropWhile (\<lambda>c. c = CHR ''0'') rest
       in rest \<noteq> gap \<and>
          (if season_number = 0 then after \<noteq> rest \<and> at_number_end after
           else starts_with (show_int season_number) after \<and>
                at_number_end (drop (length (show_int season_number)) after))))"

definition names_season :: "int \<Rightarrow> string \<Rightarrow> bool" where
  "names_season season_number name =
     (let tails = map (\<lambda>i. drop i (py_lower name)) [0..<Suc (length name)]
      in list_ex (season_pattern_at season_number) tails \<or>
         season_number = 0 \<and> list_ex (starts_with ''specials'') tails)"

definition find_season_folder :: "store \<Rightarrow> fpath \<Rightarrow> int \<Rightarrow> fpath option" where
  "find_season_folder t series_path season_number =
     (if \<not> is_dir t series_path then None
      else map_option (\<lambda>n. series_path @ [n])
             (find (\<lambda>n. is_dir t (series_path @ [n]) \<and> names_season season_number n) (listing t series_path)))"

definition local_fpath :: "disk \<Rightarrow> local_path \<Rightarrow> fpath" where
  "local_fpath env p = (case p of AsReported raw \<Rightarrow> resolved env raw | Under mount parts \<Rightarrow> resolved env mount @ parts)"

text \<open>One stem of a season with the file found for it, if one was found.\<close>

definition add_episode ::
  "disk \<Rightarrow> store \<Rightarrow> path_mapping list \<Rightarrow> string option \<Rightarrow> int option \<Rightarrow>
   (string \<times> fpath option) list \<Rightarrow> string \<Rightarrow> (string \<times> fpath option) list" where
  "add_episode env t ms st cid sources raw =
     (case map_option (local_fpath env) (resolve_path (\<lambda>p. path_exists t (local_fpath env p)) (Some raw) ms st cid) of
        Some p \<Rightarrow> if is_file t p then dput (path_stem (last p)) (Some p) sources
                  else if map_of sources (path_stem (path_name raw)) = None
                       then sources @ [(path_stem (path_name raw), None)] else sources
      | None \<Rightarrow> if map_of sources (path_stem (path_name raw)) = None
                 then sources @ [(path_stem (path_name raw), None)] else sources)"

definition season_files :: "store \<Rightarrow> fpath \<Rightarrow> (string \<times> fpath option) list \<Rightarrow> fpath list" where
  "season_files t series_path sources =
     uniq (concat (map (\<lambda>(stem, selected).
       map (\<lambda>n. series_path @ [n])
         (filter (\<lambda>n. is_file t (series_path @ [n]) \<and>
                      (selected = Some (series_path @ [n]) \<or>
                       selected = None \<and> is_media_file n \<and> path_stem n = stem \<or>
                       is_related_sidecar n stem))
            (listing t series_path))) sources))"

definition move_season_files ::
  "disk \<Rightarrow> fpath \<Rightarrow> fpath \<Rightarrow> string list \<Rightarrow> path_mapping list \<Rightarrow> string option \<Rightarrow> int option \<Rightarrow> fpath io" where
  "move_season_files env series_path destination_root episode_paths ms st cid m =
     (let t = tree m;
          dest_dir = destination_root @ destination_relative_parent env series_path ms st cid (Some []) @ [last series_path];
          sources = foldl (add_episode env t ms st cid) [] episode_paths;
          files = season_files t series_path sources
      in if sources \<noteq> [] \<and> \<not> is_dir t series_path then io_raise Os_Error m
         else io_bind (preflight_file_moves env (map (\<lambda>f. (f, dest_dir @ [last f])) files)) (\<lambda>_.
              io_bind (io_each (move_logged env dest_dir) files) (\<lambda>_.
              io_bind (remove_empty_directory env series_path) (\<lambda>_. io_return dest_dir))) m)"

section \<open>Cleaning up beside a deleted file\<close>

definition sibling_cleanup :: "disk \<Rightarrow> fpath \<Rightarrow> unit io" where
  "sibling_cleanup env local_path m =
     (let stem = path_stem (last local_path); parent = butlast local_path
      in if \<not> is_dir (tree m) parent then io_return () m
         else io_bind (io_each (\<lambda>n m.
                if is_file (tree m) (parent @ [n]) \<and> path_stem n = stem
                then io_catch (unlink env (parent @ [n])) (io_return ()) m else io_return () m)
                (listing (tree m) parent))
              (\<lambda>_ m. if listing (tree m) parent = [] then io_catch (rmdir env parent) (io_return ()) m
                     else io_return () m) m)"

end
