(* ===== verification/File_Safety.thy ===== *)
theory File_Safety
  imports File_Moves
begin

text \<open>
  What the operations of \<open>File_Moves\<close> keep: no content is lost and nothing at the destination is
  overwritten, whatever the system does to the calls; what a move completes; and what happens
  when the destination is the source itself.
\<close>

section \<open>Calls as steps\<close>

text \<open>A relation between stores that calls in sequence, in a loop and under a handler keep.\<close>

locale store_steps =
  fixes good :: "store \<Rightarrow> bool" and step :: "store \<Rightarrow> store \<Rightarrow> bool"
  assumes step_refl: "good t \<Longrightarrow> step t t"
    and step_good: "step t u \<Longrightarrow> good u"
    and step_trans: "step t u \<Longrightarrow> step u v \<Longrightarrow> step t v"
begin

lemma return_step: "good (tree m) \<Longrightarrow> step (tree m) (tree (snd (io_return x m)))"
  by (simp add: io_return_def step_refl)

lemma raise_step: "good (tree m) \<Longrightarrow> step (tree m) (tree (snd (io_raise e m)))"
  by (simp add: io_raise_def step_refl)

lemma count_step:
  "good (tree m) \<Longrightarrow> step (tree m) (tree (snd (count_moved n m)))"
  "good (tree m) \<Longrightarrow> step (tree m) (tree (snd (count_deduplicated m)))"
  by (simp_all add: count_moved_def count_deduplicated_def step_refl)

lemma bind_step:
  assumes "step (tree m) (tree (snd (act m)))"
    and "\<And>x m'. act m = (Inr x, m') \<Longrightarrow> good (tree m') \<Longrightarrow> step (tree m') (tree (snd (f x m')))"
  shows "step (tree m) (tree (snd (io_bind act f m)))"
proof (cases "act m")
  case (Pair r m')
  show ?thesis
  proof (cases r)
    case (Inr x)
    then have "step (tree m) (tree m')" "act m = (Inr x, m')" using assms(1) Pair by simp_all
    with assms(2)[of x m'] step_trans step_good have "step (tree m) (tree (snd (f x m')))" by blast
    with Pair Inr show ?thesis by (simp add: io_bind_def)
  qed (use Pair assms(1) in \<open>simp add: io_bind_def\<close>)
qed

lemma catch_step:
  assumes "step (tree m) (tree (snd (act m)))"
    and "\<And>e m'. act m = (Inl e, m') \<Longrightarrow> good (tree m') \<Longrightarrow> step (tree m') (tree (snd (handler m')))"
  shows "step (tree m) (tree (snd (io_catch act handler m)))"
proof (cases "act m")
  case (Pair r m')
  show ?thesis
  proof (cases r)
    case (Inl e)
    then have "step (tree m) (tree m')" "act m = (Inl e, m')" using assms(1) Pair by simp_all
    with assms(2)[of e m'] step_trans step_good have "step (tree m) (tree (snd (handler m')))" by blast
    with Pair Inl \<open>step (tree m) (tree m')\<close> show ?thesis by (simp add: io_catch_def)
  qed (use Pair assms(1) in \<open>simp add: io_catch_def\<close>)
qed

lemma each_step:
  assumes "\<And>x m. x \<in> set xs \<Longrightarrow> good (tree m) \<Longrightarrow> step (tree m) (tree (snd (f x m)))" and "good (tree m)"
  shows "step (tree m) (tree (snd (io_each f xs m)))"
  using assms
proof (induction xs arbitrary: m)
  case Nil
  then show ?case by (simp add: return_step)
next
  case (Cons x xs)
  have "step (tree m) (tree (snd (io_bind (f x) (\<lambda>_. io_each f xs) m)))"
    using Cons.prems by (intro bind_step Cons.IH) auto
  then show ?case by simp
qed

end

interpretation carrying: store_steps well_formed "carries src dest" for src dest
  by unfold_locales (blast intro: carries_refl, simp add: carries_def, blast intro: carries_trans)

interpretation unchanged: store_steps "\<lambda>_. True" "\<lambda>t u. u = t"
  by unfold_locales auto

interpretation sparing: store_steps "\<lambda>_. True" "\<lambda>t u. \<forall>q. keep q \<longrightarrow> look u q = look t q" for keep
  by unfold_locales auto

section \<open>Single calls\<close>

lemma on_tree_simps [simp]:
  "fst (on_tree f m) = Inr ()" "tree (snd (on_tree f m)) = f (tree m)"
  by (simp_all add: on_tree_def)

lemma io_simps [simp]:
  "tree (snd (io_return x m)) = tree m" "tree (snd (io_raise e m)) = tree m"
  "tree (snd (count_moved n m)) = tree m" "tree (snd (count_deduplicated m)) = tree m"
  by (simp_all add: io_return_def io_raise_def count_moved_def count_deduplicated_def)

lemma io_bind_on_tree: "io_bind (on_tree f) g m = g () (m\<lparr>tree := f (tree m)\<rparr>)"
  by (simp add: io_bind_def on_tree_def)

lemma io_bind_Inr: "io_bind act f m = (Inr y, m'') \<longleftrightarrow> (\<exists>x m'. act m = (Inr x, m') \<and> f x m' = (Inr y, m''))"
  by (auto simp: io_bind_def split: prod.splits sum.splits)

lemma make_dir_carries:
  assumes "well_formed (tree m)" "src \<parallel> dest" "strict_prefix q dest"
  shows "carries src dest (tree m) (tree (snd (make_dir env q m)))"
  using assms carries_make[of "tree m" src dest q] by (auto simp: make_dir_def intro: carries_refl)

lemma mkdirs_carries:
  assumes "well_formed (tree m)" "src \<parallel> dest"
  shows "carries src dest (tree m) (tree (snd (mkdirs env (butlast dest) m)))"
proof -
  have "dest \<noteq> []" using parallel_not_Nil[OF assms(2)] by simp
  then have "dest = butlast dest @ [last dest]" by simp
  then have "strict_prefix (butlast dest) dest" by (metis prefix_snoc prefix_order.less_le not_Cons_self2 append_self_conv prefix_order.refl)
  moreover have "prefix (take i (butlast dest)) (butlast dest)" for i by (rule take_is_prefix)
  ultimately have "strict_prefix (take i (butlast dest)) dest" for i by (meson prefix_order.le_less_trans)
  then show ?thesis
    unfolding mkdirs_def using assms
    by (intro carrying.each_step) (auto intro!: make_dir_carries simp del: upt_Suc)
qed

lemma make_dir_made: "make_dir env q m = (Inr x, m') \<Longrightarrow> is_dir (tree m') q"
  by (auto simp: make_dir_def io_return_def io_raise_def on_tree_def is_dir_def split: if_splits)

lemma io_each_snoc: "io_each f (xs @ [x]) m = io_bind (io_each f xs) (\<lambda>_. f x) m"
  by (induction xs arbitrary: m) (auto simp: io_bind_def io_return_def split: prod.splits sum.splits)

lemma mkdirs_made: "mkdirs env p m = (Inr x, m') \<Longrightarrow> is_dir (tree m') p"
  by (auto simp: mkdirs_def io_each_snoc io_bind_Inr dest: make_dir_made)

lemma unlink_snd: "tree (snd (unlink env p m)) = tree m \<or>
   tree (snd (unlink env p m)) = erase p (tree m) \<and> \<not> is_dir (tree m) p"
  by (auto simp: unlink_def)

lemma os_rename_cases:
  "os_rename env src dest m = (Inl Os_Error, m) \<or>
   os_rename env src dest m = (Inr (), m\<lparr>tree := renamed src dest (tree m)\<rparr>) \<and> is_dir (tree m) (butlast dest)"
  by (auto simp: os_rename_def io_raise_def on_tree_def)

lemma files_are_identical_unchanged [simp]: "tree (snd (files_are_identical env src dest m)) = tree m"
  by (auto simp: files_are_identical_def split: option.splits)

lemma files_are_identical_same: "files_are_identical env src dest m = (r, m') \<Longrightarrow> m' = m"
  by (auto simp: files_are_identical_def io_return_def io_raise_def split: option.splits)

text \<open>Equal digests and sizes mean equal contents.\<close>

definition collision_free :: "disk \<Rightarrow> bool" where
  "collision_free env \<longleftrightarrow> (\<forall>c d. length c = length d \<longrightarrow> sha256 env c = sha256 env d \<longrightarrow> c = d)"

lemma identical_contents:
  assumes "files_are_identical env src dest m = (Inr True, m')" "collision_free env"
  shows "content (tree m) src = content (tree m) dest \<and> content (tree m) src \<noteq> None"
  using assms by (auto simp: files_are_identical_def io_return_def io_raise_def collision_free_def split: option.splits)


section \<open>One file\<close>

lemma carries_same_look: "well_formed t \<Longrightarrow> (\<And>q. look u q = look t q) \<Longrightarrow> carries src dest t u"
  by (simp add: carries_def carried_def well_formed_def)

lemma copy2_cases:
  obtains "copy2 env src dest m = (Inl Os_Error, m)"
  | c' where "copy2 env src dest m = (Inl Os_Error, m\<lparr>tree := put dest (File c') (tree m)\<rparr>)"
  | c c' where "copy2 env src dest m = (Inr (), m\<lparr>tree := put dest (File c') (tree m)\<rparr>)"
      "content (tree m) src = Some c" "copied env src c = Copied c'"
proof (cases "content (tree m) src")
  case None
  then show ?thesis by (intro that(1)) (simp add: copy2_def io_raise_def)
next
  case (Some c)
  show ?thesis
  proof (cases "copied env src c")
    case (Copied c')
    with Some show ?thesis by (intro that(3)) (auto simp: copy2_def on_tree_def)
  next
    case (Copy_Fails part)
    with Some that(1,2) show ?thesis
      by (cases part) (auto simp: copy2_def io_raise_def io_bind_on_tree)
  qed
qed

lemma copy_and_remove_carries:
  assumes "well_formed (tree m)" "src \<parallel> dest" "look (tree m) dest = None" "is_dir (tree m) (butlast dest)" "sized_copies env"
  shows "carries src dest (tree m) (tree (snd (copy_and_remove env src dest m)))"
proof -
  note put = carries_put[OF assms(1-4)]
  note out = paths_apart[OF assms(2)]
  show ?thesis
  proof (cases env src dest m rule: copy2_cases)
    case 1
    then show ?thesis using assms(1) by (simp add: copy_and_remove_def io_bind_def carries_refl)
  next
    case (2 c')
    then show ?thesis using put by (simp add: copy_and_remove_def io_bind_def)
  next
    case (3 c c')
    let ?u = "m\<lparr>tree := put dest (File c') (tree m)\<rparr>"
    have cs: "content (tree ?u) src = Some c" using 3(2) out(5) by (simp add: content_def)
    have cd: "content (tree ?u) dest = Some c'" by (simp add: content_def)
    show ?thesis
    proof (cases "length c' = length c")
      case False
      then have eq: "copy_and_remove env src dest m = io_bind (unlink env dest) (\<lambda>_. io_raise Os_Error) ?u"
        using 3(1) cs cd by (simp add: copy_and_remove_def io_bind_def)
      have "tree (snd (copy_and_remove env src dest m)) = tree (snd (unlink env dest ?u))"
        unfolding eq by (auto simp: io_bind_def io_raise_def split: prod.splits sum.splits)
      moreover have "carries src dest (tree m) (tree (snd (unlink env dest ?u)))"
      proof -
        have "carries src dest (tree m) (erase dest (tree ?u))"
          using assms(1,3) by (intro carries_same_look) auto
        with unlink_snd[of env dest ?u] put show ?thesis by auto
      qed
      ultimately show ?thesis by (simp add: eq)
    next
      case True
      with assms(5) 3(3) have c: "c' = c" by (simp add: sized_copies_def)
      have eq: "copy_and_remove env src dest m =
          io_bind (unlink env src) (\<lambda>_. io_bind (count_moved 1) (\<lambda>_. io_return dest)) ?u"
        using 3(1) cs cd True by (simp add: copy_and_remove_def io_bind_def)
      have "carries src dest (tree ?u) (erase src (tree ?u))"
        using put assms(2) cs c by (intro carries_erase) (auto simp: carries_def content_def is_dir_def split: option.splits)
      then have "carries src dest (tree ?u) (tree (snd (unlink env src ?u)))"
        using unlink_snd[of env src ?u] put by (auto simp: carries_def carried_refl)
      then have "carries src dest (tree ?u) (tree (snd (copy_and_remove env src dest m)))"
        unfolding eq by (intro carrying.bind_step) (auto simp: carries_refl)
      with put show ?thesis by (auto intro: carries_trans)
    qed
  qed
qed

lemma move_single_carries:
  assumes "well_formed (tree m)" "src \<parallel> dest" "sized_copies env" "collision_free env"
  shows "carries src dest (tree m) (tree (snd (move_single_file_to_path env src dest m)))"
  unfolding move_single_file_to_path_def
proof (rule carrying.bind_step, goal_cases)
  case 1
  then show ?case using mkdirs_carries assms(1,2) by blast
next
  case (2 x m')
  then have d: "is_dir (tree m') (butlast dest)" by (simp add: mkdirs_made)
  show ?case
  proof (cases "occupied (tree m') dest")
    case True
    have "carries src dest (tree m'') (tree (snd (unlink env src m'')))"
      if same: "files_are_identical env src dest m' = (Inr True, m'')" and "\<not> is_symlink (tree m') dest" for m''
    proof -
      have c: "content (tree m') src = content (tree m') dest" "content (tree m') src \<noteq> None"
        using identical_contents[OF same assms(4)] by blast+
      then have "look (tree m') dest = Some (File d)" if "content (tree m') src = Some d" for d
        using that \<open>\<not> is_symlink _ _\<close> by (auto simp: content_def is_symlink_def split: option.splits entry.splits)
      then have "carries src dest (tree m') (erase src (tree m'))"
        using 2 assms(2) c by (intro carries_erase) (auto simp: content_def is_dir_def)
      then show ?thesis
        using unlink_snd[of env src m'] 2(2) files_are_identical_same[OF same] by (auto simp: carries_refl)
    qed
    then show ?thesis
      unfolding Let_def using True 2(2)
      by (auto intro!: carrying.bind_step[of src dest] carrying.raise_step carrying.count_step carrying.return_step
          simp: carries_refl io_return_def[of False] split: if_splits)
  next
    case False
    then have a: "look (tree m') dest = None" by (simp add: occupied_iff)
    show ?thesis
      unfolding Let_def using False
    proof (simp, intro carrying.catch_step, goal_cases)
      case 1
      then show ?case
        using os_rename_cases[of env src dest m'] carries_rename[OF 2(2) assms(2) a] 2(2)
        by (auto intro!: carrying.bind_step carrying.count_step carrying.return_step simp: carries_refl)
    next
      case (2 e m'')
      then have "m'' = m'" using os_rename_cases[of env src dest m']
        by (auto simp: io_bind_def count_moved_def io_return_def)
      then show ?case using copy_and_remove_carries[of m' src dest env] a d 2 assms by simp
    qed
  qed
qed

section \<open>Directories\<close>

lemma carries_up: "carries (src @ [n]) (dest @ [n]) t u \<Longrightarrow> src \<parallel> dest \<Longrightarrow> carries src dest t u"
  unfolding carries_def using carried_up by blast

lemma copytree_cases:
  obtains "copytree env src dest m = (Inl Os_Error, m)"
  | "copytree env src dest m = (Inl Os_Error, m\<lparr>tree := tree_made env (tree m) src dest (below (tree m) src) @ tree m\<rparr>)"
  | "copytree env src dest m = (Inr (), m\<lparr>tree := tree_made env (tree m) src dest (below (tree m) src) @ tree m\<rparr>)"
      "list_all (\<lambda>r. snd (tree_copy env (tree m) src dest r)) (below (tree m) src)"
  by (cases "is_dir (tree m) src"; cases "list_all (\<lambda>r. snd (tree_copy env (tree m) src dest r)) (below (tree m) src)")
    (auto simp: copytree_def Let_def io_raise_def io_return_def io_bind_on_tree)

lemma tree_written: "tree (m\<lparr>tree := u\<rparr>) = u"
  by simp

lemma rmtree_tree:
  "tree (snd (rmtree env p m)) =
     filter (\<lambda>(q, _). \<not> prefix p q \<or> list_ex (prefix q) (filter (\<lambda>q. prefix p q \<and> \<not> removes env q) (map fst (tree m)))) (tree m)"
  by (simp add: rmtree_def Let_def io_bind_on_tree io_return_def io_raise_def)

lemma copy_tree_carries:
  assumes "well_formed (tree m)" "src \<parallel> dest" "look (tree m) dest = None" "is_dir (tree m) (butlast dest)" "honest_copies env"
  shows "carries src dest (tree m) (tree (snd (io_bind (copytree env src dest) (\<lambda>_. rmtree env src) m)))"
proof -
  note made = carries_copytree[OF assms(1-4), of env]
  show ?thesis
  proof (cases env src dest m rule: copytree_cases)
    case 3
    let ?u = "tree_made env (tree m) src dest (below (tree m) src) @ tree m"
    have "carries src dest ?u (tree (snd (rmtree env src (m\<lparr>tree := ?u\<rparr>))))"
    proof -
      have "look ?u (dest @ p) = Some (File c)" if "look ?u (src @ p) = Some (File c)" for p c
      proof -
        have "look (tree m) (src @ p) = Some (File c)" using that paths_apart[OF assms(2)] by (simp add: look_made_apart)
        then show ?thesis by (rule copytree_complete[OF assms(5) 3(2)])
      qed
      then have "carries src dest ?u (filter (\<lambda>(q, _). \<not> prefix src q \<or> list_ex (prefix q) stuck) ?u)" for stuck
        using made assms(2) by (intro carries_rmtree) (simp_all add: carries_def)
      then show ?thesis by (simp only: rmtree_tree tree_written)
    qed
    with made 3(1) show ?thesis by (auto simp: io_bind_def intro: carries_trans)
  qed (use made assms(1) in \<open>auto simp: io_bind_def carries_refl\<close>)
qed

lemma os_rename_failed: "os_rename env src dest m = (Inl e, m') \<Longrightarrow> m' = m"
  using os_rename_cases[of env src dest m] by auto

lemma os_rename_carries:
  assumes "well_formed (tree m)" "src \<parallel> dest" "look (tree m) dest = None"
  shows "carries src dest (tree m) (tree (snd (os_rename env src dest m)))"
  using os_rename_cases[of env src dest m] carries_rename[OF assms] assms(1) by (auto simp: carries_refl)

lemma move_directory_to_path_carries:
  assumes "well_formed (tree m)" "src \<parallel> dest" "honest_copies env"
  shows "carries src dest (tree m) (tree (snd (move_directory_to_path env src dest m)))"
  unfolding move_directory_to_path_def
proof (rule carrying.bind_step, goal_cases)
  case (2 x m')
  then have d: "is_dir (tree m') (butlast dest)" by (simp add: mkdirs_made)
  show ?case
  proof (cases "occupied (tree m') dest")
    case False
    then have a: "look (tree m') dest = None" by (simp add: occupied_iff)
    show ?thesis
      using False os_rename_carries[OF 2(2) assms(2) a] copy_tree_carries[OF 2(2) assms(2) a d assms(3)]
      by (auto intro!: carrying.catch_step dest: os_rename_failed)
  qed (use 2 in \<open>simp add: carries_refl\<close>)
qed (use mkdirs_carries assms in blast)

lemma list_directory_cases:
  obtains "list_directory p m = (Inl Os_Error, m)"
  | "list_directory p m = (Inr (sorted_directory_entries (tree m) p), m)" "is_dir (tree m) p"
  by (cases "is_dir (tree m) p") (auto simp: list_directory_def io_return_def io_raise_def)

lemma rmdir_carries:
  assumes "well_formed (tree m)" "src \<parallel> dest"
  shows "carries src dest (tree m) (tree (snd (rmdir env src m)))"
  using assms carries_rmdir[of "tree m" src dest] by (auto simp: rmdir_def carries_refl)

lemma merge_entry_carries_with:
  assumes "well_formed (tree m)" "src \<parallel> dest" "honest_copies env" "collision_free env"
    and "carries (src @ [n]) (dest @ [n]) (tree m) (tree (snd (recurse (src @ [n]) (dest @ [n]) m)))"
  shows "carries (src @ [n]) (dest @ [n]) (tree m) (tree (snd (merge_entry env recurse src dest n m)))"
proof -
  have p: "src @ [n] \<parallel> dest @ [n]" by (rule parallel_snoc[OF assms(2)])
  show ?thesis
    using assms(1,5) p move_directory_to_path_carries[OF _ p assms(3)]
      move_single_carries[OF assms(1) p honest_sized[OF assms(3)] assms(4)] carries_refl
    by (auto simp: merge_entry_def Let_def intro!: carrying.bind_step)
qed

lemma merge_directory_carries:
  assumes "well_formed (tree m)" "src \<parallel> dest" "honest_copies env" "collision_free env"
  shows "carries src dest (tree m) (tree (snd (merge_directory env limit src dest m)))"
  using assms(1,2)
proof (induction limit arbitrary: src dest m)
  case 0
  then show ?case by (simp add: carries_refl)
next
  case (Suc limit)
  note [simp] = carries_refl
  show ?case
    unfolding merge_directory.simps
  proof (rule carrying.bind_step, goal_cases)
    case 1
    then show ?case using Suc.prems by (cases src m rule: list_directory_cases) auto
  next
    case (2 names m')
    show ?case
    proof (rule carrying.bind_step, goal_cases)
      case 1
      show ?case
      proof (rule carrying.each_step)
        fix n and m'' :: mover assume w: "well_formed (tree m'')"
        have p: "src @ [n] \<parallel> dest @ [n]" by (rule parallel_snoc[OF Suc.prems(2)])
        have "carries (src @ [n]) (dest @ [n]) (tree m'') (tree (snd (merge_entry env (merge_directory env limit) src dest n m'')))"
          using merge_entry_carries_with[OF w Suc.prems(2) assms(3,4)] Suc.IH[OF w p] by blast
        then show "carries src dest (tree m'') (tree (snd (merge_entry env (merge_directory env limit) src dest n m'')))"
          using Suc.prems(2) by (rule carries_up)
      qed (use 2 in auto)
    next
      case (2 x m'')
      then show ?case by (simp add: rmdir_carries Suc.prems(2))
    qed
  qed
qed

lemma merge_entry_carries:
  assumes "well_formed (tree m)" "src \<parallel> dest" "honest_copies env" "collision_free env"
  shows "carries (src @ [n]) (dest @ [n]) (tree m) (tree (snd (merge_entry env (merge_directory env limit) src dest n m)))"
  using merge_entry_carries_with[OF assms] merge_directory_carries[OF assms(1) parallel_snoc[OF assms(2)] assms(3,4)] by blast

lemma list_directory_unchanged [simp]: "tree (snd (list_directory p m)) = tree m"
  by (cases p m rule: list_directory_cases) auto

lemma preflight_entry_unchanged:
  assumes "\<And>src dest m. tree (snd (recurse src dest m)) = tree m"
  shows "tree (snd (preflight_entry env recurse src dest n m)) = tree m"
  using assms by (auto simp: preflight_entry_def Let_def intro!: unchanged.bind_step)

lemma preflight_unchanged: "tree (snd (preflight_directory_merge env limit src dest m)) = tree m"
proof (induction limit arbitrary: src dest m)
  case (Suc limit)
  have "tree (snd (preflight_entry env (preflight_directory_merge env limit) src dest n m)) = tree m" for n m
    by (rule preflight_entry_unchanged) (rule Suc.IH)
  then show ?case by (auto intro!: unchanged.bind_step unchanged.each_step)
qed simp

section \<open>What a passed preflight promises\<close>

text \<open>
  The meaning of a passed preflight, in terms of the entries alone: it does not depend on the
  order in which they are listed.
\<close>

definition same_content :: "disk \<Rightarrow> store \<Rightarrow> fpath \<Rightarrow> fpath \<Rightarrow> bool" where
  "same_content env t s d \<longleftrightarrow> (\<exists>x y. content t s = Some x \<and> content t d = Some y \<and>
     length x = length y \<and> sha256 env x = sha256 env y)"

definition entry_mergeable :: "disk \<Rightarrow> (fpath \<Rightarrow> fpath \<Rightarrow> bool) \<Rightarrow> store \<Rightarrow> fpath \<Rightarrow> fpath \<Rightarrow> bool" where
  "entry_mergeable env recurse t s d \<longleftrightarrow>
     \<not> is_symlink t s \<and>
     (look t d \<noteq> None \<longrightarrow> \<not> is_symlink t d \<and>
        (if is_dir t s then is_dir t d \<and> recurse s d else is_file t s \<and> is_file t d \<and> same_content env t s d))"

primrec mergeable :: "disk \<Rightarrow> store \<Rightarrow> nat \<Rightarrow> fpath \<Rightarrow> fpath \<Rightarrow> bool" where
  "mergeable env t 0 s d = False"
| "mergeable env t (Suc n) s d =
     (is_dir t s \<and> is_dir t d \<and>
      (\<forall>name. look t (s @ [name]) \<noteq> None \<longrightarrow> entry_mergeable env (mergeable env t n) t (s @ [name]) (d @ [name])))"

lemma identical_passes:
  "io_bind (files_are_identical env s d) (\<lambda>same. if same then io_return () else io_raise e) m = (Inr (), m) \<longleftrightarrow>
   same_content env (tree m) s d"
  "snd (io_bind (files_are_identical env s d) (\<lambda>same. if same then io_return () else io_raise e) m) = m"
  by (auto simp: files_are_identical_def io_bind_def io_return_def io_raise_def same_content_def split: option.splits)

lemma io_each_checks:
  assumes "\<And>x m. snd (f x m) = m"
  shows "snd (io_each f xs m) = m" "io_each f xs m = (Inr (), m) \<longleftrightarrow> (\<forall>x \<in> set xs. f x m = (Inr (), m))"
proof -
  have eq: "f x m = (fst (f x m), m)" for x m using assms[of x m] by (cases "f x m") auto
  have "snd (io_each f xs m) = m \<and> (io_each f xs m = (Inr (), m) \<longleftrightarrow> (\<forall>x \<in> set xs. f x m = (Inr (), m)))"
  proof (induction xs)
    case (Cons x xs)
    obtain r where r: "f x m = (r, m)" using eq by blast
    with Cons show ?case by (cases r) (auto simp: io_bind_def)
  qed (simp add: io_return_def)
  then show "snd (io_each f xs m) = m" "io_each f xs m = (Inr (), m) \<longleftrightarrow> (\<forall>x \<in> set xs. f x m = (Inr (), m))" by auto
qed

lemma preflight_entry_passes:
  assumes "\<And>s d m. snd (recurse s d m) = m"
  shows "snd (preflight_entry env recurse s d n m) = m"
    and "preflight_entry env recurse s d n m = (Inr (), m) \<longleftrightarrow>
      entry_mergeable env (\<lambda>s d. recurse s d m = (Inr (), m)) (tree m) (s @ [n]) (d @ [n])"
  using assms identical_passes[of env "s @ [n]" "d @ [n]" _ m]
  by (auto simp: preflight_entry_def Let_def entry_mergeable_def occupied_iff io_return_def[of _ m] io_raise_def[of _ m])

lemma preflight_passes:
  "snd (preflight_directory_merge env n s d m) = m \<and>
   (preflight_directory_merge env n s d m = (Inr (), m) \<longleftrightarrow> mergeable env (tree m) n s d)"
proof (induction n arbitrary: s d m)
  case 0
  then show ?case by (simp add: io_raise_def)
next
  case (Suc n)
  let ?f = "preflight_entry env (preflight_directory_merge env n) s d"
  have keep: "snd (?f x m) = m" for x m by (rule preflight_entry_passes) (use Suc in blast)
  have ok: "?f x m = (Inr (), m) \<longleftrightarrow> entry_mergeable env (mergeable env (tree m) n) (tree m) (s @ [x]) (d @ [x])" for x
    using preflight_entry_passes(2)[of "preflight_directory_merge env n" env s d x m] Suc by simp
  note each = io_each_checks[of ?f, OF keep]
  have "\<not> is_symlink (tree m) d" if "is_dir (tree m) d" using that by (simp add: is_dir_def is_symlink_def)
  then show ?case
    using each ok
    by (cases s m rule: list_directory_cases)
      (auto simp: io_raise_def list_directory_def io_bind_def io_return_def listing_iff split: if_splits)
qed

lemma entry_mergeable_cong:
  "look u s = look t s \<Longrightarrow> look u d = look t d \<Longrightarrow> rec' s d = rec s d \<Longrightarrow>
   entry_mergeable env rec' u s d = entry_mergeable env rec t s d"
  by (simp add: entry_mergeable_def is_symlink_def is_dir_def is_file_def content_def same_content_def)

lemma mergeable_cong:
  assumes "\<And>p. look u (s @ p) = look t (s @ p)" "\<And>p. look u (d @ p) = look t (d @ p)"
  shows "mergeable env u n s d = mergeable env t n s d"
  using assms
proof (induction n arbitrary: s d)
  case (Suc n)
  have h: "is_dir u s = is_dir t s" "is_dir u d = is_dir t d" using Suc.prems[of "[]"] by (simp_all add: is_dir_def)
  have "entry_mergeable env (mergeable env u n) u (s @ [x]) (d @ [x]) \<longleftrightarrow>
      entry_mergeable env (mergeable env t n) t (s @ [x]) (d @ [x])" for x
    using Suc.IH[of "s @ [x]" "d @ [x]"] Suc.prems by (intro entry_mergeable_cong) simp_all
  with h Suc.prems(1) show ?case by simp
qed simp


section \<open>A disk that does what it is asked\<close>

definition obliging :: "disk \<Rightarrow> bool" where
  "obliging env \<longleftrightarrow> (\<forall>p q. renames env p q) \<and> (\<forall>p. removes env p)"

lemma ancestors_exist:
  assumes "well_formed t" "is_dir t p"
  shows "is_dir t (take i p)"
proof (cases "i < length p")
  case True
  then have "look t (take i p @ drop i p) \<noteq> None" "drop i p \<noteq> []" using assms(2) by (auto simp: is_dir_def)
  then have "look t (take i p) = Some Directory" by (rule below_directory[OF assms(1)])
  then show ?thesis by (simp add: is_dir_def)
qed (use assms(2) in simp)

lemma mkdirs_noop:
  assumes "well_formed (tree m)" "is_dir (tree m) p"
  shows "mkdirs env p m = (Inr (), m)"
proof -
  have "io_each (make_dir env) qs m = (Inr (), m)" if "\<And>q. q \<in> set qs \<Longrightarrow> is_dir (tree m) q" for qs
    using that by (induction qs) (auto simp: io_bind_def make_dir_def io_return_def)
  then show ?thesis unfolding mkdirs_def using ancestors_exist[OF assms] by (metis (no_types, lifting) ex_map_conv)
qed

text \<open>Entries that neither move touches are as before once the destination's folder exists.\<close>

lemma carries_elsewhere:
  assumes "carries src dest t u" "well_formed t" "is_dir t (butlast dest)" "\<not> prefix src q" "\<not> prefix dest q"
  shows "look u q = look t q"
proof -
  have "look t q \<noteq> None" if "strict_prefix q dest"
  proof -
    have "prefix q (butlast dest)" using that by (cases dest rule: rev_cases) (auto simp: strict_prefix_def)
    then obtain i where "q = take i (butlast dest)" by (metis prefix_def append_eq_conv_conj)
    then show ?thesis using ancestors_exist[OF assms(2,3)] by (auto simp: is_dir_def)
  qed
  then show ?thesis using assms(1,4,5) unfolding carries_def carried_def by metis
qed

lemma os_rename_obliging:
  assumes "obliging env" "look (tree m) src \<noteq> None" "is_dir (tree m) (butlast dest)" "src \<parallel> dest"
  shows "os_rename env src dest m = (Inr (), m\<lparr>tree := renamed src dest (tree m)\<rparr>)"
  using assms paths_apart[OF assms(4)] by (auto simp: os_rename_def obliging_def on_tree_def)

lemma entry_completes:
  assumes "obliging env" "well_formed (tree m)" "s @ [x] \<parallel> d @ [x]" "is_dir (tree m) d" "look (tree m) (s @ [x]) \<noteq> None"
    and "entry_mergeable env rec (tree m) (s @ [x]) (d @ [x])"
    and "\<And>m'. tree m' = tree m \<Longrightarrow> is_dir (tree m) (s @ [x]) \<Longrightarrow> rec (s @ [x]) (d @ [x]) \<Longrightarrow>
           \<exists>m''. recurse (s @ [x]) (d @ [x]) m' = (Inr (), m'') \<and> (\<forall>p. look (tree m'') (s @ [x] @ p) = None)"
  shows "\<exists>m'. merge_entry env recurse s d x m = (Inr (), m') \<and> (\<forall>p. look (tree m') (s @ [x] @ p) = None)"
proof -
  let ?s = "s @ [x]" and ?d = "d @ [x]"
  have b: "butlast ?d = d" by simp
  note ren = os_rename_obliging[OF assms(1,5), of ?d, unfolded b, OF assms(4,3)]
  have away: "look (renamed ?s ?d t) (s @ x # p) = None" for t p using renamed_away[OF assms(3), of t p] by simp
  consider (dir) "is_dir (tree m) ?s" "look (tree m) ?d \<noteq> None" | (newdir) "is_dir (tree m) ?s" "look (tree m) ?d = None"
    | (old) "\<not> is_dir (tree m) ?s" "look (tree m) ?d \<noteq> None" | (fresh) "\<not> is_dir (tree m) ?s" "look (tree m) ?d = None"
    by blast
  then show ?thesis
  proof cases
    case dir
    then have "path_exists (tree m) ?d" "rec ?s ?d"
      using assms(6) by (auto simp: entry_mergeable_def path_exists_def is_symlink_def)
    then show ?thesis using dir assms(7)[of m] by (auto simp: merge_entry_def Let_def)
  next
    case newdir
    then show ?thesis
      using os_rename_obliging[OF assms(1), of "m\<lparr>moved_files := _\<rparr>" ?s ?d] mkdirs_noop[of "m\<lparr>moved_files := _\<rparr>" d env] assms away
      by (auto simp: merge_entry_def Let_def path_exists_def occupied_iff move_directory_to_path_def io_bind_def
            count_moved_def io_catch_def)
  next
    case old
    then have c: "same_content env (tree m) ?s ?d" "\<not> is_symlink (tree m) ?d" "is_file (tree m) ?d"
      using assms(6) by (auto simp: entry_mergeable_def)
    then have "files_are_identical env ?s ?d m = (Inr True, m)"
      by (auto simp: same_content_def files_are_identical_def io_return_def)
    moreover have "look (tree m) ((s @ [x]) @ p) = None" if "p \<noteq> []" for p
      using below_directory[OF assms(2) _ that, of ?s] old(1) by (cases "look (tree m) (?s @ p)") (auto simp: is_dir_def)
    ultimately show ?thesis
      using old c assms mkdirs_noop[of m d env]
      by (auto simp: merge_entry_def Let_def occupied_iff move_single_file_to_path_def io_bind_def unlink_def
            on_tree_def obliging_def count_deduplicated_def io_return_def)
  next
    case fresh
    then show ?thesis
      using ren assms mkdirs_noop[of m d env] away
      by (auto simp: merge_entry_def Let_def occupied_iff move_single_file_to_path_def io_bind_def io_catch_def
            count_moved_def io_return_def)
  qed
qed


text \<open>The loop over the entries: those done are gone, and the others are as they were.\<close>

lemma merge_entries_complete:
  assumes "obliging env" "honest_copies env" "collision_free env" "s \<parallel> d"
    and "well_formed (tree m)" "is_dir (tree m) d" "is_dir (tree m) s" "distinct names"
    and "\<And>x. x \<in> set names \<Longrightarrow> look (tree m) (s @ [x]) \<noteq> None \<and> entry_mergeable env (mergeable env (tree m) n) (tree m) (s @ [x]) (d @ [x])"
    and IH: "\<And>s d m. s \<parallel> d \<Longrightarrow> well_formed (tree m) \<Longrightarrow> mergeable env (tree m) n s d \<Longrightarrow>
        \<exists>m'. merge_directory env n s d m = (Inr (), m') \<and> (\<forall>p. look (tree m') (s @ p) = None)"
  shows "\<exists>m'. io_each (merge_entry env (merge_directory env n) s d) names m = (Inr (), m') \<and>
    carries s d (tree m) (tree m') \<and> is_dir (tree m') s \<and> (\<forall>x \<in> set names. \<forall>p. look (tree m') (s @ [x] @ p) = None)"
  using assms(5-9)
proof (induction names arbitrary: m)
  case Nil
  then show ?case by (auto simp: io_return_def carries_refl)
next
  case (Cons x xs)
  let ?s = "s @ [x]" and ?d = "d @ [x]" and ?f = "merge_entry env (merge_directory env n) s d"
  have par: "?s \<parallel> ?d" by (rule parallel_snoc[OF assms(4)])
  obtain m' where m': "?f x m = (Inr (), m')" "\<forall>p. look (tree m') (s @ [x] @ p) = None"
    using entry_completes[OF assms(1) Cons.prems(1) par Cons.prems(2),
          where rec = "mergeable env (tree m) n" and recurse = "merge_directory env n"]
      Cons.prems(5)[of x] IH[OF par] Cons.prems(1) by auto
  have c: "carries ?s ?d (tree m) (tree m')"
    using merge_entry_carries[OF Cons.prems(1) assms(4,2,3), of x n] m' by simp
  then have C: "carries s d (tree m) (tree m')" by (rule carries_up[OF _ assms(4)])
  have el: "look (tree m') q = look (tree m) q" if "\<not> prefix ?s q" "\<not> prefix ?d q" for q
    using carries_elsewhere[OF c Cons.prems(1)] Cons.prems(2) that by simp
  have "\<not> prefix ?s d" "\<not> prefix ?d s" using paths_apart[OF assms(4)] append_prefixD by blast+
  then have dirs: "is_dir (tree m') d" "is_dir (tree m') s"
    using Cons.prems(2,3) el[of d] el[of s] by (simp_all add: is_dir_def)
  have other: "look (tree m') (s @ [y] @ p) = look (tree m) (s @ [y] @ p) \<and> look (tree m') (d @ [y] @ p) = look (tree m) (d @ [y] @ p)"
    if "y \<in> set xs" for y p
    using that Cons.prems(4) paths_apart[OF assms(4)] by (intro conjI el) auto
  have "entry_mergeable env (mergeable env (tree m') n) (tree m') (s @ [y]) (d @ [y])" if y: "y \<in> set xs" for y
  proof -
    have "mergeable env (tree m') n (s @ [y]) (d @ [y]) = mergeable env (tree m) n (s @ [y]) (d @ [y])"
      using other[OF y] by (intro mergeable_cong) auto
    then show ?thesis
      using Cons.prems(5)[of y] y other[OF y, of "[]"] entry_mergeable_cong[of "tree m'" "s @ [y]" "tree m" "d @ [y]"] by simp
  qed
  then obtain m'' where m'': "io_each ?f xs m' = (Inr (), m'')" "carries s d (tree m') (tree m'')"
      "is_dir (tree m'') s" "\<forall>y \<in> set xs. \<forall>p. look (tree m'') (s @ [y] @ p) = None"
    using Cons.IH[of m'] C dirs Cons.prems(4,5) other[of _ "[]"] by (auto simp: carries_def)
  have "look (tree m'') (s @ [x] @ p) = None" for p
    using m''(2) m'(2) unfolding carries_def carried_def by metis
  with m' m'' C show ?case by (auto simp: io_bind_def intro: carries_trans)
qed

lemma merge_completes:
  assumes "obliging env" "honest_copies env" "collision_free env"
    and "s \<parallel> d" "well_formed (tree m)" "mergeable env (tree m) n s d"
  shows "\<exists>m'. merge_directory env n s d m = (Inr (), m') \<and> (\<forall>p. look (tree m') (s @ p) = None)"
  using assms(4-6)
proof (induction n arbitrary: s d m)
  case (Suc n)
  have dirs: "is_dir (tree m) s" "is_dir (tree m) d" using Suc.prems(3) by simp_all
  let ?names = "sorted_directory_entries (tree m) s"
  obtain m' where m': "io_each (merge_entry env (merge_directory env n) s d) ?names m = (Inr (), m')"
      "carries s d (tree m) (tree m')" "is_dir (tree m') s" "\<forall>x \<in> set ?names. \<forall>p. look (tree m') (s @ [x] @ p) = None"
    using merge_entries_complete[OF assms(1-3) Suc.prems(1,2) dirs(2,1) distinct_sorted_entries[of "tree m" s] _ Suc.IH]
      Suc.prems(3) by (auto simp: listing_iff)
  have none: "look (tree m') (s @ [x]) = None" for x
  proof (cases "look (tree m) (s @ [x]) = None")
    case True
    then show ?thesis using m'(2) unfolding carries_def carried_def by metis
  next
    case False
    then show ?thesis using m'(4)[rule_format, of x "[]"] by (simp add: listing_iff)
  qed
  have gone: "look (tree m') (s @ p) = None" if "p \<noteq> []" for p
  proof -
    obtain x r where "p = x # r" using \<open>p \<noteq> []\<close> by (cases p) auto
    then show ?thesis using below_absent[of "tree m'" "s @ [x]" r] none m'(2) by (simp add: carries_def)
  qed
  have "listing (tree m') s = []" using none listing_iff[of _ "tree m'" s] by (cases "listing (tree m') s") auto
  then have "rmdir env s m' = (Inr (), m'\<lparr>tree := erase s (tree m')\<rparr>)"
    using assms(1) m'(3) by (simp add: rmdir_def obliging_def on_tree_def)
  moreover have "look (erase s (tree m')) (s @ p) = None" for p using gone by simp
  ultimately show ?case
    using m'(1) dirs(1) by (simp add: io_bind_def list_directory_def io_return_def)
qed simp

section \<open>Whole moves\<close>

lemma remove_empty_directory_tree:
  assumes "well_formed (tree m)"
  shows "well_formed (tree (snd (remove_empty_directory env p m)))"
    and "e \<noteq> Directory \<Longrightarrow> look (tree m) q = Some e \<Longrightarrow> look (tree (snd (remove_empty_directory env p m))) q = Some e"
    and "look (tree m) q = None \<Longrightarrow> look (tree (snd (remove_empty_directory env p m))) q = None"
    and "\<exists>b m'. remove_empty_directory env p m = (Inr b, m')"
  using assms
  by (auto simp: remove_empty_directory_def rmdir_def io_catch_def io_bind_def io_return_def io_raise_def on_tree_def
      is_dir_def intro: well_formed_erase_empty)

definition parent_cleanup :: "disk \<Rightarrow> bool \<Rightarrow> fpath \<Rightarrow> fpath \<Rightarrow> fpath io" where
  "parent_cleanup env cleanup src dest =
     io_bind (if cleanup then remove_empty_directory env (butlast src) else io_return False) (\<lambda>_. io_return dest)"

lemma parent_cleanup_tree:
  assumes "well_formed (tree m)"
  shows "well_formed (tree (snd (parent_cleanup env cleanup src dest m)))"
    and "e \<noteq> Directory \<Longrightarrow> look (tree m) q = Some e \<Longrightarrow> look (tree (snd (parent_cleanup env cleanup src dest m))) q = Some e"
    and "look (tree m) q = None \<Longrightarrow> look (tree (snd (parent_cleanup env cleanup src dest m))) q = None"
    and "fst (parent_cleanup env cleanup src dest m) = Inr dest"
  using remove_empty_directory_tree[OF assms, where env = env and p = "butlast src"] assms
  by (auto simp: parent_cleanup_def io_bind_def io_return_def split: prod.splits sum.splits)

lemma move_directory_split:
  assumes "dest = destination_root @ destination_relative_parent env src ms st cid (Some []) @ [last src]"
  shows "move_directory env limit src destination_root ms st cid cleanup =
    io_bind (\<lambda>m. if occupied (tree m) dest
                 then io_bind (preflight_directory_merge env limit src dest) (\<lambda>_. merge_directory env limit src dest) m
                 else move_directory_to_path env src dest m)
      (\<lambda>_. parent_cleanup env cleanup src dest)"
  unfolding move_directory_def Let_def parent_cleanup_def assms[symmetric] ..

lemma bind_tree_cases:
  obtains e m' where "act m = (Inl e, m')" "io_bind act f m = (Inl e, m')"
  | x m' where "act m = (Inr x, m')" "io_bind act f m = f x m'"
  by (cases "act m"; cases "fst (act m)") (auto simp: io_bind_def)

lemma merge_body_carries:
  assumes "well_formed (tree m)" "src \<parallel> dest" "honest_copies env" "collision_free env"
  shows "carries src dest (tree m) (tree (snd ((if occupied (tree m) dest
     then io_bind (preflight_directory_merge env limit src dest) (\<lambda>_. merge_directory env limit src dest) m
     else move_directory_to_path env src dest m))))"
  using assms merge_directory_carries[OF _ assms(2-4)] move_directory_to_path_carries[OF assms(1-3)]
  by (auto intro!: carrying.bind_step simp: preflight_unchanged carries_refl)

text \<open>C13: moving a folder loses nothing.  Whatever the calls of the system do (a rename that is refused,
  copies that fail or stop halfway, entries that cannot be removed, an error at any point), afterwards
  each file below the source is still there or at its place below the destination with the same
  content, and every other file or link on the disk, in particular whatever the destination already
  held, is as it was.  The source and the destination must not lie inside one another.\<close>

theorem move_directory_loses_nothing:
  assumes "well_formed (tree m)" "honest_copies env" "collision_free env"
    and dest: "dest = destination_root @ destination_relative_parent env src ms st cid (Some []) @ [last src]"
    and apart: "src \<parallel> dest"
    and "after = tree (snd (move_directory env limit src destination_root ms st cid cleanup m))"
  shows "well_formed after \<and>
    (\<forall>p c. look (tree m) (src @ p) = Some (File c) \<longrightarrow>
       look after (src @ p) = Some (File c) \<or> look after (dest @ p) = Some (File c)) \<and>
    (\<forall>q e. look (tree m) q = Some e \<longrightarrow> e \<noteq> Directory \<longrightarrow> \<not> prefix src q \<longrightarrow> look after q = Some e)"
proof -
  let ?body = "\<lambda>m. if occupied (tree m) dest
     then io_bind (preflight_directory_merge env limit src dest) (\<lambda>_. merge_directory env limit src dest) m
     else move_directory_to_path env src dest m"
  have body: "carries src dest (tree m) (tree (snd (?body m)))"
    by (rule merge_body_carries[OF assms(1) apart assms(2,3)])
  have after: "after = tree (snd (io_bind ?body (\<lambda>_. parent_cleanup env cleanup src dest) m))"
    using assms(6) move_directory_split[OF dest] by simp
  have kept: "look u q = Some e" if "carries src dest (tree m) u" "look (tree m) q = Some e" "\<not> prefix src q" for u q e
    using that unfolding carries_def carried_def by (metis option.discI prefix_def)
  have "well_formed after \<and> (\<forall>q e. look (tree (snd (?body m))) q = Some e \<longrightarrow> e \<noteq> Directory \<longrightarrow> look after q = Some e)"
    unfolding after using body
    by (cases rule: bind_tree_cases[of ?body m "\<lambda>_. parent_cleanup env cleanup src dest"])
      (auto simp: carries_def intro: parent_cleanup_tree)
  moreover have "look (tree (snd (?body m))) (src @ p) = Some (File c) \<or> look (tree (snd (?body m))) (dest @ p) = Some (File c)"
    if "look (tree m) (src @ p) = Some (File c)" for p c
    using body that unfolding carries_def carried_def by blast
  ultimately show ?thesis using kept[OF body] by blast
qed

text \<open>C15: a folder merge that may start runs to its end.  When the destination is there, the preflight
  passes and the system does what it is asked, the merge returns the destination, nothing is left
  at the source, and every file is at its place below the destination: the calls that the
  preflight's recursion needs are enough for the merge.\<close>

theorem preflighted_merge_completes:
  assumes "well_formed (tree m)" "honest_copies env" "collision_free env" "obliging env"
    and dest: "dest = destination_root @ destination_relative_parent env src ms st cid (Some []) @ [last src]"
    and apart: "src \<parallel> dest" and "occupied (tree m) dest"
    and pre: "fst (preflight_directory_merge env limit src dest m) = Inr ()"
    and res: "move_directory env limit src destination_root ms st cid cleanup m = (res, m')"
  shows "res = Inr dest \<and> (\<forall>p. look (tree m') (src @ p) = None) \<and>
    (\<forall>p c. look (tree m) (src @ p) = Some (File c) \<longrightarrow> look (tree m') (dest @ p) = Some (File c))"
proof -
  have p: "preflight_directory_merge env limit src dest m = (Inr (), m)"
    using pre preflight_passes[of env limit src dest m] by (cases "preflight_directory_merge env limit src dest m") auto
  then have "mergeable env (tree m) limit src dest" using preflight_passes by blast
  then obtain u where u: "merge_directory env limit src dest m = (Inr (), u)" "\<forall>p. look (tree u) (src @ p) = None"
    using merge_completes[OF assms(4,2,3) apart assms(1)] by blast
  have "carries src dest (tree m) (tree u)"
    using merge_directory_carries[OF assms(1) apart assms(2,3), of limit] u by simp
  then have c: "well_formed (tree u)" "look (tree u) (dest @ p) = Some (File c)" if "look (tree m) (src @ p) = Some (File c)" for p c
    using that u(2) unfolding carries_def carried_def by (metis option.distinct(1))+
  have "(res, m') = parent_cleanup env cleanup src dest u"
    using res u(1) p assms(7) by (simp add: move_directory_split[OF dest] io_bind_def)
  moreover have "well_formed (tree u)" using \<open>carries src dest (tree m) (tree u)\<close> by (simp add: carries_def)
  ultimately show ?thesis
    using c u(2) parent_cleanup_tree[of u, where env = env and cleanup = cleanup and src = src and dest = dest]
    by (metis entry.distinct(1) fst_conv snd_conv)
qed

lemma well_formed_check:
  assumes "list_all (\<lambda>(q, _). q = [] \<or> look t (butlast q) = Some Directory) t"
  shows "well_formed t"
proof -
  have "look t q = Some Directory" if n: "look t (q @ [n]) \<noteq> None" for q n
  proof -
    obtain e where "(q @ [n], e) \<in> set t" using n by (auto simp: look_def dest: map_of_SomeD)
    then show ?thesis using assms by (fastforce simp: list_all_iff)
  qed
  then show ?thesis by (simp add: well_formed_def)
qed

definition demo_disk :: disk where
  "demo_disk = \<lparr>sha256 = (\<lambda>c. c), renames = (\<lambda>_ _. True), copied = (\<lambda>_ c. Copied c), makes_dir = (\<lambda>_. True),
     removes = (\<lambda>_. True), resolved = (\<lambda>s. components s)\<rparr>"

text \<open>Another device: nothing can be renamed, and one file cannot be copied.\<close>

definition demo_other_device :: disk where
  "demo_other_device = demo_disk\<lparr>renames := \<lambda>_ _. False,
     copied := \<lambda>p c. if last p = ''x.mkv'' then Copy_Fails (Some []) else Copied c\<rparr>"

definition demo_store :: store where
  "demo_store = [([], Directory), ([''m''], Directory), ([''m'', ''a''], Directory), ([''m'', ''a'', ''x.mkv''], File ''v''),
     ([''m'', ''a'', ''n.nfo''], File ''n''), ([''d''], Directory), ([''d'', ''a''], Directory), ([''d'', ''a'', ''n.nfo''], File ''n'')]"

definition demo_mover :: "store \<Rightarrow> mover" where
  "demo_mover t = \<lparr>tree = t, moved_files = 0, deduplicated_files = 0\<rparr>"

lemma demo_store_ok: "well_formed (tree (demo_mover demo_store))"
  by (rule well_formed_check) code_simp

lemma demo_disks_ok:
  "honest_copies demo_disk" "collision_free demo_disk" "obliging demo_disk"
  "honest_copies demo_other_device" "collision_free demo_other_device"
  by (auto simp: demo_disk_def demo_other_device_def honest_copies_def collision_free_def obliging_def)

lemma demo_apart: "[''m'', ''a''] \<parallel> [''d'', ''a'']"
  by (simp add: parallel_def)

lemma demo_target: "[''d'', ''a''] = [''d''] @ destination_relative_parent env [''m'', ''a''] [] None None (Some []) @ [last [''m'', ''a'']]"
  by (simp add: destination_relative_parent_def mappings_by_local_def)

lemma move_directory_loses_nothing_witness:
  "let after = tree (snd (move_directory demo_other_device 9 [''m'', ''a''] [''d''] [] None None True (demo_mover demo_store)))
   in (look after [''m'', ''a'', ''x.mkv''] = Some (File ''v'') \<or> look after [''d'', ''a'', ''x.mkv''] = Some (File ''v'')) \<and>
      look after [''d'', ''a'', ''n.nfo''] = Some (File ''n'')"
proof -
  note l = move_directory_loses_nothing[OF demo_store_ok demo_disks_ok(4,5) demo_target demo_apart refl, where limit = 9 and cleanup = True]
  have s: "look (tree (demo_mover demo_store)) ([''m'', ''a''] @ [''x.mkv'']) = Some (File ''v'')"
    "look (tree (demo_mover demo_store)) [''d'', ''a'', ''n.nfo''] = Some (File ''n'')" by code_simp+
  show ?thesis
    using l[THEN conjunct2, THEN conjunct1, rule_format, OF s(1)]
      l[THEN conjunct2, THEN conjunct2, rule_format, OF s(2)] by (simp add: Let_def)
qed

lemma preflighted_merge_completes_witness:
  "let (res, m') = move_directory demo_disk 9 [''m'', ''a''] [''d''] [] None None True (demo_mover demo_store)
   in res = Inr [''d'', ''a''] \<and> look (tree m') [''m'', ''a'', ''x.mkv''] = None \<and>
      look (tree m') [''d'', ''a'', ''x.mkv''] = Some (File ''v'')"
proof -
  obtain res m' where r: "move_directory demo_disk 9 [''m'', ''a''] [''d''] [] None None True (demo_mover demo_store) = (res, m')"
    by force
  have o: "occupied (tree (demo_mover demo_store)) [''d'', ''a'']" by code_simp
  have p: "fst (preflight_directory_merge demo_disk 9 [''m'', ''a''] [''d'', ''a''] (demo_mover demo_store)) = Inr ()"
    by code_simp
  note l = preflighted_merge_completes[OF demo_store_ok demo_disks_ok(1,2,3) demo_target demo_apart o p r]
  have s: "look (tree (demo_mover demo_store)) ([''m'', ''a''] @ [''x.mkv'']) = Some (File ''v'')" by code_simp
  show ?thesis
    using l[THEN conjunct1] l[THEN conjunct2, THEN conjunct1, rule_format, of "[''x.mkv'']"]
      l[THEN conjunct2, THEN conjunct2, rule_format, OF s] by (simp add: r)
qed

section \<open>A destination that is the source\<close>

text \<open>C16: moving a file to where it is deletes it.  The destination exists and has the same content, so
  the source counts as a duplicate of it and is removed, and the move reports success.\<close>

theorem moving_onto_itself_deletes:
  assumes "well_formed (tree m)" "look (tree m) p = Some (File c)" "p \<noteq> []" "removes env p"
  shows "\<exists>m'. move_single_file_to_path env p p m = (Inr p, m') \<and> look (tree m') p = None"
proof -
  have "look (tree m) (butlast p @ [last p]) \<noteq> None" using assms(2,3) by simp
  then have "is_dir (tree m) (butlast p)" unfolding is_dir_def using below_directory[OF assms(1)] by blast
  then have "mkdirs env (butlast p) m = (Inr (), m)" using assms(1) by (rule mkdirs_noop[rotated])
  moreover have "occupied (tree m) p" "\<not> is_symlink (tree m) p" "is_file (tree m) p" "\<not> is_dir (tree m) p"
    using assms(2) by (simp_all add: occupied_iff is_symlink_def is_file_def content_def is_dir_def)
  ultimately show ?thesis
    using assms(2,4)
    by (simp add: move_single_file_to_path_def io_bind_def Let_def files_are_identical_def content_def
        unlink_def on_tree_def count_deduplicated_def io_return_def)
qed

lemma moving_onto_itself_deletes_witness:
  "\<exists>m'. move_single_file_to_path demo_disk [''m'', ''a'', ''x.mkv''] [''m'', ''a'', ''x.mkv''] (demo_mover demo_store) =
          (Inr [''m'', ''a'', ''x.mkv''], m') \<and> look (tree m') [''m'', ''a'', ''x.mkv''] = None"
proof -
  have "look (tree (demo_mover demo_store)) [''m'', ''a'', ''x.mkv''] = Some (File ''v'')" by code_simp
  from moving_onto_itself_deletes[OF demo_store_ok this, of demo_disk] show ?thesis by (simp add: demo_disk_def)
qed

text \<open>The same for a whole folder: a series whose library is the configured destination is emptied.\<close>

lemma moving_a_folder_onto_itself:
  "(case move_directory demo_disk 9 [''m'', ''a''] [''m''] [] None None False (demo_mover demo_store) of
      (res, m') \<Rightarrow> res = Inr [''m'', ''a''] \<and> deduplicated_files m' = 2 \<and> look (tree m') [''m'', ''a''] = None)"
  by code_simp

section \<open>A copy that stops halfway\<close>

text \<open>C17: a failed copy is final.  When the rename is refused and the copy stops after leaving part of the
  file, the part stays at the destination: however the system behaves later, moving the file again is
  refused because the destination has different content.\<close>

theorem failed_copy_blocks_retry:
  assumes "well_formed (tree m)" "src \<parallel> dest" "look (tree m) src = Some (File c)" "look (tree m) dest = None"
    and "is_dir (tree m) (butlast dest)" "\<not> renames env src dest" "copied env src c = Copy_Fails (Some part)"
    and "length part \<noteq> length c"
  shows "fst (move_single_file_to_path env src dest m) = Inl Os_Error \<and>
    (\<forall>env'. fst (move_single_file_to_path env' src dest (snd (move_single_file_to_path env src dest m))) =
       Inl (File_Exists src dest ''destination file has different content''))"
proof -
  let ?m = "m\<lparr>tree := put dest (File part) (tree m)\<rparr>"
  have first: "move_single_file_to_path env src dest m = (Inl Os_Error, ?m)"
    using assms mkdirs_noop[OF assms(1,5), of env]
    by (simp add: move_single_file_to_path_def io_bind_def occupied_iff io_catch_def os_rename_def io_raise_def
        copy_and_remove_def copy2_def content_def on_tree_def)
  have "carries src dest (tree m) (tree ?m)" using carries_put[OF assms(1,2,4,5)] by simp
  then have w: "well_formed (tree ?m)" by (simp add: carries_def)
  have "butlast dest \<noteq> dest" using parallel_not_Nil[OF assms(2)] by (cases dest rule: rev_cases) auto
  then have d: "is_dir (tree ?m) (butlast dest)" using assms(5) by (simp add: is_dir_def)
  have "fst (move_single_file_to_path env' src dest ?m) = Inl (File_Exists src dest ''destination file has different content'')" for env'
    using mkdirs_noop[OF w d, of env'] assms(3,8) paths_apart[OF assms(2)]
    by (simp add: move_single_file_to_path_def io_bind_def occupied_iff is_symlink_def is_file_def content_def
        files_are_identical_def io_return_def io_raise_def)
  with first show ?thesis by simp
qed

lemma failed_copy_blocks_retry_witness:
  "fst (move_single_file_to_path demo_other_device [''m'', ''a'', ''x.mkv''] [''d'', ''a'', ''x.mkv''] (demo_mover demo_store)) = Inl Os_Error"
  by (rule failed_copy_blocks_retry[where c = "''v''" and part = "[]", OF demo_store_ok, THEN conjunct1])
    ((code_simp | simp add: parallel_def)+)

section \<open>A media file and what goes with it\<close>

text \<open>No content disappears from the disk, and the files that the predicate selects stay where they are.\<close>

definition content_kept :: "(fpath \<Rightarrow> bool) \<Rightarrow> store \<Rightarrow> store \<Rightarrow> bool" where
  "content_kept stays t u \<longleftrightarrow> well_formed u \<and>
     (\<forall>q c. look t q = Some (File c) \<longrightarrow>
        (\<exists>q'. look u q' = Some (File c)) \<and> (stays q \<longrightarrow> look u q = Some (File c)))"

interpretation keeping: store_steps well_formed "content_kept stays" for stays
proof unfold_locales
  fix t u v assume "content_kept stays t u" "content_kept stays u v"
  then show "content_kept stays t v" unfolding content_kept_def by metis
qed (auto simp: content_kept_def)

lemma carries_content_kept:
  assumes "carries src dest t u" "\<And>q. stays q \<Longrightarrow> \<not> prefix src q"
  shows "content_kept stays t u"
proof -
  note c = assms(1)[unfolded carries_def carried_def]
  have "look u q = Some (File x)" if "\<not> prefix src q" "look t q = Some (File x)" for q x
    using c that by (metis option.distinct(1) prefix_def)
  moreover have "\<exists>q'. look u q' = Some (File x)" if "prefix src q" "look t q = Some (File x)" for q x
    using c that by (metis prefix_def)
  ultimately show ?thesis using c assms(2) unfolding content_kept_def by blast
qed

lemma remove_empty_keeps:
  "well_formed (tree m) \<Longrightarrow> content_kept stays (tree m) (tree (snd (remove_empty_directory env p m)))"
  using remove_empty_directory_tree(1,2)[of m] unfolding content_kept_def by (metis entry.distinct(1))

lemma move_single_keeps:
  assumes "well_formed (tree m)" "src \<parallel> dest_dir @ [last src]" "sized_copies env" "collision_free env"
    "\<And>q. stays q \<Longrightarrow> \<not> prefix src q"
  shows "content_kept stays (tree m) (tree (snd (move_single_file env src dest_dir m)))"
  unfolding move_single_file_def
  using assms by (intro carries_content_kept[OF move_single_carries]) auto

lemma move_logged_keeps:
  assumes "well_formed (tree m)" "src \<parallel> dest_dir @ [last src]" "sized_copies env" "collision_free env"
    "\<And>q. stays q \<Longrightarrow> \<not> prefix src q"
  shows "content_kept stays (tree m) (tree (snd (move_logged env dest_dir src m)))"
  unfolding move_logged_def
  by (intro keeping.catch_step keeping.bind_step move_single_keeps[OF assms]) (auto intro: keeping.step_refl)

lemma preflight_file_moves_unchanged [simp]: "tree (snd (preflight_file_moves env ms m)) = tree m"
  unfolding preflight_file_moves_def
proof (rule unchanged.each_step)
  fix x m show "tree (snd (preflight_file_move env x m)) = tree m"
    by (auto simp: preflight_file_move_def Let_def split: prod.splits intro!: unchanged.bind_step)
qed simp

lemma move_directory_keeps:
  assumes "well_formed (tree m)" "honest_copies env" "collision_free env"
    and "src \<parallel> destination_root @ destination_relative_parent env src ms st cid (Some []) @ [last src]"
    and "\<And>q. stays q \<Longrightarrow> \<not> prefix src q"
  shows "content_kept stays (tree m) (tree (snd (move_directory env limit src destination_root ms st cid cleanup m)))"
  using move_directory_loses_nothing[OF assms(1-3) refl assms(4) refl, of limit cleanup] assms(5)
  unfolding content_kept_def by (metis entry.distinct(1) prefix_def)


lemma move_files_keeps:
  assumes "well_formed (tree m)" "honest_copies env" "collision_free env"
    and "\<And>f. f \<in> set (src # siblings) \<Longrightarrow> f \<parallel> dest_dir @ [last f] \<and> (\<forall>q. stays q \<longrightarrow> \<not> prefix f q)"
  shows "content_kept stays (tree m) (tree (snd (
     io_bind (preflight_file_moves env moves) (\<lambda>_.
     io_bind (move_single_file env src dest_dir) (\<lambda>dest.
     io_bind (io_each (move_logged env dest_dir) siblings) (\<lambda>_.
     io_bind (remove_empty_directory env parent) (\<lambda>_. io_return dest)))) m)))"
  using assms honest_sized[OF assms(2)]
  by (intro keeping.bind_step keeping.each_step move_single_keeps move_logged_keeps remove_empty_keeps)
    (auto intro: keeping.step_refl keeping.return_step)

text \<open>C14: moving a media file loses nothing and leaves its neighbours alone.  Whatever the system does,
  the content of every file on the disk is still on the disk afterwards; everything outside the
  file's folder is untouched; and when the folder holds more than this one title, so that it is not
  moved as a whole, every other media file in it, such as another version or another episode, stays.
  The folder and the destination must not lie inside one another.\<close>

theorem move_media_keeps_neighbours:
  assumes "well_formed (tree m)" "honest_copies env" "collision_free env"
    and "src \<noteq> []" and apart: "butlast src \<parallel> destination_root"
    and "after = tree (snd (move_media env limit src destination_root ms st cid m))"
    and "look (tree m) q = Some (File c)"
  shows "(\<exists>q'. look after q' = Some (File c)) \<and>
    (\<not> prefix (butlast src) q \<or>
     \<not> fst (plan_media_move (tree m) src) \<and> butlast q = butlast src \<and> is_media_file (last q) \<and> q \<noteq> src
       \<longrightarrow> look after q = Some (File c))"
proof -
  define stays where "stays q \<longleftrightarrow> \<not> prefix (butlast src) q \<or>
     \<not> fst (plan_media_move (tree m) src) \<and> butlast q = butlast src \<and> is_media_file (last q) \<and> q \<noteq> src" for q
  have par: "butlast src @ a \<parallel> (destination_root @ b) @ e" for a b e
    using parallel_append[OF apart] by (metis append_assoc)
  have src: "src = butlast src @ [last src]" using assms(4) by simp
  have "content_kept stays (tree m) after"
  proof (cases "fst (plan_media_move (tree m) src)")
    case True
    have "butlast src \<parallel> destination_root @ r" for r using par[of "[]" r "[]"] by simp
    then have "content_kept stays (tree m) (tree (snd (move_directory env limit (butlast src) destination_root ms st cid False m)))"
      using True by (intro move_directory_keeps[OF assms(1-3)]) (auto simp: stays_def)
    then show ?thesis
      unfolding assms(6) move_media_def Let_def using True
      by (auto intro!: keeping.bind_step keeping.return_step)
  next
    case False
    have ne: "butlast src @ [n] \<noteq> q" if "stays q" "butlast src @ [n] = src \<or> \<not> is_media_file n" for n q
    proof
      assume eq: "butlast src @ [n] = q"
      then have "prefix (butlast src) q" "last q = n" by auto
      with that eq show False unfolding stays_def by metis
    qed
    have stay: "\<not> prefix (butlast src @ [n]) q" if s: "stays q" "butlast src @ [n] = src \<or> \<not> is_media_file n" for n q
    proof
      assume p: "prefix (butlast src @ [n]) q"
      then have "prefix (butlast src) q" by (rule append_prefixD)
      with s(1) have "butlast q = butlast src" "q \<noteq> []" using p by (auto simp: stays_def)
      then obtain y where "q = butlast src @ [y]" by (metis append_butlast_last_id)
      with p have "q = butlast src @ [n]" by simp
      with ne[OF s] show False by simp
    qed
    have sib: "\<not> is_media_file n" if "is_related_sidecar n st" for n st using that by (simp add: is_related_sidecar_def split: if_splits)
    show ?thesis
      unfolding assms(6) move_media_def Let_def if_not_P[OF False]
    proof (rule move_files_keeps[OF assms(1-3)], goal_cases)
      case (1 f)
      then obtain n where n: "f = butlast src @ [n]" "butlast src @ [n] = src \<or> \<not> is_media_file n"
        using src sib by (auto split: if_splits)
      have "f \<parallel> (destination_root @ d) @ [last f]" for d
        using par[of "[n]" d "[n]"] n(1) by simp
      then show ?case using stay n by blast
    qed
  qed
  then show ?thesis using assms(7) unfolding content_kept_def stays_def by blast
qed


text \<open>Two versions in one folder: the other one stays.\<close>

definition demo_versions :: store where
  "demo_versions = [([], Directory), ([''m''], Directory), ([''m'', ''a''], Directory), ([''m'', ''a'', ''x.mkv''], File ''v''),
     ([''m'', ''a'', ''x.nfo''], File ''n''), ([''m'', ''a'', ''y.mkv''], File ''w''), ([''d''], Directory)]"

lemma demo_versions_ok: "well_formed (tree (demo_mover demo_versions))"
  by (rule well_formed_check) code_simp

lemma move_media_keeps_neighbours_witness:
  "look (tree (snd (move_media demo_other_device 9 [''m'', ''a'', ''x.mkv''] [''d''] [] None None (demo_mover demo_versions))))
     [''m'', ''a'', ''y.mkv''] = Some (File ''w'')"
proof -
  have s: "look (tree (demo_mover demo_versions)) [''m'', ''a'', ''y.mkv''] = Some (File ''w'')" by code_simp
  have p: "\<not> fst (plan_media_move (tree (demo_mover demo_versions)) [''m'', ''a'', ''x.mkv''])"
    "is_media_file ''y.mkv''" by code_simp+
  show ?thesis
    by (rule move_media_keeps_neighbours[OF demo_versions_ok demo_disks_ok(4,5) _ _ refl s, THEN conjunct2, rule_format])
      (use p in \<open>simp_all add: parallel_def\<close>)
qed

end
