(* ===== verification/Live_Sessions.thy ===== *)
theory Live_Sessions
  imports Media
begin

text \<open>
  What a media server reports as playing: \<open>backend/models/live_playback.py\<close> and the parsers of
  \<open>backend/services/live_sessions.py\<close>.  A report that cannot be read is unavailable, never
  empty.  The lookup of an item's paths on its server is a parameter.
\<close>

section \<open>Sessions and snapshots\<close>

record live_session =
  session_item :: "string option"
  session_media :: "string option"
  session_paths :: "string list"
  session_parents :: "string list"

record playback_snapshot =
  snapshot_sessions :: "live_session list"
  available :: bool
  unavailable_reason :: "string option"

definition unavailable_snapshot :: playback_snapshot where
  "unavailable_snapshot = \<lparr>snapshot_sessions = [], available = False, unavailable_reason = None\<rparr>"

definition read_snapshot :: "live_session list option \<Rightarrow> playback_snapshot" where
  "read_snapshot r =
     (case r of None \<Rightarrow> unavailable_snapshot
      | Some ss \<Rightarrow> \<lparr>snapshot_sessions = ss, available = True, unavailable_reason = None\<rparr>)"

section \<open>Reading a report\<close>

text \<open>A loop that gives up at the first unreadable element.\<close>

fun read_all :: "('a \<Rightarrow> 'b list option result) \<Rightarrow> 'a list \<Rightarrow> 'b list option result" where
  "read_all f [] = Ok (Some [])"
| "read_all f (x # xs) =
     rbind (f x) (\<lambda>r. case r of
        None \<Rightarrow> Ok None
      | Some ys \<Rightarrow> rbind (read_all f xs) (\<lambda>r'. Ok (map_option ((@) ys) r')))"

definition read_id :: "pyval \<Rightarrow> string option" where
  "read_id v =
     (case v of
        PStr s \<Rightarrow> if py_strip s = [] then None else Some (py_strip s)
      | PInt i \<Rightarrow> Some (show_int i)
      | _ \<Rightarrow> None)"

text \<open>\<open>value == n\<close> for a value of a decoded report.\<close>

definition equals_int :: "pyval \<Rightarrow> int \<Rightarrow> bool" where
  "equals_int v n =
     (case v of PInt i \<Rightarrow> i = n | PBool b \<Rightarrow> of_bool b = n | PFloat (FFin q) \<Rightarrow> q = of_int n | _ \<Rightarrow> False)"

definition dicts :: "pyval list \<Rightarrow> pyval dict list" where
  "dicts vs = concat (map (\<lambda>v. case v of PDict d \<Rightarrow> [d] | _ \<Rightarrow> []) vs)"

definition non_empty_text :: "pyval \<Rightarrow> string list" where
  "non_empty_text v = (case v of PStr s \<Rightarrow> if s = [] then [] else [s] | _ \<Rightarrow> [])"

definition parents_of :: "runtime \<Rightarrow> string list \<Rightarrow> pyval dict \<Rightarrow> string list" where
  "parents_of rt keys d = map (\<lambda>k. py_str rt (dget d k)) (filter (\<lambda>k. read_id (dget d k) \<noteq> None) keys)"

definition plex_version :: "runtime \<Rightarrow> pyval dict \<Rightarrow> pyval dict \<Rightarrow> live_session list option result" where
  "plex_version rt row version =
     (case dget_or version ''Part'' (PList []) of
        PList parts \<Rightarrow>
          if list_ex (\<lambda>p. \<not> is_dict p) parts then Ok None
          else (let paths = concat (map (\<lambda>p. non_empty_text (dget p ''file'')) (dicts parts));
                    item = read_id (dget row ''ratingKey'')
                in if item = None \<and> paths = [] then Ok None
                   else Ok (Some [\<lparr>session_item = item, session_media = read_id (dget version ''id''),
                          session_paths = paths,
                          session_parents = parents_of rt [''parentRatingKey'', ''grandparentRatingKey''] row\<rparr>]))
      | _ \<Rightarrow> Ok None)"

definition plex_selected :: "pyval dict \<Rightarrow> bool" where
  "plex_selected m = (equals_int (dget m ''selected'') 1 \<or> dget m ''selected'' = PStr ''1'')"

text \<open>The versions a row may be playing: the selected ones, or all of them when none is marked.\<close>

definition playing_versions :: "pyval dict list \<Rightarrow> pyval dict list" where
  "playing_versions media =
     (let selected = filter plex_selected media
      in if selected \<noteq> [] then selected else if media \<noteq> [] then media else [[]])"

definition plex_row :: "runtime \<Rightarrow> pyval \<Rightarrow> live_session list option result" where
  "plex_row rt v =
     (case v of
        PDict row \<Rightarrow>
          if \<not> hashable (dget row ''type'') then Raise TypeError
          else if dget row ''type'' = PStr ''track'' \<or> dget row ''type'' = PStr ''photo'' then Ok (Some [])
          else (case dget_or row ''Media'' (PList []) of
                  PList media \<Rightarrow>
                    if list_ex (\<lambda>m. \<not> is_dict m) media then Ok None
                    else read_all (plex_version rt row) (playing_versions (dicts media))
                | _ \<Rightarrow> Ok None)
      | _ \<Rightarrow> Ok None)"

definition plex_sessions :: "runtime \<Rightarrow> pyval \<Rightarrow> playback_snapshot result" where
  "plex_sessions rt payload =
     (case payload of
        PDict outer \<Rightarrow>
          (case dget outer ''MediaContainer'' of
             PDict container \<Rightarrow>
               (case dget container ''Metadata'' of
                  PList rows \<Rightarrow>
                    if has_key ''size'' container \<and> \<not> equals_int (dget container ''size'') (int (length rows))
                    then Ok unavailable_snapshot
                    else rbind (read_all (plex_row rt) rows) (\<lambda>r. Ok (read_snapshot r))
                | PNone \<Rightarrow> if equals_int (dget container ''size'') 0 then Ok (read_snapshot (Some []))
                           else Ok unavailable_snapshot
                | _ \<Rightarrow> Ok unavailable_snapshot)
           | _ \<Rightarrow> Ok unavailable_snapshot)
      | _ \<Rightarrow> Ok unavailable_snapshot)"

text \<open>\<open>value or default\<close>\<close>

definition or_else :: "pyval \<Rightarrow> pyval \<Rightarrow> pyval" where
  "or_else v w = (if truthy v then v else w)"

definition emby_item :: "runtime \<Rightarrow> pyval dict \<Rightarrow> pyval dict \<Rightarrow> live_session list option result" where
  "emby_item rt row item =
     (if \<not> hashable (dget item ''Type'') then Raise TypeError
      else if dget item ''Type'' = PStr ''Audio'' \<or> dget item ''Type'' = PStr ''Photo'' then Ok (Some [])
      else case or_else (dget row ''PlayState'') (PDict []) of
        PDict play_state \<Rightarrow>
          (let media = read_id (dget play_state ''MediaSourceId'')
           in case or_else (dget item ''MediaSources'') (PList []) of
                PList sources \<Rightarrow>
                  if list_ex (\<lambda>s. \<not> is_dict s) sources then Ok None
                  else if dget play_state ''MediaSource'' \<noteq> PNone \<and> \<not> is_dict (dget play_state ''MediaSource'') then Ok None
                  else (let sources = (case dget play_state ''MediaSource'' of PDict s \<Rightarrow> [s] | _ \<Rightarrow> dicts sources);
                            selected = filter (\<lambda>s. media \<noteq> None \<and> read_id (dget s ''Id'') = media) sources;
                            paths = (case (media, dget item ''Path'') of
                                       (None, PStr p) \<Rightarrow> [p]
                                     | _ \<Rightarrow> concat (map (\<lambda>s. non_empty_text (dget s ''Path'')) selected));
                            item_id = read_id (dget item ''Id'')
                        in if item_id = None \<and> paths = [] then Ok None
                           else Ok (Some [\<lparr>session_item = item_id, session_media = media, session_paths = paths,
                                  session_parents = parents_of rt [''ParentId'', ''SeasonId'', ''SeriesId''] item\<rparr>]))
              | _ \<Rightarrow> Ok None)
      | _ \<Rightarrow> Ok None)"

definition emby_row :: "runtime \<Rightarrow> pyval \<Rightarrow> live_session list option result" where
  "emby_row rt v =
     (case v of
        PDict row \<Rightarrow>
          (case dget row ''NowPlayingItem'' of
             PNone \<Rightarrow> Ok (Some [])
           | PDict item \<Rightarrow> emby_item rt row item
           | _ \<Rightarrow> Ok None)
      | _ \<Rightarrow> Ok None)"

definition emby_sessions :: "runtime \<Rightarrow> pyval \<Rightarrow> playback_snapshot result" where
  "emby_sessions rt payload =
     (case payload of
        PList rows \<Rightarrow> rbind (read_all (emby_row rt) rows) (\<lambda>r. Ok (read_snapshot r))
      | _ \<Rightarrow> Ok unavailable_snapshot)"

section \<open>Completing the paths\<close>

text \<open>
  One session without paths is looked up; the lookup gives paths or the reason it failed.  The
  session is kept in any case, and a failure makes the snapshot unavailable.
\<close>

definition resolve_session ::
  "(string \<Rightarrow> string option \<Rightarrow> string + string list) \<Rightarrow> live_session \<Rightarrow> live_session \<times> string option" where
  "resolve_session lookup s =
     (if session_paths s \<noteq> [] then (s, None)
      else case session_item s of
        None \<Rightarrow> (s, Some ''session has no media identity'')
      | Some i \<Rightarrow>
          (case lookup i (session_media s) of
             Inl failure \<Rightarrow> (s, Some (''session path lookup failed; '' @ failure))
           | Inr [] \<Rightarrow> (s, Some ''session path lookup returned no paths'')
           | Inr paths \<Rightarrow> (s\<lparr>session_paths := paths\<rparr>, None)))"

definition last_reason :: "string option list \<Rightarrow> string option" where
  "last_reason rs = (let known = filter (\<lambda>r. r \<noteq> None) rs in if known = [] then None else last known)"

definition resolve_session_paths ::
  "(string \<Rightarrow> string option \<Rightarrow> string + string list) \<Rightarrow> playback_snapshot \<Rightarrow> playback_snapshot" where
  "resolve_session_paths lookup snapshot =
     (if \<not> available snapshot then snapshot
      else let found = map (resolve_session lookup) (snapshot_sessions snapshot);
               reason = last_reason (map snd found)
           in \<lparr>snapshot_sessions = map fst found, available = (reason = None), unavailable_reason = reason\<rparr>)"

section \<open>Nothing that plays is dropped\<close>

lemma read_all_Some:
  "read_all f xs = Ok (Some zs) \<Longrightarrow> x \<in> set xs \<Longrightarrow> \<exists>ys. f x = Ok (Some ys) \<and> set ys \<subseteq> set zs"
proof (induction xs arbitrary: zs)
  case (Cons y ys)
  from Cons.prems(1) obtain a b where y: "f y = Ok (Some a)" "read_all f ys = Ok (Some b)" "zs = a @ b"
    by (auto simp: rbind_Ok_iff split: option.splits)
  show ?case
  proof (cases "x = y")
    case False
    with Cons.prems(2) have "x \<in> set ys" by simp
    from Cons.IH[OF y(2) this] show ?thesis using y(3) by auto
  qed (use y in auto)
qed simp

lemma read_all_sessions:
  "read_all f xs = Ok (Some zs) \<Longrightarrow> z \<in> set zs \<Longrightarrow> \<exists>x \<in> set xs. \<exists>ys. f x = Ok (Some ys) \<and> z \<in> set ys"
proof (induction xs arbitrary: zs)
  case (Cons y ys)
  from Cons.prems(1) obtain a b where "f y = Ok (Some a)" "read_all f ys = Ok (Some b)" "zs = a @ b"
    by (auto simp: rbind_Ok_iff split: option.splits)
  with Cons.IH[of b] Cons.prems(2) show ?case by auto
qed simp

lemma set_dicts: "d \<in> set (dicts vs) \<longleftrightarrow> PDict d \<in> set vs"
  by (auto simp: dicts_def split: pyval.splits)

definition named :: "live_session \<Rightarrow> bool" where
  "named s \<longleftrightarrow> session_item s \<noteq> None \<or> session_paths s \<noteq> []"

lemma plex_version_named: "plex_version rt row v = Ok (Some ss) \<Longrightarrow> s \<in> set ss \<Longrightarrow> named s"
  by (auto simp: plex_version_def named_def Let_def split: pyval.splits if_splits)

lemma plex_row_named: "plex_row rt v = Ok (Some ss) \<Longrightarrow> s \<in> set ss \<Longrightarrow> named s"
  by (auto simp: plex_row_def split: pyval.splits if_splits dest!: read_all_sessions plex_version_named)

lemma emby_row_named: "emby_row rt v = Ok (Some ss) \<Longrightarrow> s \<in> set ss \<Longrightarrow> named s"
  by (auto simp: emby_row_def emby_item_def named_def Let_def split: pyval.splits if_splits)

lemma read_available: "available (read_snapshot r) \<Longrightarrow> r = Some (snapshot_sessions (read_snapshot r))"
  by (auto simp: read_snapshot_def unavailable_snapshot_def split: option.splits)

lemma plex_available:
  assumes "plex_sessions rt payload = Ok snap" "available snap" "snapshot_sessions snap \<noteq> []"
  shows "\<exists>outer container rows. payload = PDict outer \<and> dget outer ''MediaContainer'' = PDict container \<and>
    dget container ''Metadata'' = PList rows \<and> read_all (plex_row rt) rows = Ok (Some (snapshot_sessions snap))"
  using assms
  by (auto simp: plex_sessions_def rbind_Ok_iff unavailable_snapshot_def split: pyval.splits if_splits
      dest: read_available)


lemma plex_report:
  assumes "plex_sessions rt (PDict outer) = Ok snap" "available snap"
    and "dget outer ''MediaContainer'' = PDict container" "dget container ''Metadata'' = PList rows"
  shows "read_all (plex_row rt) rows = Ok (Some (snapshot_sessions snap))"
  using assms by (auto simp: plex_sessions_def rbind_Ok_iff unavailable_snapshot_def split: if_splits dest: read_available)

lemma playing_version_read:
  assumes "read_all (plex_version rt row) (playing_versions (dicts media)) = Ok (Some ys)"
    and "PDict m \<in> set media" "plex_selected m \<or> \<not> (\<exists>m'. PDict m' \<in> set media \<and> plex_selected m')"
  shows "\<exists>ss. plex_version rt row m = Ok (Some ss) \<and> set ss \<subseteq> set ys"
proof -
  have d: "m \<in> set (dicts media)" using assms(2) by (simp add: set_dicts)
  have "m \<in> set (playing_versions (dicts media))"
  proof (cases "filter plex_selected (dicts media) = []")
    case True
    then have "dicts media \<noteq> []" using d by auto
    with True d show ?thesis by (simp add: playing_versions_def)
  next
    case False
    then have "\<exists>m'. PDict m' \<in> set media \<and> plex_selected m'" by (auto simp: filter_empty_conv set_dicts)
    with assms(3) d False show ?thesis by (simp add: playing_versions_def)
  qed
  from read_all_Some[OF assms(1) this] show ?thesis .
qed

lemma plex_version_session:
  assumes "plex_version rt row m = Ok (Some ss)" "dget_or m ''Part'' (PList []) = PList parts"
  shows "\<exists>s \<in> set ss. session_item s = read_id (dget row ''ratingKey'') \<and>
    session_paths s = concat (map (\<lambda>p. non_empty_text (dget p ''file'')) (dicts parts))"
  using assms by (cases "list_ex (\<lambda>p. \<not> is_dict p) parts") (auto simp: plex_version_def Let_def split: if_splits)

text \<open>A file that Plex may be playing is never left out of a report that counts.  When the report
  is available, every session in it names an item or a path; and for each video row, each file of a version
  that is marked as selected, or of any version when none is, is among the paths of a session
  that carries the row's item.\<close>

theorem plex_playing_is_reported:
  assumes "plex_sessions rt (PDict outer) = Ok snap" "available snap"
    and "dget outer ''MediaContainer'' = PDict container" "dget container ''Metadata'' = PList rows"
    and "PDict row \<in> set rows" "dget row ''type'' \<noteq> PStr ''track''" "dget row ''type'' \<noteq> PStr ''photo''"
    and "dget row ''Media'' = PList media" "PDict m \<in> set media"
    and "plex_selected m \<or> \<not> (\<exists>m'. PDict m' \<in> set media \<and> plex_selected m')"
    and "dget m ''Part'' = PList parts" "PDict part \<in> set parts" "dget part ''file'' = PStr p" "p \<noteq> []"
  shows "(\<exists>s \<in> set (snapshot_sessions snap). p \<in> set (session_paths s) \<and> session_item s = read_id (dget row ''ratingKey'')) \<and>
    (\<forall>s \<in> set (snapshot_sessions snap). named s)"
proof -
  note r = plex_report[OF assms(1-4)]
  have named: "named s" if "s \<in> set (snapshot_sessions snap)" for s
    using read_all_sessions[OF r that] plex_row_named by blast
  obtain ys where ys: "plex_row rt (PDict row) = Ok (Some ys)" "set ys \<subseteq> set (snapshot_sessions snap)"
    using read_all_Some[OF r assms(5)] by blast
  have media: "dget_or row ''Media'' (PList []) = PList media" and parts: "dget_or m ''Part'' (PList []) = PList parts"
    using assms(8,11) by (auto simp: dget_def dget_or_def split: option.splits)
  have "read_all (plex_version rt row) (playing_versions (dicts media)) = Ok (Some ys)"
    using ys(1) assms(6,7) media by (auto simp: plex_row_def split: if_splits)
  then obtain ss where ss: "plex_version rt row m = Ok (Some ss)" "set ss \<subseteq> set ys"
    using playing_version_read assms(9,10) by blast
  then obtain s where s: "s \<in> set ss" "session_item s = read_id (dget row ''ratingKey'')"
      "session_paths s = concat (map (\<lambda>p. non_empty_text (dget p ''file'')) (dicts parts))"
    using plex_version_session[of rt row m ss parts] parts by blast
  have "p \<in> set (non_empty_text (dget part ''file''))" using assms(13,14) by (simp add: non_empty_text_def)
  moreover have "part \<in> set (dicts parts)" using assms(12) by (simp add: set_dicts)
  ultimately have "p \<in> set (session_paths s)" unfolding s(3) by auto
  with named ys(2) ss(2) s(1,2) show ?thesis by blast
qed

definition demo_part :: "pyval dict" where
  "demo_part = [(''file'', PStr ''/m/a.mkv'')]"

definition demo_plex_version :: "pyval dict" where
  "demo_plex_version = [(''id'', PInt 7), (''Part'', PList [PDict demo_part])]"

definition demo_plex_row :: "pyval dict" where
  "demo_plex_row = [(''type'', PStr ''movie''), (''ratingKey'', PStr ''12''), (''Media'', PList [PDict demo_plex_version])]"

definition demo_container :: "pyval dict" where
  "demo_container = [(''size'', PInt 1), (''Metadata'', PList [PDict demo_plex_row])]"

definition demo_report :: "pyval dict" where
  "demo_report = [(''MediaContainer'', PDict demo_container)]"

lemma plex_playing_is_reported_witness:
  "\<exists>snap. plex_sessions demo_runtime (PDict demo_report) = Ok snap \<and>
     (\<exists>s \<in> set (snapshot_sessions snap). ''/m/a.mkv'' \<in> set (session_paths s) \<and> session_item s = Some ''12'')"
proof -
  note defs = demo_report_def demo_container_def demo_plex_row_def demo_plex_version_def demo_part_def
  obtain snap where s: "plex_sessions demo_runtime (PDict demo_report) = Ok snap" "available snap"
  proof -
    have "(case plex_sessions demo_runtime (PDict demo_report) of Ok snap \<Rightarrow> available snap | Raise _ \<Rightarrow> False)" by code_simp
    then show ?thesis using that by (auto split: result.splits)
  qed
  have m: "read_id (dget demo_plex_row ''ratingKey'') = Some ''12''" by code_simp
  have "\<exists>s \<in> set (snapshot_sessions snap). ''/m/a.mkv'' \<in> set (session_paths s) \<and> session_item s = read_id (dget demo_plex_row ''ratingKey'')"
    by (rule plex_playing_is_reported[OF s, of demo_container "[PDict demo_plex_row]" demo_plex_row "[PDict demo_plex_version]" demo_plex_version
          "[PDict demo_part]" demo_part, THEN conjunct1])
      (simp_all add: defs dict_simps plex_selected_def equals_int_def)
  with s m show ?thesis by auto
qed

section \<open>Completed sessions\<close>

lemma resolve_session_keeps:
  "session_item (fst (resolve_session lookup s)) = session_item s \<and>
   session_media (fst (resolve_session lookup s)) = session_media s \<and>
   set (session_paths s) \<subseteq> set (session_paths (fst (resolve_session lookup s))) \<and>
   (snd (resolve_session lookup s) = None \<longrightarrow> session_paths (fst (resolve_session lookup s)) \<noteq> [])"
  by (auto simp: resolve_session_def split: option.splits sum.splits list.splits)

lemma last_reason_None: "last_reason rs = None \<longleftrightarrow> (\<forall>r \<in> set rs. r = None)"
proof (cases "filter (\<lambda>r. r \<noteq> None) rs = []")
  case True
  then show ?thesis by (simp add: last_reason_def filter_empty_conv)
next
  case False
  then have "last (filter (\<lambda>r. r \<noteq> None) rs) \<in> set (filter (\<lambda>r. r \<noteq> None) rs)" by (rule last_in_set)
  with False show ?thesis by (auto simp: last_reason_def)
qed

lemma resolved_sessions_have_paths:
  "available (resolve_session_paths lookup snap) \<Longrightarrow> s \<in> set (snapshot_sessions (resolve_session_paths lookup snap)) \<Longrightarrow>
   session_paths s \<noteq> []"
  by (auto simp: resolve_session_paths_def Let_def last_reason_None resolve_session_keeps split: if_splits)

end
