(* ===== verification/Playback_Guard.thy ===== *)
theory Playback_Guard
  imports Live_Sessions File_Moves
begin

text \<open>
  The guard that keeps media from being deleted or moved while it is played
  (\<open>backend/services/playback_guard.py\<close>): targets, snapshots of what the servers play and their
  age, the comparison of a session with a target, and the checks before each side effect.  The
  clock and the answers of the servers are parameters, and so is the disk for what expands a
  target on it; its paths are absolute.
\<close>

section \<open>Targets and the guard\<close>

text \<open>A path as a server or the disk knows it, with its service and configuration, and whether it is a directory.\<close>

type_synonym target_path = "string \<times> service option \<times> int option \<times> bool"

record playback_target =
  target_paths :: "target_path list"
  target_identities :: "(int \<times> string \<times> string option) set"
  target_parents :: "(int \<times> string) set"
  relevant_configs :: "int set"

definition empty_target :: playback_target where
  "empty_target = \<lparr>target_paths = [], target_identities = {}, target_parents = {}, relevant_configs = {}\<rparr>"

definition extend_target :: "playback_target \<Rightarrow> playback_target \<Rightarrow> playback_target" where
  "extend_target target other =
     \<lparr>target_paths = target_paths target @ target_paths other,
      target_identities = target_identities target \<union> target_identities other,
      target_parents = target_parents target \<union> target_parents other,
      relevant_configs = relevant_configs target \<union> relevant_configs other\<rparr>"

definition add_paths :: "target_path list \<Rightarrow> playback_target \<Rightarrow> playback_target" where
  "add_paths ps target = target\<lparr>target_paths := target_paths target @ ps\<rparr>"

record playback_guard =
  guard_enabled :: bool
  guard_mappings :: "path_mapping list"
  guard_configs :: "(int \<times> service) list"
  guard_snapshots :: "(int \<times> int \<times> playback_snapshot) list"
  defer_when_unavailable :: bool

text \<open>The settings row: both protections, and the mappings; without a row everything is protected.\<close>

definition load_guard :: "(bool \<times> bool \<times> path_mapping list) option \<Rightarrow> (int \<times> service \<times> bool) list \<Rightarrow> playback_guard" where
  "load_guard settings configs =
     \<lparr>guard_enabled = (case settings of None \<Rightarrow> True | Some (e, u, ms) \<Rightarrow> e),
      guard_mappings = (case settings of None \<Rightarrow> [] | Some (e, u, ms) \<Rightarrow> ms),
      guard_configs = dupdate [] (map (\<lambda>(i, s, e). (i, s)) (filter (\<lambda>(i, s, e). e \<and> List.member [JELLYFIN, EMBY, PLEX] s) configs)),
      guard_snapshots = [],
      defer_when_unavailable = (case settings of None \<Rightarrow> True | Some (e, u, ms) \<Rightarrow> u)\<rparr>"

section \<open>Snapshots\<close>

text \<open>In microseconds.\<close>

definition max_snapshot_age :: int where
  "max_snapshot_age = 30000000"

datatype fetched = No_Client | Fetch_Failed | Not_A_Snapshot | Fetched playback_snapshot

definition fetched_snapshot :: "fetched \<Rightarrow> playback_snapshot" where
  "fetched_snapshot f = (case f of Fetched s \<Rightarrow> s | _ \<Rightarrow> unavailable_snapshot)"

definition current_snapshot ::
  "(int \<Rightarrow> int) \<Rightarrow> (int \<Rightarrow> fetched) \<Rightarrow> playback_guard \<Rightarrow> int \<Rightarrow> playback_snapshot \<times> playback_guard" where
  "current_snapshot clock fetch g cid =
     (let fresh = fetched_snapshot (fetch cid);
          fetched = (fresh, g\<lparr>guard_snapshots := dput cid (clock cid, fresh) (guard_snapshots g)\<rparr>)
      in case map_of (guard_snapshots g) cid of
           Some (taken, s) \<Rightarrow> if clock cid - taken < max_snapshot_age then (s, g) else fetched
         | None \<Rightarrow> fetched)"

fun gather_snapshots ::
  "(int \<Rightarrow> int) \<Rightarrow> (int \<Rightarrow> fetched) \<Rightarrow> playback_guard \<Rightarrow> (int \<times> service) list \<Rightarrow>
   (int \<times> service \<times> playback_snapshot) list \<times> playback_guard" where
  "gather_snapshots clock fetch g [] = ([], g)"
| "gather_snapshots clock fetch g ((cid, s) # configs) =
     (let (snapshot, g') = current_snapshot clock fetch g cid;
          (rest, g'') = gather_snapshots clock fetch g' configs
      in ((cid, s, snapshot) # rest, g''))"

section \<open>Comparing a session with a target\<close>

definition variants :: "playback_guard \<Rightarrow> string \<Rightarrow> service option \<Rightarrow> int option \<Rightarrow> string set" where
  "variants g path serv cid =
     mapped_path_variants (Some path) (guard_mappings g) (map_option service_value serv) cid"

definition path_hit :: "bool \<Rightarrow> string \<Rightarrow> string \<Rightarrow> bool" where
  "path_hit directory p v \<longleftrightarrow> p = v \<or> directory \<and> starts_with (v @ ''/'') p"

definition session_variants :: "playback_guard \<Rightarrow> int \<Rightarrow> service \<Rightarrow> live_session \<Rightarrow> string set" where
  "session_variants g cid serv session = (\<Union>raw \<in> set (session_paths session). variants g raw (Some serv) (Some cid))"

text \<open>Whether a mapping applies to a path: it has a variant besides itself.\<close>

definition is_mapped :: "playback_guard \<Rightarrow> string \<Rightarrow> service option \<Rightarrow> int option \<Rightarrow> bool" where
  "is_mapped g raw serv cid \<longleftrightarrow> (\<exists>p \<in> variants g raw serv cid. p \<noteq> normalize_fpath True False raw)"

definition matches_session :: "playback_guard \<Rightarrow> playback_target \<Rightarrow> int \<Rightarrow> service \<Rightarrow> live_session \<Rightarrow> bool" where
  "matches_session g target config_id serv session =
     (let paths = session_variants g config_id serv session;
          session_mapped = map (\<lambda>raw. is_mapped g raw (Some serv) (Some config_id)) (session_paths session);
          target_mapped = map (\<lambda>(raw, s, cid, d). s = None \<or> is_mapped g raw s cid) (target_paths target)
      in if list_ex (\<lambda>(raw, s, cid, directory). \<exists>v \<in> variants g raw s cid. \<exists>p \<in> paths. path_hit directory p v) (target_paths target)
         then True
         else if session_mapped \<noteq> [] \<and> list_all id session_mapped \<and> target_mapped \<noteq> [] \<and> list_all id target_mapped \<and>
                 list_all (\<lambda>(raw, s, cid, d). cid \<noteq> Some config_id) (target_paths target)
         then False
         else if list_ex (\<lambda>parent. (config_id, parent) \<in> target_parents target) (session_parents session) then True
         else (\<exists>(cid, item, version) \<in> target_identities target.
                 cid = config_id \<and> Some item = session_item session \<and>
                 (version = None \<or> session_media session = None \<or> version = session_media session)))"

section \<open>Checks\<close>

datatype deferral_code = Currently_Playing | Playback_Unavailable

record deferral =
  deferral_code :: deferral_code
  deferral_configs :: "int list"
  deferral_steps :: "string list"

text \<open>The servers a mapping root under which a target's path lies belongs to.\<close>

definition mapping_configs :: "playback_guard \<Rightarrow> playback_target \<Rightarrow> path_mapping \<Rightarrow> int list" where
  "mapping_configs g target m =
     (let prefix_root = normalize_fpath True False (local_prefix m)
      in if prefix_root = [] \<or>
            \<not> list_ex (\<lambda>(raw, s, cid, d). \<exists>p \<in> variants g raw s cid. at_or_below p prefix_root) (target_paths target)
         then []
         else map fst (filter (\<lambda>(cid, s). map_service_config_id m = Some cid \<or>
                no_id (map_service_config_id m) \<and> map_service_type m = Some (service_value s)) (guard_configs g)))"

definition relevant_to :: "playback_guard \<Rightarrow> playback_target \<Rightarrow> int set" where
  "relevant_to g target =
     (let relevant = relevant_configs target \<union> set (concat (map (mapping_configs g target) (guard_mappings g)))
      in if relevant = {} then set (map fst (guard_configs g)) else relevant)"

definition check_target ::
  "(int \<Rightarrow> int) \<Rightarrow> (int \<Rightarrow> fetched) \<Rightarrow> playback_guard \<Rightarrow> playback_target \<Rightarrow> deferral option \<times> playback_guard" where
  "check_target clock fetch g target =
     (if \<not> guard_enabled g \<or> guard_configs g = [] then (None, g)
      else let (snapshots, g') = gather_snapshots clock fetch g (guard_configs g);
               relevant = relevant_to g target;
               playing = map fst (filter (\<lambda>(cid, s, snap). list_ex (matches_session g target cid s) (snapshot_sessions snap)) snapshots);
               unavailable = map fst (filter (\<lambda>(cid, s, snap). cid \<in> relevant \<and>
                   (\<not> available snap \<or>
                    list_ex (\<lambda>x. session_paths x = [] \<and> (session_item x = None \<or> session_item x = Some [])) (snapshot_sessions snap)))
                   snapshots)
           in (if playing \<noteq> [] \<or> unavailable \<noteq> [] \<and> defer_when_unavailable g
               then Some \<lparr>deferral_code = (if playing \<noteq> [] then Currently_Playing else Playback_Unavailable),
                          deferral_configs = (if playing \<noteq> [] then playing else unavailable), deferral_steps = []\<rparr>
               else None, g'))"

section \<open>Expanding a target on the disk\<close>

definition path_text :: "fpath \<Rightarrow> string" where
  "path_text p = ''/'' @ join ''/'' p"

definition same_stem_paths :: "store \<Rightarrow> fpath \<Rightarrow> target_path list" where
  "same_stem_paths t local =
     map (\<lambda>n. (path_text (butlast local @ [n]), None, None, False))
       (filter (\<lambda>n. is_file t (butlast local @ [n]) \<and> path_stem n = path_stem (last local)) (listing t (butlast local)))"

text \<open>What one path of the target adds; nothing when its folder cannot be listed, which \<open>can_list\<close> decides.\<close>

definition local_additions ::
  "disk \<Rightarrow> store \<Rightarrow> (fpath \<Rightarrow> bool) \<Rightarrow> playback_guard \<Rightarrow> bool \<Rightarrow> target_path \<Rightarrow> target_path list option" where
  "local_additions env t can_list g moving tp =
     (let (path, serv, cid, directory) = tp
      in if directory then Some []
         else case resolve_path (\<lambda>p. path_exists t (local_fpath env p)) (Some path) (guard_mappings g) (map_option service_value serv) cid of
                None \<Rightarrow> Some []
              | Some found \<Rightarrow>
                  (let local = local_fpath env found
                   in if \<not> is_file t local then Some []
                      else if moving then (let (source, is_directory) = media_move_source_scope t local
                                           in Some [(path_text source, None, None, is_directory)])
                      else if can_list (butlast local) then Some (same_stem_paths t local) else None))"

fun expansions :: "(target_path \<Rightarrow> target_path list option) \<Rightarrow> target_path list \<Rightarrow> target_path list \<times> bool" where
  "expansions f [] = ([], True)"
| "expansions f (tp # tps) =
     (case f tp of None \<Rightarrow> ([], False) | Some ps \<Rightarrow> (let (rest, ok) = expansions f tps in (ps @ rest, ok)))"

definition expand_local_target ::
  "disk \<Rightarrow> store \<Rightarrow> (fpath \<Rightarrow> bool) \<Rightarrow> playback_guard \<Rightarrow> bool \<Rightarrow> playback_target \<Rightarrow> deferral + playback_target" where
  "expand_local_target env t can_list g moving target =
     (if \<not> guard_enabled g then Inr target
      else let (additions, ok) = expansions (local_additions env t can_list g moving) (target_paths target)
           in if ok \<or> \<not> defer_when_unavailable g then Inr (add_paths (uniq additions) target)
              else Inl \<lparr>deferral_code = Playback_Unavailable,
                        deferral_configs = sorted_list_of_set (relevant_configs target), deferral_steps = []\<rparr>)"

section \<open>Operations and their checkpoints\<close>

record playback_operation =
  op_guard :: playback_guard
  op_target :: playback_target
  completed_steps :: "string list"

definition checkpoint_paths ::
  "disk \<Rightarrow> store \<Rightarrow> string option \<Rightarrow> service option \<Rightarrow> int option \<Rightarrow> bool \<Rightarrow> bool \<Rightarrow> bool \<Rightarrow> target_path list" where
  "checkpoint_paths env t path serv cid directory siblings media_move =
     (case path of
        None \<Rightarrow> []
      | Some raw \<Rightarrow>
          if raw = [] then []
          else let (p, directory) = (if media_move
                                     then (let (source, d) = media_move_source_scope t (resolved env raw) in (path_text source, d))
                                     else (raw, directory));
                   local = resolved env p
               in (p, serv, cid, directory) #
                  (if siblings \<and> is_dir t (butlast local) then same_stem_paths t local else []))"

definition playback_checkpoint ::
  "(int \<Rightarrow> int) \<Rightarrow> (int \<Rightarrow> fetched) \<Rightarrow> target_path list \<Rightarrow> playback_operation \<Rightarrow> deferral option \<times> playback_operation" where
  "playback_checkpoint clock fetch paths op =
     (let target = add_paths paths (op_target op);
          (d, g) = check_target clock fetch (op_guard op) target
      in (map_option (deferral_steps_update (\<lambda>_. completed_steps op)) d, op\<lparr>op_target := target, op_guard := g\<rparr>))"

definition playback_step_completed :: "string \<Rightarrow> playback_operation \<Rightarrow> playback_operation" where
  "playback_step_completed description op = op\<lparr>completed_steps := completed_steps op @ [description]\<rparr>"

section \<open>What a passed check means\<close>

lemma gather_snapshots_configs:
  "map (\<lambda>(cid, s, snap). (cid, s)) (fst (gather_snapshots clock fetch g configs)) = configs"
  by (induction configs arbitrary: g) (auto split: prod.splits, metis fst_conv)

text \<open>A snapshot used now was taken less than thirty seconds ago, and is the one kept.\<close>

definition recent :: "(int \<Rightarrow> int) \<Rightarrow> playback_guard \<Rightarrow> int \<Rightarrow> playback_snapshot \<Rightarrow> bool" where
  "recent clock g cid snap \<longleftrightarrow>
     (\<exists>taken. map_of (guard_snapshots g) cid = Some (taken, snap) \<and> clock cid - taken < max_snapshot_age)"

lemma current_snapshot_recent:
  "current_snapshot clock fetch g cid = (snap, g') \<Longrightarrow> recent clock g' cid snap"
  by (auto simp: current_snapshot_def recent_def Let_def dict_simps max_snapshot_age_def split: option.splits if_splits prod.splits)

lemma current_snapshot_frame:
  "current_snapshot clock fetch g cid = (snap, g') \<Longrightarrow>
   guard_enabled g' = guard_enabled g \<and> guard_mappings g' = guard_mappings g \<and> guard_configs g' = guard_configs g \<and>
   defer_when_unavailable g' = defer_when_unavailable g"
  by (auto simp: current_snapshot_def Let_def split: option.splits if_splits prod.splits)

lemma current_snapshot_keeps:
  "current_snapshot clock fetch g cid = (snap, g') \<Longrightarrow> recent clock g c s \<Longrightarrow> recent clock g' c s"
  by (auto simp: current_snapshot_def recent_def Let_def dict_simps split: option.splits if_splits prod.splits)

lemma gather_snapshots_frame:
  "gather_snapshots clock fetch g configs = (ss, g') \<Longrightarrow>
   guard_enabled g' = guard_enabled g \<and> guard_mappings g' = guard_mappings g \<and> guard_configs g' = guard_configs g \<and>
   defer_when_unavailable g' = defer_when_unavailable g"
  by (induction configs arbitrary: g ss g') (auto split: prod.splits dest!: current_snapshot_frame)

lemma gather_snapshots_keeps:
  "gather_snapshots clock fetch g configs = (ss, g') \<Longrightarrow> recent clock g c s \<Longrightarrow> recent clock g' c s"
  by (induction configs arbitrary: g ss g') (auto split: prod.splits, blast dest: current_snapshot_keeps)

lemma gather_snapshots_recent:
  "gather_snapshots clock fetch g configs = (ss, g') \<Longrightarrow> (cid, s, snap) \<in> set ss \<Longrightarrow> recent clock g' cid snap"
proof (induction configs arbitrary: g ss g')
  case (Cons c configs)
  obtain i s' where c: "c = (i, s')" by force
  obtain sn g1 where s1: "current_snapshot clock fetch g i = (sn, g1)" by force
  obtain rest g2 where s2: "gather_snapshots clock fetch g1 configs = (rest, g2)" by force
  with Cons.prems c s1 have "ss = (i, s', sn) # rest" "g' = g2" by auto
  with Cons.prems(2) Cons.IH[OF s2] gather_snapshots_keeps[OF s2 current_snapshot_recent[OF s1]] show ?case by auto
qed simp

lemma variants_cong: "guard_mappings g' = guard_mappings g \<Longrightarrow> variants g' = variants g"
  by (intro ext) (simp add: variants_def)

lemma check_target_frame:
  "check_target clock fetch g target = (d, g') \<Longrightarrow>
   guard_enabled g' = guard_enabled g \<and> guard_mappings g' = guard_mappings g \<and> guard_configs g' = guard_configs g \<and>
   defer_when_unavailable g' = defer_when_unavailable g"
  using gather_snapshots_frame
  by (auto simp: check_target_def Let_def split: if_splits prod.splits)

lemma check_target_snapshots:
  assumes "check_target clock fetch g target = (d, g')" "guard_enabled g" "cid \<in> fst ` set (guard_configs g)"
  obtains snap s where "recent clock g' cid snap" "(cid, s) \<in> set (guard_configs g)"
    "(cid, s, snap) \<in> set (fst (gather_snapshots clock fetch g (guard_configs g)))"
proof -
  obtain s where s: "(cid, s) \<in> set (guard_configs g)" using assms(3) by auto
  obtain ss g2 where gs: "gather_snapshots clock fetch g (guard_configs g) = (ss, g2)" by force
  then obtain snap where m: "(cid, s, snap) \<in> set ss"
  proof -
    have "(cid, s) \<in> set (map (\<lambda>(cid, s, snap). (cid, s)) ss)"
      using s gather_snapshots_configs[of clock fetch g "guard_configs g"] gs by simp
    then show ?thesis using that by auto
  qed
  have "guard_configs g \<noteq> []" using s by auto
  then have "g' = g2" using assms(1,2) gs by (auto simp: check_target_def Let_def)
  with gather_snapshots_recent[OF gs m] m gs s show ?thesis by (intro that[of snap s]) simp_all
qed


text \<open>The sessions a check looks at.\<close>

definition snapshots_used :: "(int \<Rightarrow> int) \<Rightarrow> (int \<Rightarrow> fetched) \<Rightarrow> playback_guard \<Rightarrow> (int \<times> service \<times> playback_snapshot) list" where
  "snapshots_used clock fetch g = fst (gather_snapshots clock fetch g (guard_configs g))"

lemma check_target_playing:
  assumes "guard_enabled g" "(cid, s, snap) \<in> set (snapshots_used clock fetch g)" "x \<in> set (snapshot_sessions snap)"
    "matches_session g target cid s x"
  shows "\<exists>d. fst (check_target clock fetch g target) = Some d \<and> deferral_code d = Currently_Playing \<and> cid \<in> set (deferral_configs d)"
proof -
  obtain ss g2 where gs: "gather_snapshots clock fetch g (guard_configs g) = (ss, g2)" by force
  have "guard_configs g \<noteq> []" using assms(2) by (auto simp: snapshots_used_def)
  moreover have m: "(cid, s, snap) \<in> set ss" using assms(2) gs by (simp add: snapshots_used_def)
  let ?playing = "filter (\<lambda>(cid, s, snap). list_ex (matches_session g target cid s) (snapshot_sessions snap)) ss"
  have "(cid, s, snap) \<in> set ?playing" using m assms(3,4) by (auto simp: list_ex_iff)
  then have "cid \<in> set (map fst ?playing)" "map fst ?playing \<noteq> []" by (force simp: image_iff, force)
  ultimately show ?thesis using assms(1) gs by (auto simp: check_target_def Let_def simp del: set_map)
qed

lemma hit_matches:
  assumes "(raw, sv, c, directory) \<in> set (target_paths target)" "v \<in> variants g raw sv c"
    and "p \<in> session_variants g cid s x" "path_hit directory p v"
  shows "matches_session g target cid s x"
proof -
  have "list_ex (\<lambda>(raw, s', c, directory). \<exists>v \<in> variants g raw s' c. \<exists>p \<in> session_variants g cid s x. path_hit directory p v)
      (target_paths target)"
    using assms by (force simp: list_ex_iff)
  then show ?thesis by (simp add: matches_session_def)
qed

text \<open>
  If a session on any server has a path that is, under the configured mappings, one of the target's paths
  or lies in one of its directories, the check defers, whatever else the servers report.
\<close>

lemma playing_hit_defers:
  assumes "guard_enabled g" "(cid, s, snap) \<in> set (snapshots_used clock fetch g)" "x \<in> set (snapshot_sessions snap)"
    and "(raw, sv, c, directory) \<in> set (target_paths target)" "v \<in> variants g raw sv c"
    and "q \<in> set (session_paths x)" "p \<in> variants g q (Some s) (Some cid)" "path_hit directory p v"
  shows "\<exists>d. fst (check_target clock fetch g target) = Some d \<and> deferral_code d = Currently_Playing \<and>
    cid \<in> set (deferral_configs d)"
  using assms(4-8)
  by (intro check_target_playing[OF assms(1-3)] hit_matches) (auto simp: session_variants_def)

text \<open>
  Where the snapshots of a guard come from.  \<open>answers_from P g\<close>: each one satisfies \<open>P\<close>, which a history of
  answers \<open>(server, time, snapshot)\<close> gives; \<open>plays_none\<close>: no session of a server's snapshot plays these paths, under
  the configured mappings; \<open>shown_idle\<close>: each server has an entry of the history, less than thirty seconds old,
  that plays none of a target's paths, and where unavailable servers are to defer, the entry of a server of the
  target is an answer and no failure.
\<close>

type_synonym answer_history = "int \<Rightarrow> int \<Rightarrow> playback_snapshot \<Rightarrow> bool"

definition answers_from :: "answer_history \<Rightarrow> playback_guard \<Rightarrow> bool" where
  "answers_from P g \<longleftrightarrow> (\<forall>(cid, taken, snap) \<in> set (guard_snapshots g). P cid taken snap)"

definition plays_none :: "playback_guard \<Rightarrow> target_path set \<Rightarrow> int \<Rightarrow> service \<Rightarrow> playback_snapshot \<Rightarrow> bool" where
  "plays_none g tps cid s snap \<longleftrightarrow>
     (\<forall>x \<in> set (snapshot_sessions snap). \<forall>q \<in> set (session_paths x). \<forall>p \<in> variants g q (Some s) (Some cid).
        \<forall>(raw, sv, c, directory) \<in> tps. \<forall>v \<in> variants g raw sv c. \<not> path_hit directory p v)"

definition shown_idle :: "answer_history \<Rightarrow> (int \<Rightarrow> int) \<Rightarrow> playback_guard \<Rightarrow> playback_target \<Rightarrow> bool" where
  "shown_idle P clock g target \<longleftrightarrow>
     (\<forall>(cid, s) \<in> set (guard_configs g).
        \<exists>taken snap. P cid taken snap \<and> clock cid - taken < max_snapshot_age \<and>
          plays_none g (set (target_paths target)) cid s snap \<and>
          (defer_when_unavailable g \<longrightarrow> cid \<in> relevant_configs target \<longrightarrow> available snap))"

text \<open>A target with all the paths and servers of another.\<close>

definition covers_target :: "playback_target \<Rightarrow> playback_target \<Rightarrow> bool" where
  "covers_target target own \<longleftrightarrow>
     set (target_paths own) \<subseteq> set (target_paths target) \<and> relevant_configs own \<subseteq> relevant_configs target"

lemma covers_target_refl [simp]: "covers_target target target"
  by (simp add: covers_target_def)

lemma covers_target_trans: "covers_target a b \<Longrightarrow> covers_target b c \<Longrightarrow> covers_target a c"
  unfolding covers_target_def by blast

lemma covers_add_paths [simp]: "covers_target (add_paths ps target) target"
  by (simp add: covers_target_def add_paths_def)

lemma answers_from_mono: "answers_from P g \<Longrightarrow> (\<And>c t s. P c t s \<Longrightarrow> Q c t s) \<Longrightarrow> answers_from Q g"
  unfolding answers_from_def by blast

lemma plays_none_mono: "plays_none g tps cid s snap \<Longrightarrow> tps' \<subseteq> tps \<Longrightarrow> plays_none g tps' cid s snap"
  unfolding plays_none_def by blast

lemma shown_idle_mono:
  assumes "shown_idle P clock g target" "\<And>c t s. P c t s \<Longrightarrow> Q c t s" "covers_target target own"
  shows "shown_idle Q clock g own"
  unfolding shown_idle_def
proof clarify
  fix cid s
  assume "(cid, s) \<in> set (guard_configs g)"
  with assms(1) obtain taken snap where "P cid taken snap" "clock cid - taken < max_snapshot_age"
    "plays_none g (set (target_paths target)) cid s snap"
    "defer_when_unavailable g \<longrightarrow> cid \<in> relevant_configs target \<longrightarrow> available snap"
    unfolding shown_idle_def by blast
  with assms(2,3) plays_none_mono
  show "\<exists>taken snap. Q cid taken snap \<and> clock cid - taken < max_snapshot_age \<and>
      plays_none g (set (target_paths own)) cid s snap \<and>
      (defer_when_unavailable g \<longrightarrow> cid \<in> relevant_configs own \<longrightarrow> available snap)"
    unfolding covers_target_def by blast
qed

lemma shown_idle_cong:
  "guard_configs g' = guard_configs g \<Longrightarrow> guard_mappings g' = guard_mappings g \<Longrightarrow>
   defer_when_unavailable g' = defer_when_unavailable g \<Longrightarrow> shown_idle P clock g' = shown_idle P clock g"
  by (intro ext) (simp add: shown_idle_def plays_none_def variants_cong[of g' g])

lemma current_snapshot_answers:
  assumes "current_snapshot clock fetch g cid = (snap, g')" "answers_from P g" "P cid (clock cid) (fetched_snapshot (fetch cid))"
  shows "answers_from P g'"
  using assms set_dput_le[of cid "(clock cid, fetched_snapshot (fetch cid))" "guard_snapshots g"]
  by (fastforce simp: current_snapshot_def answers_from_def Let_def split: option.splits if_splits prod.splits)

lemma gather_snapshots_answers:
  assumes "gather_snapshots clock fetch g configs = (ss, g')" "answers_from P g"
    and "\<And>c. P c (clock c) (fetched_snapshot (fetch c))"
  shows "answers_from P g'"
  using assms(1,2)
proof (induction configs arbitrary: g ss)
  case (Cons c configs)
  obtain snap g1 where s1: "current_snapshot clock fetch g (fst c) = (snap, g1)" by force
  obtain rest g2 where s2: "gather_snapshots clock fetch g1 configs = (rest, g2)" by force
  with Cons.prems(1) s1 have "g' = g2" by (cases c) auto
  with Cons.IH[of g1 rest] s2 current_snapshot_answers[OF s1 Cons.prems(2) assms(3)] show ?case by simp
qed simp

lemma check_target_answers:
  assumes "check_target clock fetch g target = (d, g')" "answers_from P g"
    and "\<And>c. P c (clock c) (fetched_snapshot (fetch c))"
  shows "answers_from P g'"
proof (cases "\<not> guard_enabled g \<or> guard_configs g = []")
  case True
  with assms(1,2) show ?thesis by (auto simp: check_target_def)
next
  case False
  obtain ss g2 where gs: "gather_snapshots clock fetch g (guard_configs g) = (ss, g2)" by force
  then have "g' = g2" using assms(1) False by (auto simp: check_target_def Let_def)
  with gather_snapshots_answers[OF gs assms(2,3)] show ?thesis by simp
qed

lemma recent_answer: "recent clock g cid snap \<Longrightarrow> answers_from P g \<Longrightarrow> \<exists>taken. P cid taken snap \<and> clock cid - taken < max_snapshot_age"
  unfolding recent_def answers_from_def by (blast dest: map_of_SomeD)

lemma passed_check_shows_idle:
  assumes "check_target clock fetch g target = (None, g')" "guard_enabled g" "answers_from P g"
    and "\<And>c. P c (clock c) (fetched_snapshot (fetch c))"
  shows "shown_idle P clock g target"
  unfolding shown_idle_def
proof clarify
  fix cid s
  assume c: "(cid, s) \<in> set (guard_configs g)"
  obtain ss g2 where gs: "gather_snapshots clock fetch g (guard_configs g) = (ss, g2)" by force
  have "(cid, s) \<in> set (map (\<lambda>(cid, s, snap). (cid, s)) ss)"
    using c gather_snapshots_configs[of clock fetch g "guard_configs g"] gs by simp
  then obtain snap where m: "(cid, s, snap) \<in> set ss" by auto
  obtain taken where t: "P cid taken snap" "clock cid - taken < max_snapshot_age"
    using recent_answer[OF gather_snapshots_recent[OF gs m] gather_snapshots_answers[OF gs assms(3,4)]] by blast
  have "\<not> path_hit directory p v"
    if "x \<in> set (snapshot_sessions snap)" "q \<in> set (session_paths x)" "p \<in> variants g q (Some s) (Some cid)"
      "(raw, sv, k, directory) \<in> set (target_paths target)" "v \<in> variants g raw sv k" for x q p raw sv k directory v
    using playing_hit_defers[OF assms(2) _ that(1,4,5,2,3), where clock = clock and fetch = fetch] m gs assms(1)
    by (auto simp: snapshots_used_def)
  then have "plays_none g (set (target_paths target)) cid s snap" unfolding plays_none_def by blast
  moreover have "available snap" if "defer_when_unavailable g" "cid \<in> relevant_configs target"
  proof -
    let ?bad = "\<lambda>(cid, s, snap). cid \<in> relevant_to g target \<and> (\<not> available snap \<or>
        list_ex (\<lambda>x. session_paths x = [] \<and> (session_item x = None \<or> session_item x = Some [])) (snapshot_sessions snap))"
    have "filter ?bad ss = []"
      using assms(1,2) gs that(1) c by (auto simp: check_target_def Let_def split: if_splits)
    with m have "\<not> ?bad (cid, s, snap)" by (auto simp only: filter_empty_conv)
    moreover have "cid \<in> relevant_to g target" using that(2) by (auto simp: relevant_to_def Let_def)
    ultimately show ?thesis by simp
  qed
  ultimately show "\<exists>taken snap. P cid taken snap \<and> clock cid - taken < max_snapshot_age \<and>
      plays_none g (set (target_paths target)) cid s snap \<and>
      (defer_when_unavailable g \<longrightarrow> cid \<in> relevant_configs target \<longrightarrow> available snap)" using t by blast
qed

text \<open>The same for a checkpoint.\<close>

lemma checkpoint_answers:
  assumes "playback_checkpoint clock fetch paths op = (d, op')" "answers_from P (op_guard op)"
    and "\<And>c. P c (clock c) (fetched_snapshot (fetch c))"
  shows "answers_from P (op_guard op')"
  using assms check_target_answers[of clock fetch "op_guard op" "add_paths paths (op_target op)" _ _ P]
  by (auto simp: playback_checkpoint_def Let_def split: prod.splits)

lemma passed_checkpoint_shows_idle:
  assumes "playback_checkpoint clock fetch paths op = (None, op')" "guard_enabled (op_guard op)" "answers_from P (op_guard op)"
    and "\<And>c. P c (clock c) (fetched_snapshot (fetch c))"
  shows "shown_idle P clock (op_guard op) (add_paths paths (op_target op))"
  using assms passed_check_shows_idle[of clock fetch "op_guard op" "add_paths paths (op_target op)" _ P]
  by (auto simp: playback_checkpoint_def Let_def add_paths_def split: prod.splits)

text \<open>C19: a check that passes rests on fresh knowledge.  Every server has a record less than thirty seconds old that
  plays nothing of the target; unless the settings say otherwise, the record of each server that could
  hold the target is an answer and no failure, and all its sessions could be told apart.\<close>

theorem passed_check_is_fresh:
  assumes "check_target clock fetch g target = (None, g')" "guard_enabled g" "cid \<in> fst ` set (guard_configs g)"
  shows "\<exists>snap s. recent clock g' cid snap \<and> (cid, s) \<in> set (guard_configs g) \<and>
    (\<forall>x \<in> set (snapshot_sessions snap). \<not> matches_session g target cid s x) \<and>
    (defer_when_unavailable g \<longrightarrow> cid \<in> relevant_to g target \<longrightarrow>
       available snap \<and> (\<forall>x \<in> set (snapshot_sessions snap). session_paths x \<noteq> [] \<or> session_item x \<notin> {None, Some []}))"
proof -
  obtain snap s where s: "recent clock g' cid snap" "(cid, s) \<in> set (guard_configs g)"
    and m: "(cid, s, snap) \<in> set (fst (gather_snapshots clock fetch g (guard_configs g)))"
    by (rule check_target_snapshots[OF assms])
  obtain ss g2 where gs: "gather_snapshots clock fetch g (guard_configs g) = (ss, g2)" by force
  have ne: "guard_configs g \<noteq> []" using s(2) by auto
  have no: "\<not> matches_session g target cid s x" if "x \<in> set (snapshot_sessions snap)" for x
    using check_target_playing[OF assms(2), of cid s snap clock fetch x target] m that assms(1)
    by (auto simp: snapshots_used_def)
  let ?bad = "\<lambda>(cid, s, snap). cid \<in> relevant_to g target \<and> (\<not> available snap \<or>
      list_ex (\<lambda>x. session_paths x = [] \<and> (session_item x = None \<or> session_item x = Some [])) (snapshot_sessions snap))"
  have "defer_when_unavailable g \<longrightarrow> filter ?bad ss = []"
    using assms(1,2) gs ne by (auto simp: check_target_def Let_def split: if_splits)
  then have "defer_when_unavailable g \<longrightarrow> \<not> ?bad (cid, s, snap)"
    using m gs by (auto simp only: filter_empty_conv fst_conv)
  then have "defer_when_unavailable g \<longrightarrow> cid \<in> relevant_to g target \<longrightarrow>
      available snap \<and> (\<forall>x \<in> set (snapshot_sessions snap). session_paths x \<noteq> [] \<or> session_item x \<notin> {None, Some []})"
    by (simp add: list_ex_iff)
  with s no show ?thesis by blast
qed

section \<open>Operations\<close>

text \<open>
  A guarded operation: checkpoints that add the paths of the next side effect, each with the clock and the
  servers' answers of its moment, additions to the target, and steps that complete.  A checkpoint that
  defers ends it.
\<close>

inductive guarded :: "playback_operation \<Rightarrow> playback_operation \<Rightarrow> bool" where
  start: "guarded op op"
| pass: "guarded op op' \<Longrightarrow> playback_checkpoint clock fetch paths op' = (None, op'') \<Longrightarrow> guarded op op''"
| add: "guarded op op' \<Longrightarrow> guarded op (op'\<lparr>op_target := extend_target (op_target op') addition\<rparr>)"
| step: "guarded op op' \<Longrightarrow> guarded op (playback_step_completed description op')"

lemma checkpoint_frame:
  assumes "playback_checkpoint clock fetch paths op = (d, op')"
  shows "target_paths (op_target op') = target_paths (op_target op) @ paths"
    and "guard_enabled (op_guard op') = guard_enabled (op_guard op)" "guard_mappings (op_guard op') = guard_mappings (op_guard op)"
    and "guard_configs (op_guard op') = guard_configs (op_guard op)" "completed_steps op' = completed_steps op"
  using assms check_target_frame[of clock fetch "op_guard op" "add_paths paths (op_target op)"]
  by (auto simp: playback_checkpoint_def Let_def add_paths_def split: prod.splits)

lemma guarded_frame:
  assumes "guarded op op'"
  shows "set (target_paths (op_target op)) \<subseteq> set (target_paths (op_target op')) \<and>
    guard_enabled (op_guard op') = guard_enabled (op_guard op) \<and> guard_mappings (op_guard op') = guard_mappings (op_guard op) \<and>
    guard_configs (op_guard op') = guard_configs (op_guard op) \<and> (\<exists>more. completed_steps op' = completed_steps op @ more)"
  using assms
proof induction
  case (pass op op' clock fetch paths op'')
  with checkpoint_frame[OF pass(2)] show ?case by auto
qed (auto simp: playback_step_completed_def extend_target_def)

text \<open>C20: what an operation once guarded stays guarded.  After any checkpoints and completed steps, the next
  checkpoint defers when a session plays a path the operation has started with or added at
  any checkpoint since, and the deferral carries the steps that were completed.\<close>

theorem guarded_paths_stay_guarded:
  assumes "guarded op op'" "guard_enabled (op_guard op)"
    and "(raw, sv, c, directory) \<in> set (target_paths (op_target op))" "v \<in> variants (op_guard op) raw sv c"
    and "(cid, s, snap) \<in> set (snapshots_used clock fetch (op_guard op'))" "x \<in> set (snapshot_sessions snap)"
    and "q \<in> set (session_paths x)" "p \<in> variants (op_guard op) q (Some s) (Some cid)" "path_hit directory p v"
  shows "\<exists>d. fst (playback_checkpoint clock fetch paths op') = Some d \<and> deferral_code d = Currently_Playing \<and>
    cid \<in> set (deferral_configs d) \<and> (\<exists>more. deferral_steps d = completed_steps op @ more)"
proof -
  note f = guarded_frame[OF assms(1)]
  have v: "variants (op_guard op') = variants (op_guard op)" using f by (intro variants_cong) simp
  have "(raw, sv, c, directory) \<in> set (target_paths (add_paths paths (op_target op')))"
    using f assms(3) by (auto simp: add_paths_def)
  then obtain d where d: "fst (check_target clock fetch (op_guard op') (add_paths paths (op_target op'))) = Some d"
      "deferral_code d = Currently_Playing" "cid \<in> set (deferral_configs d)"
    using playing_hit_defers[of "op_guard op'" cid s snap clock fetch x raw sv c directory _ v q p] assms(2,4-9) f v by auto
  then have "fst (playback_checkpoint clock fetch paths op') = Some (d\<lparr>deferral_steps := completed_steps op'\<rparr>)"
    by (auto simp: playback_checkpoint_def Let_def split: prod.splits)
  with d f show ?thesis by auto
qed


definition demo_guard :: playback_guard where
  "demo_guard = \<lparr>guard_enabled = True, guard_mappings = [], guard_configs = [(1, PLEX)], guard_snapshots = [],
     defer_when_unavailable = True\<rparr>"

definition demo_session :: "string \<Rightarrow> live_session" where
  "demo_session p = \<lparr>session_item = Some ''12'', session_media = None, session_paths = [p], session_parents = []\<rparr>"

definition demo_fetch :: "string \<Rightarrow> int \<Rightarrow> fetched" where
  "demo_fetch p cid = Fetched \<lparr>snapshot_sessions = [demo_session p], available = True, unavailable_reason = None\<rparr>"

definition demo_operation :: playback_operation where
  "demo_operation = \<lparr>op_guard = demo_guard,
     op_target = add_paths [(''/m/a.mkv'', Some PLEX, Some 1, False)] empty_target, completed_steps = []\<rparr>"

text \<open>A minute after the first checkpoint the title is played.\<close>

definition demo_later :: playback_operation where
  "demo_later = playback_step_completed ''Removed the entry''
     (snd (playback_checkpoint (\<lambda>_. 0) (demo_fetch ''/m/b.mkv'') [] demo_operation))"

lemma demo_guarded: "guarded demo_operation demo_later"
  unfolding demo_later_def
proof (rule guarded.step, rule guarded.pass[OF guarded.start])
  have "fst (playback_checkpoint (\<lambda>_. 0) (demo_fetch ''/m/b.mkv'') [] demo_operation) = None" by code_simp
  then show "playback_checkpoint (\<lambda>_. 0) (demo_fetch ''/m/b.mkv'') [] demo_operation =
    (None, snd (playback_checkpoint (\<lambda>_. 0) (demo_fetch ''/m/b.mkv'') [] demo_operation))" by (metis prod.collapse)
qed

lemma guarded_paths_stay_guarded_witness:
  "\<exists>d. fst (playback_checkpoint (\<lambda>_. 60000000) (demo_fetch ''/m/a.mkv'') [] demo_later) = Some d \<and>
     deferral_code d = Currently_Playing \<and> 1 \<in> set (deferral_configs d) \<and>
     (\<exists>more. deferral_steps d = completed_steps demo_operation @ more)"
proof (rule guarded_paths_stay_guarded[OF demo_guarded, where raw = "''/m/a.mkv''" and sv = "Some PLEX" and c = "Some 1"
      and directory = False and v = "''/m/a.mkv''" and cid = 1 and s = PLEX and q = "''/m/a.mkv''" and p = "''/m/a.mkv''"
      and x = "demo_session ''/m/a.mkv''"
      and snap = "\<lparr>snapshot_sessions = [demo_session ''/m/a.mkv''], available = True, unavailable_reason = None\<rparr>"])
qed code_simp+

lemma passed_check_is_fresh_witness:
  "\<exists>snap s. recent (\<lambda>_. 0) (snd (check_target (\<lambda>_. 0) (demo_fetch ''/m/b.mkv'') demo_guard (op_target demo_operation))) 1 snap \<and>
     (1, s) \<in> set (guard_configs demo_guard) \<and> available snap"
proof -
  have n: "fst (check_target (\<lambda>_. 0) (demo_fetch ''/m/b.mkv'') demo_guard (op_target demo_operation)) = None" by code_simp
  obtain g' where c: "check_target (\<lambda>_. 0) (demo_fetch ''/m/b.mkv'') demo_guard (op_target demo_operation) = (None, g')"
    using n by (metis prod.collapse)
  have e: "guard_enabled demo_guard" "1 \<in> fst ` set (guard_configs demo_guard)" "defer_when_unavailable demo_guard"
    by (simp_all add: demo_guard_def)
  have r: "1 \<in> relevant_to demo_guard (op_target demo_operation)" by code_simp
  show ?thesis using passed_check_is_fresh[OF c e(1,2)] e(3) r by (auto simp: c)
qed

end
