(* ===== verification/Playback_Target.thy ===== *)
theory Playback_Target
  imports Playback_Guard Candidate_Lifecycle
begin

text \<open>
  What of a candidate can be playing: which server's item ids the media rows hold
  (\<open>backend/services/media_identity.py\<close>) and the target built from the rows of a candidate
  (\<open>candidate_playback_target\<close> in \<open>backend/services/playback_guard.py\<close>).
\<close>

section \<open>Ownership of item ids\<close>

record ownership =
  main_config_id :: "int option"
  main_service :: "service option"
  services_by_config_id :: "(int \<times> service) list"

definition configs_of :: "ownership \<Rightarrow> service \<Rightarrow> int set" where
  "configs_of own s = set (map fst (filter (\<lambda>(cid, s'). s' = s) (services_by_config_id own)))"

definition configs_owning_media_rows :: "ownership \<Rightarrow> service \<Rightarrow> int set" where
  "configs_owning_media_rows own s =
     (case (main_config_id own, main_service own) of
        (Some cid, Some m) \<Rightarrow> if s = m then {cid} else {}
      | _ \<Rightarrow> configs_of own s)"

definition configs_owning_service_id_columns :: "ownership \<Rightarrow> service \<Rightarrow> int set" where
  "configs_owning_service_id_columns own s =
     (if main_service own \<noteq> Some s
      then (let configs = configs_of own s in if card configs = 1 then configs else {})
      else (case main_config_id own of None \<Rightarrow> {} | Some cid \<Rightarrow> {cid}))"

definition owns_media_rows :: "ownership \<Rightarrow> service \<Rightarrow> int \<Rightarrow> bool" where
  "owns_media_rows own s cid \<longleftrightarrow> cid \<in> configs_owning_media_rows own s"

definition owns_service_id_columns :: "ownership \<Rightarrow> service \<Rightarrow> int \<Rightarrow> bool" where
  "owns_service_id_columns own s cid \<longleftrightarrow> cid \<in> configs_owning_service_id_columns own s"

definition main_config_id_for :: "ownership \<Rightarrow> service \<Rightarrow> int option" where
  "main_config_id_for own s = (if main_service own = Some s then main_config_id own else None)"

text \<open>The configured media servers with their number, type and whether they are the main one.\<close>

definition load_media_identity_ownership :: "(int \<times> service \<times> bool) list \<Rightarrow> ownership" where
  "load_media_identity_ownership configs =
     (let rows = filter (\<lambda>(i, s, m). List.member [JELLYFIN, EMBY, PLEX] s) configs;
          main = find (\<lambda>(i, s, m). m) rows
      in \<lparr>main_config_id = map_option (\<lambda>(i, s, m). i) main, main_service = map_option (\<lambda>(i, s, m). s) main,
          services_by_config_id = dupdate [] (map (\<lambda>(i, s, m). (i, s)) rows)\<rparr>)"

section \<open>The rows of a candidate\<close>

text \<open>A movie's or an episode's version.\<close>

record media_version =
  mv_id :: int
  mv_media :: int
  mv_service :: service
  mv_item :: string
  mv_media_id :: "string option"
  mv_path :: "string option"

text \<open>\<open>keys\<close> are the id columns of Plex, Jellyfin and Emby.\<close>

record media_episode =
  me_id :: int
  me_season :: int
  me_path :: "string option"
  me_keys :: "string option \<times> string option \<times> string option"

record media_season =
  ms_id :: int
  ms_series :: int
  ms_path :: "string option"
  ms_episode_paths :: "string list"
  ms_keys :: "string option \<times> string option \<times> string option"

record series_ref =
  sr_series :: int
  sr_service :: service
  sr_item :: string
  sr_path :: "string option"

record supplemental_match =
  sm_config :: int
  sm_movie :: "int option"
  sm_series :: "int option"
  sm_season :: "int option"
  sm_episode :: "int option"
  sm_item :: string
  sm_media_id :: "string option"
  sm_path_tail :: "string option"

record media_tables =
  mt_movie_versions :: "media_version list"
  mt_episodes :: "media_episode list"
  mt_seasons :: "media_season list"
  mt_episode_versions :: "media_version list"
  mt_series_refs :: "series_ref list"
  mt_matches :: "supplemental_match list"

definition service_keys :: "string option \<times> string option \<times> string option \<Rightarrow> (service \<times> string) list" where
  "service_keys ks =
     (let (plex, jellyfin, emby) = ks
      in map (\<lambda>(s, i). (s, or_empty i)) (filter (\<lambda>(s, i). some_text i) [(PLEX, plex), (JELLYFIN, jellyfin), (EMBY, emby)]))"

text \<open>The one server whose ids a column holds, when there is just one.\<close>

definition single_owner :: "ownership \<Rightarrow> service \<Rightarrow> int option" where
  "single_owner own s =
     (let owners = configs_owning_service_id_columns own s in if card owners = 1 then Some (Min owners) else None)"

definition keyed :: "ownership \<Rightarrow> string option \<times> string option \<times> string option \<Rightarrow> (int \<times> string) list" where
  "keyed own ks = somes (map (\<lambda>(s, i). map_option (\<lambda>cid. (cid, i)) (single_owner own s)) (service_keys ks))"

section \<open>Building the target\<close>

definition add_version :: "ownership \<Rightarrow> playback_target \<Rightarrow> media_version \<Rightarrow> playback_target" where
  "add_version own target r =
     (let owners = configs_owning_media_rows own (mv_service r);
          path = or_empty (mv_path r);
          places = (if owners = {} then [None] else map Some (sorted_list_of_set owners))
      in target\<lparr>relevant_configs := relevant_configs target \<union> owners,
           target_identities := target_identities target \<union> (\<lambda>cid. (cid, mv_item r, mv_media_id r)) ` owners,
           target_paths := target_paths target @
             (if path = [] then [] else map (\<lambda>c. (path, Some (mv_service r), c, False)) places)\<rparr>)"

definition candidate_movie_versions :: "media_tables \<Rightarrow> candidate \<Rightarrow> media_version list" where
  "candidate_movie_versions db c =
     filter (\<lambda>r. candidate_movie c = Some (mv_media r) \<and> (movie_version_id c = None \<or> movie_version_id c = Some (mv_id r)))
       (mt_movie_versions db)"

definition candidate_episodes :: "media_tables \<Rightarrow> candidate \<Rightarrow> media_episode list" where
  "candidate_episodes db c =
     filter (\<lambda>e. list_ex (\<lambda>s. ms_id s = me_season e \<and> candidate_series c = Some (ms_series s)) (mt_seasons db) \<and>
                 (if episode_id c \<noteq> None then episode_id c = Some (me_id e)
                  else season_id c = None \<or> season_id c = Some (me_season e)))
       (mt_episodes db)"

definition candidate_episode_versions :: "media_tables \<Rightarrow> candidate \<Rightarrow> media_version list" where
  "candidate_episode_versions db c =
     filter (\<lambda>r. List.member (map me_id (candidate_episodes db c)) (mv_media r)) (mt_episode_versions db)"

text \<open>
  A season candidate adds the paths of its episodes, its folder unless that is the series'
  folder, and its ids.
\<close>

definition add_season :: "ownership \<Rightarrow> media_tables \<Rightarrow> candidate \<Rightarrow> playback_target \<Rightarrow> playback_target" where
  "add_season own db c target =
     (if season_id c = None \<or> episode_id c \<noteq> None then target
      else case find (\<lambda>s. season_id c = Some (ms_id s)) (mt_seasons db) of
        None \<Rightarrow> target
      | Some season \<Rightarrow>
          (let main = main_config_id own; path = or_empty (ms_path season);
               roots = filter (\<lambda>p. p \<noteq> []) (map (\<lambda>r. or_empty (sr_path r))
                         (filter (\<lambda>r. candidate_series c = Some (sr_series r)) (mt_series_refs db)))
           in target\<lparr>target_paths := target_paths target @
                  map (\<lambda>p. (p, main_service own, main, False)) (ms_episode_paths season) @
                  (if path \<noteq> [] \<and> list_all (\<lambda>r. normalize_fpath False False path \<noteq> normalize_fpath False False r) roots
                   then [(path, main_service own, main, True)] else []),
                target_parents := target_parents target \<union> set (keyed own (ms_keys season))\<rparr>))"

definition add_episode_row :: "ownership \<Rightarrow> playback_target \<Rightarrow> media_episode \<Rightarrow> playback_target" where
  "add_episode_row own target e =
     target\<lparr>target_paths := target_paths target @
              (if some_text (me_path e) then [(or_empty (me_path e), main_service own, main_config_id own, False)] else []),
            target_identities := target_identities target \<union> set (map (\<lambda>(cid, i). (cid, i, None)) (keyed own (me_keys e)))\<rparr>"

definition add_series_ref :: "ownership \<Rightarrow> playback_target \<Rightarrow> series_ref \<Rightarrow> playback_target" where
  "add_series_ref own target r =
     (let owners = configs_owning_media_rows own (sr_service r)
      in target\<lparr>target_parents := target_parents target \<union> (\<lambda>cid. (cid, sr_item r)) ` owners,
           target_paths := target_paths target @
             (if some_text (sr_path r)
              then map (\<lambda>cid. (or_empty (sr_path r), Some (sr_service r), Some cid, True)) (sorted_list_of_set owners) else [])\<rparr>)"

definition add_series_refs :: "ownership \<Rightarrow> media_tables \<Rightarrow> candidate \<Rightarrow> playback_target \<Rightarrow> playback_target" where
  "add_series_refs own db c target =
     (if season_id c \<noteq> None \<or> episode_id c \<noteq> None then target
      else foldl (add_series_ref own) target (filter (\<lambda>r. candidate_series c = Some (sr_series r)) (mt_series_refs db)))"

text \<open>A match contributed by a linked server; \<open>lstrip\<close> drops the slashes before the tail.\<close>

definition add_match :: "candidate \<Rightarrow> playback_target \<Rightarrow> supplemental_match \<Rightarrow> playback_target" where
  "add_match c target m =
     (let target = target\<lparr>relevant_configs := insert (sm_config m) (relevant_configs target)\<rparr>;
          tail = dropWhile is_slash (normalize_fpath False False (or_empty (sm_path_tail m)))
      in if movie_version_id c \<noteq> None \<and> some_text (sm_path_tail m) \<and> target_paths target \<noteq> [] \<and>
            \<not> list_ex (\<lambda>(p, s, cid, d). ends_with (''/'' @ tail) (normalize_fpath False False p)) (target_paths target)
         then target
         else if episode_id c \<noteq> None \<and> sm_episode m \<noteq> episode_id c then target
         else if episode_id c = None \<and> season_id c \<noteq> None \<and> sm_season m \<noteq> season_id c then target
         else target\<lparr>target_identities := insert (sm_config m, sm_item m, sm_media_id m) (target_identities target),
                     target_parents := (if sm_series m \<noteq> None \<and> sm_episode m = None
                                        then insert (sm_config m, sm_item m) (target_parents target)
                                        else target_parents target)\<rparr>)"

definition candidate_matches :: "media_tables \<Rightarrow> candidate \<Rightarrow> supplemental_match list" where
  "candidate_matches db c =
     filter (\<lambda>m. if candidate_movie c \<noteq> None then sm_movie m = candidate_movie c else sm_series m = candidate_series c) (mt_matches db)"

definition candidate_playback_target :: "ownership \<Rightarrow> media_tables \<Rightarrow> candidate \<Rightarrow> playback_target" where
  "candidate_playback_target own db c =
     (let target = empty_target\<lparr>relevant_configs := (case main_config_id own of None \<Rightarrow> {} | Some i \<Rightarrow> {i})\<rparr>;
          target = (if candidate_movie c \<noteq> None
                    then foldl (add_version own) target (candidate_movie_versions db c)
                    else (let target = add_season own db c target;
                              target = foldl (add_version own) target (candidate_episode_versions db c);
                              target = foldl (add_episode_row own) target (candidate_episodes db c)
                          in add_series_refs own db c target))
      in foldl (add_match c) target (candidate_matches db c))"

section \<open>A candidate's files are in its target\<close>

text \<open>The paths that the rows of a candidate record.\<close>

definition candidate_files :: "media_tables \<Rightarrow> candidate \<Rightarrow> string list" where
  "candidate_files db c =
     filter (\<lambda>p. p \<noteq> [])
       (if candidate_movie c \<noteq> None then map (\<lambda>r. or_empty (mv_path r)) (candidate_movie_versions db c)
        else map (\<lambda>r. or_empty (mv_path r)) (candidate_episode_versions db c) @
             map (\<lambda>e. or_empty (me_path e)) (candidate_episodes db c))"

definition has_path :: "playback_target \<Rightarrow> string \<Rightarrow> bool" where
  "has_path target p \<longleftrightarrow> (\<exists>s c d. (p, s, c, d) \<in> set (target_paths target))"

named_theorems target_grows \<open>steps that only add to a target\<close>

lemma add_version_grows [target_grows]: "has_path t p \<Longrightarrow> has_path (add_version own t r) p"
  by (auto simp: has_path_def add_version_def Let_def)

lemma add_episode_row_grows [target_grows]: "has_path t p \<Longrightarrow> has_path (add_episode_row own t e) p"
  by (auto simp: has_path_def add_episode_row_def)

lemma add_series_ref_grows [target_grows]: "has_path t p \<Longrightarrow> has_path (add_series_ref own t r) p"
  by (auto simp: has_path_def add_series_ref_def Let_def)

lemma add_match_grows [target_grows]: "has_path t p \<Longrightarrow> has_path (add_match c t m) p"
  by (auto simp: has_path_def add_match_def Let_def)

lemma foldl_grows:
  assumes "\<And>t x. has_path t p \<Longrightarrow> has_path (f t x) p" and "has_path t p"
  shows "has_path (foldl f t xs) p"
  using assms(2) by (induction xs arbitrary: t) (auto intro: assms(1))

lemma foldl_adds:
  assumes "\<And>t x. has_path t p \<Longrightarrow> has_path (f t x) p" and "y \<in> set xs" and "\<And>t. has_path (f t y) p"
  shows "has_path (foldl f t xs) p"
  using assms(2)
proof (induction xs arbitrary: t)
  case (Cons x xs)
  then show ?case using foldl_grows[of p f, OF assms(1) assms(3)] by (cases "x = y") auto
qed simp

lemma add_version_adds:
  assumes "or_empty (mv_path r) \<noteq> []"
  shows "has_path (add_version own t r) (or_empty (mv_path r))"
proof (cases "configs_owning_media_rows own (mv_service r) = {}")
  case False
  moreover have "finite (configs_owning_media_rows own (mv_service r))"
    by (auto simp: configs_owning_media_rows_def configs_of_def split: option.splits)
  ultimately obtain cid where "cid \<in> set (sorted_list_of_set (configs_owning_media_rows own (mv_service r)))" by auto
  with assms show ?thesis by (auto simp: has_path_def add_version_def Let_def image_iff intro!: exI[of _ "Some cid"])
qed (use assms in \<open>auto simp: has_path_def add_version_def Let_def\<close>)

lemma add_episode_row_adds: "or_empty (me_path e) \<noteq> [] \<Longrightarrow> has_path (add_episode_row own t e) (or_empty (me_path e))"
  by (auto simp: has_path_def add_episode_row_def some_text_def or_empty_def split: option.splits)

lemma candidate_files_targeted:
  assumes "p \<in> set (candidate_files db c)"
  shows "has_path (candidate_playback_target own db c) p"
proof -
  have refs: "has_path (add_series_refs own db c t) p" if "has_path t p" for t
    using that by (auto simp: add_series_refs_def intro: foldl_grows target_grows)
  show ?thesis
  proof (cases "candidate_movie c = None")
    case False
    then obtain r where "r \<in> set (candidate_movie_versions db c)" "p = or_empty (mv_path r)" "p \<noteq> []"
      using assms by (auto simp: candidate_files_def)
    then have "has_path (foldl (add_version own) t (candidate_movie_versions db c)) p" for t
      by (intro foldl_adds[where y = r]) (simp_all add: add_version_grows add_version_adds)
    with False show ?thesis
      unfolding candidate_playback_target_def Let_def by (auto intro: foldl_grows target_grows)
  next
    case True
    consider r where "r \<in> set (candidate_episode_versions db c)" "p = or_empty (mv_path r)" "p \<noteq> []"
      | e where "e \<in> set (candidate_episodes db c)" "p = or_empty (me_path e)" "p \<noteq> []"
      using assms True by (auto simp: candidate_files_def)
    then have "has_path (foldl (add_episode_row own) (foldl (add_version own) t (candidate_episode_versions db c)) (candidate_episodes db c)) p" for t
    proof cases
      case 1
      then show ?thesis
        by (intro foldl_grows[of p "add_episode_row own"] foldl_adds[where y = r])
          (simp_all add: add_version_grows add_version_adds add_episode_row_grows)
    next
      case 2
      then show ?thesis
        by (intro foldl_adds[where y = e]) (simp_all add: add_episode_row_grows add_episode_row_adds)
    qed
    with True refs show ?thesis
      unfolding candidate_playback_target_def Let_def by (auto intro: foldl_grows target_grows)
  qed
qed

lemma own_variant: "normalize_fpath True False p \<noteq> [] \<Longrightarrow> normalize_fpath True False p \<in> variants g p s c"
  by (auto simp: variants_def mapped_path_variants_iff no_text_def or_empty_def normalize_fpath_def)

text \<open>A title that is being played is not deleted.  If a session on any configured server has
  a path that is, up to normalisation, the recorded path of one of the candidate's files, then
  the check of the candidate's target defers as currently playing, whichever server recorded the
  file and whatever the other servers report.\<close>

theorem played_candidate_is_deferred:
  assumes "guard_enabled g" "(cid, s, snap) \<in> set (snapshots_used clock fetch g)" "x \<in> set (snapshot_sessions snap)"
    and "q \<in> set (session_paths x)" "p \<in> set (candidate_files db c)"
    and "normalize_fpath True False q = normalize_fpath True False p" "normalize_fpath True False p \<noteq> []"
  shows "\<exists>d. fst (check_target clock fetch g (candidate_playback_target own db c)) = Some d \<and>
    deferral_code d = Currently_Playing \<and> cid \<in> set (deferral_configs d)"
proof -
  obtain sv i d where t: "(p, sv, i, d) \<in> set (target_paths (candidate_playback_target own db c))"
    using candidate_files_targeted[OF assms(5), of own] unfolding has_path_def by blast
  show ?thesis
    by (rule playing_hit_defers[OF assms(1-3) t own_variant[OF assms(7)] assms(4) own_variant])
      (use assms(6,7) in \<open>simp_all add: path_hit_def\<close>)
qed

section \<open>Servers that do not answer\<close>

lemma unavailable_defers:
  assumes "guard_enabled g" "defer_when_unavailable g" "(cid, s, snap) \<in> set (snapshots_used clock fetch g)"
    "\<not> available snap" "cid \<in> relevant_to g target"
  shows "\<exists>d. fst (check_target clock fetch g target) = Some d"
proof -
  obtain ss g2 where gs: "gather_snapshots clock fetch g (guard_configs g) = (ss, g2)" by force
  let ?bad = "\<lambda>(cid, s, snap). cid \<in> relevant_to g target \<and> (\<not> available snap \<or>
      list_ex (\<lambda>x. session_paths x = [] \<and> (session_item x = None \<or> session_item x = Some [])) (snapshot_sessions snap))"
  have "(cid, s, snap) \<in> set (filter ?bad ss)" using assms(3-5) gs by (simp add: snapshots_used_def)
  then have "filter ?bad ss \<noteq> []" by (metis (lifting) emptyE list.set(1))
  moreover have "guard_configs g \<noteq> []" using assms(3) by (auto simp: snapshots_used_def)
  ultimately show ?thesis using assms(1,2) gs by (auto simp: check_target_def Let_def)
qed

definition has_config :: "playback_target \<Rightarrow> int \<Rightarrow> bool" where
  "has_config t cid \<longleftrightarrow> cid \<in> relevant_configs t"

lemma has_config_relevant: "has_config t cid \<Longrightarrow> cid \<in> relevant_to g t"
  by (auto simp: has_config_def relevant_to_def Let_def)

lemma foldl_config:
  assumes "\<And>t x. has_config t cid \<Longrightarrow> has_config (f t x) cid" and "has_config t cid"
  shows "has_config (foldl f t xs) cid"
  using assms(2) by (induction xs arbitrary: t) (auto intro: assms(1))

lemma config_grows:
  "has_config t cid \<Longrightarrow> has_config (add_version own t r) cid"
  "has_config t cid \<Longrightarrow> has_config (add_episode_row own t e) cid"
  "has_config t cid \<Longrightarrow> has_config (add_series_ref own t ref) cid"
  "has_config t cid \<Longrightarrow> has_config (add_match c t m) cid"
  "has_config t cid \<Longrightarrow> has_config (add_season own db c t) cid"
  by (auto simp: has_config_def add_version_def add_episode_row_def add_series_ref_def add_match_def add_season_def Let_def
      split: option.splits)

lemma foldl_adds_config:
  assumes "\<And>t x. has_config t cid \<Longrightarrow> has_config (f t x) cid" and "y \<in> set xs" and "\<And>t. has_config (f t y) cid"
  shows "has_config (foldl f t xs) cid"
  using assms(2)
proof (induction xs arbitrary: t)
  case (Cons x xs)
  then show ?case using foldl_config[of cid f, OF assms(1) assms(3)] by (cases "x = y") auto
qed simp

lemma match_config: "m \<in> set (candidate_matches db c) \<Longrightarrow> has_config (candidate_playback_target own db c) (sm_config m)"
  unfolding candidate_playback_target_def Let_def
  by (rule foldl_adds_config[where y = m]) (auto intro: config_grows simp: has_config_def add_match_def Let_def)

lemma main_config: 
  assumes "main_config_id own = Some cid" 
  shows "has_config (candidate_playback_target own db c) cid"
proof -
  have "has_config (empty_target\<lparr>relevant_configs := (case main_config_id own of None \<Rightarrow> {} | Some i \<Rightarrow> {i})\<rparr>) cid"
    using assms by (simp add: has_config_def)
  then show ?thesis
    unfolding candidate_playback_target_def Let_def add_series_refs_def
    by (auto intro!: foldl_config config_grows)
qed

text \<open>C18: silence is not taken for idleness.  While unavailable servers are to defer, a candidate is deferred
  when its main server, or any linked server that matched the title, gives no usable report.\<close>

theorem silent_owner_defers:
  assumes "guard_enabled g" "defer_when_unavailable g" "(cid, s, snap) \<in> set (snapshots_used clock fetch g)"
    and "\<not> available snap"
    and "main_config_id own = Some cid \<or> (\<exists>m \<in> set (candidate_matches db c). sm_config m = cid)"
  shows "\<exists>d. fst (check_target clock fetch g (candidate_playback_target own db c)) = Some d"
proof (rule unavailable_defers[OF assms(1-4)])
  show "cid \<in> relevant_to g (candidate_playback_target own db c)"
    using assms(5) main_config match_config by (auto intro: has_config_relevant)
qed


definition demo_media :: media_tables where
  "demo_media = \<lparr>mt_movie_versions = [], mt_episodes = [\<lparr>me_id = 4, me_season = 2, me_path = Some ''/tv/a/e.mkv'', me_keys = (None, None, None)\<rparr>],
     mt_seasons = [\<lparr>ms_id = 2, ms_series = 5, ms_path = None, ms_episode_paths = [], ms_keys = (None, None, None)\<rparr>],
     mt_episode_versions = [], mt_series_refs = [], mt_matches = []\<rparr>"

definition demo_ownership :: ownership where
  "demo_ownership = \<lparr>main_config_id = Some 1, main_service = Some PLEX, services_by_config_id = [(1, PLEX)]\<rparr>"

lemma played_candidate_is_deferred_witness:
  "\<exists>d. fst (check_target (\<lambda>_. 0) (demo_fetch ''/tv/a/e.mkv'') demo_guard (candidate_playback_target demo_ownership demo_media demo_candidate)) = Some d \<and>
     deferral_code d = Currently_Playing \<and> 1 \<in> set (deferral_configs d)"
  by (rule played_candidate_is_deferred[where s = PLEX and x = "demo_session ''/tv/a/e.mkv''" and q = "''/tv/a/e.mkv''" and p = "''/tv/a/e.mkv''"
        and snap = "\<lparr>snapshot_sessions = [demo_session ''/tv/a/e.mkv''], available = True, unavailable_reason = None\<rparr>"])
    code_simp+

lemma silent_owner_defers_witness:
  "\<exists>d. fst (check_target (\<lambda>_. 0) (\<lambda>_. No_Client) demo_guard (candidate_playback_target demo_ownership demo_media demo_candidate)) = Some d"
  by (rule silent_owner_defers[where cid = 1 and s = PLEX and snap = unavailable_snapshot])
    (simp_all add: Let_def demo_guard_def demo_ownership_def snapshots_used_def current_snapshot_def fetched_snapshot_def unavailable_snapshot_def)

end
