(* ===== verification/Removal_Guard.thy ===== *)
theory Removal_Guard
  imports Playback_Guard
begin

text \<open>
  The last check before a provider removes files (\<open>guard_arr_removal\<close>, \<open>guard_native_removal\<close> in
  \<open>backend/services/playback_guard.py\<close>): the provider is asked what it would remove, and those
  paths are checked as well.  What the provider answers for an item, and the clock and the servers'
  answers at the checkpoint of each item, are parameters.
\<close>

section \<open>Before a provider removes\<close>

text \<open>No answer, or one without a path: defer, or go on with what is known, as the settings say.\<close>

definition unavailable_removal_scope ::
  "(int \<Rightarrow> int) \<Rightarrow> (int \<Rightarrow> fetched) \<Rightarrow> playback_operation \<Rightarrow> deferral option \<times> playback_operation" where
  "unavailable_removal_scope clock fetch op =
     (if \<not> defer_when_unavailable (op_guard op) then playback_checkpoint clock fetch [] op
      else (Some \<lparr>deferral_code = Playback_Unavailable,
                  deferral_configs = sorted_list_of_set (relevant_configs (op_target op)),
                  deferral_steps = completed_steps op\<rparr>, op))"

text \<open>\<open>lookup\<close> gives the path of an item, \<open>None\<close> when the request fails or names none.\<close>

fun guard_arr_items ::
  "(int \<Rightarrow> int \<Rightarrow> int) \<Rightarrow> (int \<Rightarrow> int \<Rightarrow> fetched) \<Rightarrow> (int \<Rightarrow> string option) \<Rightarrow> service \<Rightarrow> int option \<Rightarrow> bool \<Rightarrow> int list \<Rightarrow>
   playback_operation \<Rightarrow> deferral option \<times> playback_operation" where
  "guard_arr_items clock fetch lookup serv cid files_only [] op = (None, op)"
| "guard_arr_items clock fetch lookup serv cid files_only (i # ids) op =
     (let (d, op') = (if some_text (lookup i)
                      then playback_checkpoint (clock i) (fetch i) [(or_empty (lookup i), Some serv, cid, \<not> files_only)] op
                      else unavailable_removal_scope (clock i) (fetch i) op)
      in if d \<noteq> None then (d, op') else guard_arr_items clock fetch lookup serv cid files_only ids op')"

definition inactive :: "playback_operation \<Rightarrow> bool" where
  "inactive op \<longleftrightarrow> \<not> guard_enabled (op_guard op) \<or> guard_configs (op_guard op) = []"

definition guard_arr_removal ::
  "(int \<Rightarrow> int \<Rightarrow> int) \<Rightarrow> (int \<Rightarrow> int \<Rightarrow> fetched) \<Rightarrow> (int \<Rightarrow> string option) \<Rightarrow> service \<Rightarrow> int option \<Rightarrow> bool \<Rightarrow> int list \<Rightarrow>
   playback_operation \<Rightarrow> deferral option \<times> playback_operation" where
  "guard_arr_removal clock fetch lookup serv cid files_only ids op =
     (if inactive op then (None, op)
      else guard_arr_items clock fetch lookup serv cid files_only (uniq ids) op)"

fun guard_native_paths ::
  "(string \<Rightarrow> int \<Rightarrow> int) \<Rightarrow> (string \<Rightarrow> int \<Rightarrow> fetched) \<Rightarrow> service \<Rightarrow> int option \<Rightarrow> (string \<times> bool) list \<Rightarrow>
   playback_operation \<Rightarrow> deferral option \<times> playback_operation" where
  "guard_native_paths clock fetch serv cid [] op = (None, op)"
| "guard_native_paths clock fetch serv cid ((path, directory) # paths) op =
     (let (d, op') = playback_checkpoint (clock path) (fetch path) (if path = [] then [] else [(path, Some serv, cid, directory)]) op
      in if d \<noteq> None then (d, op') else guard_native_paths clock fetch serv cid paths op')"

definition native_identity :: "int option \<Rightarrow> string \<Rightarrow> string option \<Rightarrow> playback_target" where
  "native_identity cid item_id media_id =
     (case cid of
        None \<Rightarrow> empty_target
      | Some i \<Rightarrow> \<lparr>target_paths = [], target_identities = {(i, item_id, media_id)},
                  target_parents = (if media_id = None then {(i, item_id)} else {}), relevant_configs = {i}\<rparr>)"

text \<open>\<open>paths\<close> is what \<open>native_item_paths\<close> returned, \<open>None\<close> when it failed.\<close>

definition guard_native_removal ::
  "(string \<Rightarrow> int \<Rightarrow> int) \<Rightarrow> (string \<Rightarrow> int \<Rightarrow> fetched) \<Rightarrow> (string \<times> bool) list option \<Rightarrow> service \<Rightarrow> int option \<Rightarrow>
   string \<Rightarrow> string option \<Rightarrow> playback_operation \<Rightarrow> deferral option \<times> playback_operation" where
  "guard_native_removal clock fetch paths serv cid item_id media_id op =
     (if inactive op then (None, op)
      else let op' = op\<lparr>op_target := extend_target (op_target op) (native_identity cid item_id media_id)\<rparr>
           in case paths of
                Some (p # ps) \<Rightarrow> guard_native_paths clock fetch serv cid (p # ps) op'
              | _ \<Rightarrow> unavailable_removal_scope (clock []) (fetch []) op')"

section \<open>Going on means having been checked\<close>

text \<open>What the operation stands for has grown to \<open>op'\<close> through checkpoints that passed.\<close>

lemma guarded_trans: "guarded b c \<Longrightarrow> guarded a b \<Longrightarrow> guarded a c"
  by (induction rule: guarded.induct) (auto intro: guarded.intros)

lemma checkpoint_guarded: "playback_checkpoint clock fetch paths op = (None, op') \<Longrightarrow> guarded op op'"
  by (rule guarded.pass[OF guarded.start])

lemma unavailable_guarded:
  "unavailable_removal_scope clock fetch op = (None, op') \<Longrightarrow> \<not> defer_when_unavailable (op_guard op) \<and> guarded op op'"
  by (auto simp: unavailable_removal_scope_def intro: checkpoint_guarded split: if_splits)

lemma checkpoint_defers_frame:
  "playback_checkpoint clock fetch paths op = (d, op') \<Longrightarrow>
   defer_when_unavailable (op_guard op') = defer_when_unavailable (op_guard op)"
  using check_target_frame[of clock fetch "op_guard op" "add_paths paths (op_target op)"]
  by (auto simp: playback_checkpoint_def Let_def split: prod.splits)

lemma guard_arr_items_checked:
  "guard_arr_items clock fetch lookup serv cid files_only ids op = (None, op') \<Longrightarrow>
   guarded op op' \<and>
   (\<forall>i \<in> set ids. if some_text (lookup i)
      then (or_empty (lookup i), Some serv, cid, \<not> files_only) \<in> set (target_paths (op_target op'))
      else \<not> defer_when_unavailable (op_guard op))"
proof (induction ids arbitrary: op)
  case (Cons i ids)
  show ?case
  proof (cases "some_text (lookup i)")
    case True
    then obtain op1 where c: "playback_checkpoint (clock i) (fetch i) [(or_empty (lookup i), Some serv, cid, \<not> files_only)] op = (None, op1)"
      and r: "guard_arr_items clock fetch lookup serv cid files_only ids op1 = (None, op')"
      using Cons.prems by (auto split: prod.splits if_splits)
    from Cons.IH[OF r] checkpoint_guarded[OF c] checkpoint_frame(1)[OF c] checkpoint_defers_frame[OF c] guarded_frame[of op1 op'] True
    show ?thesis by (auto intro: guarded_trans split: if_splits)
  next
    case False
    then obtain op1 where c: "unavailable_removal_scope (clock i) (fetch i) op = (None, op1)"
      and r: "guard_arr_items clock fetch lookup serv cid files_only ids op1 = (None, op')"
      using Cons.prems by (auto split: prod.splits if_splits)
    from Cons.IH[OF r] unavailable_guarded[OF c] False show ?thesis by (auto intro: guarded_trans)
  qed
qed (auto intro: guarded.start)

lemma guard_native_paths_checked:
  "guard_native_paths clock fetch serv cid paths op = (None, op') \<Longrightarrow>
   guarded op op' \<and> (\<forall>(p, d) \<in> set paths. p = [] \<or> (p, Some serv, cid, d) \<in> set (target_paths (op_target op')))"
proof (induction paths arbitrary: op)
  case (Cons x paths)
  obtain p d where x: "x = (p, d)" by force
  obtain op1 where c: "playback_checkpoint (clock p) (fetch p) (if p = [] then [] else [(p, Some serv, cid, d)]) op = (None, op1)"
    and r: "guard_native_paths clock fetch serv cid paths op1 = (None, op')"
    using Cons.prems x by (auto split: prod.splits if_splits)
  from Cons.IH[OF r] checkpoint_guarded[OF c] checkpoint_frame(1)[OF c] guarded_frame[of op1 op'] x
  show ?case by (auto intro: guarded_trans split: if_splits)
qed (auto intro: guarded.start)

section \<open>What the servers answered before each item\<close>

text \<open>
  The answers that a removal can rest on at the checkpoint of an item: those the operation's guard had kept, and those
  given at the checkpoint of an item of the removal up to this one.
\<close>

definition known_by ::
  "(int \<Rightarrow> int \<Rightarrow> int) \<Rightarrow> (int \<Rightarrow> int \<Rightarrow> fetched) \<Rightarrow> playback_guard \<Rightarrow> int list \<Rightarrow> answer_history" where
  "known_by clock fetch g items c taken snap \<longleftrightarrow>
     (c, taken, snap) \<in> set (guard_snapshots g) \<or>
     (\<exists>j \<in> set items. taken = clock j c \<and> snap = fetched_snapshot (fetch j c))"

lemma known_by_mono: "known_by clock fetch g js c taken snap \<Longrightarrow> set js \<subseteq> set js' \<Longrightarrow> known_by clock fetch g js' c taken snap"
  unfolding known_by_def by blast

lemma known_by_now: "j \<in> set js \<Longrightarrow> known_by clock fetch g js c (clock j c) (fetched_snapshot (fetch j c))"
  unfolding known_by_def by blast

lemma known_by_start: "answers_from (known_by clock fetch g js) g"
  unfolding answers_from_def known_by_def by blast

text \<open>The checkpoint of one item.\<close>

definition item_checkpoint ::
  "(int \<Rightarrow> int \<Rightarrow> int) \<Rightarrow> (int \<Rightarrow> int \<Rightarrow> fetched) \<Rightarrow> (int \<Rightarrow> string option) \<Rightarrow> service \<Rightarrow> int option \<Rightarrow> bool \<Rightarrow> int \<Rightarrow>
   playback_operation \<Rightarrow> deferral option \<times> playback_operation" where
  "item_checkpoint clock fetch lookup serv cid files_only i op =
     (if some_text (lookup i) then playback_checkpoint (clock i) (fetch i) [(or_empty (lookup i), Some serv, cid, \<not> files_only)] op
      else unavailable_removal_scope (clock i) (fetch i) op)"

lemma guard_arr_items_Cons:
  assumes "guard_arr_items clock fetch lookup serv cid files_only (j # ids) op = (None, op')"
  obtains op1 where "item_checkpoint clock fetch lookup serv cid files_only j op = (None, op1)"
    "guard_arr_items clock fetch lookup serv cid files_only ids op1 = (None, op')"
proof -
  obtain d op1 where f: "item_checkpoint clock fetch lookup serv cid files_only j op = (d, op1)" by force
  have "(if d \<noteq> None then (d, op1) else guard_arr_items clock fetch lookup serv cid files_only ids op1) = (None, op')"
    using assms unfolding guard_arr_items.simps item_checkpoint_def[symmetric] f Let_def prod.case .
  with f that show thesis by (auto split: if_splits)
qed

lemma item_checkpoint_keeps:
  assumes "item_checkpoint clock fetch lookup serv cid files_only i op = (None, op1)"
    and "answers_from (known_by clock fetch g js) (op_guard op)" "i \<in> set js"
  shows "guarded op op1" "answers_from (known_by clock fetch g js) (op_guard op1)"
  using assms checkpoint_guarded checkpoint_answers[where P = "known_by clock fetch g js" and clock = "clock i" and fetch = "fetch i"]
    known_by_now[OF assms(3)]
  by (auto simp: item_checkpoint_def unavailable_removal_scope_def split: if_splits)

lemma item_checkpoint_target:
  assumes "item_checkpoint clock fetch lookup serv cid files_only i op = (None, op1)"
  shows "covers_target (op_target op1) (op_target op)"
    and "defer_when_unavailable (op_guard op1) = defer_when_unavailable (op_guard op)"
  using assms checkpoint_defers_frame
  by (auto simp: item_checkpoint_def unavailable_removal_scope_def playback_checkpoint_def Let_def split: if_splits prod.splits)

lemma guard_arr_items_idle:
  assumes "guard_arr_items clock fetch lookup serv cid files_only ids op = (None, op')" "guard_enabled (op_guard op)"
    and "i \<in> set ids" "some_text (lookup i)" "answers_from (known_by clock fetch g before) (op_guard op)"
  shows "shown_idle (known_by clock fetch g (before @ takeWhile (\<lambda>j. j \<noteq> i) ids @ [i])) (clock i) (op_guard op)
    (add_paths [(or_empty (lookup i), Some serv, cid, \<not> files_only)] (op_target op))"
  using assms
proof (induction ids arbitrary: op before)
  case (Cons j ids)
  let ?P = "known_by clock fetch g (before @ takeWhile (\<lambda>j. j \<noteq> i) (j # ids) @ [i])"
  obtain op1 where f: "item_checkpoint clock fetch lookup serv cid files_only j op = (None, op1)"
    and r: "guard_arr_items clock fetch lookup serv cid files_only ids op1 = (None, op')"
    by (rule guard_arr_items_Cons[OF Cons.prems(1)])
  show ?case
  proof (cases "j = i")
    case True
    have "answers_from ?P (op_guard op)" using Cons.prems(5) by (rule answers_from_mono) (erule known_by_mono, auto)
    moreover have "playback_checkpoint (clock i) (fetch i) [(or_empty (lookup i), Some serv, cid, \<not> files_only)] op = (None, op1)"
      using f Cons.prems(4) unfolding item_checkpoint_def True by simp
    ultimately show ?thesis using Cons.prems(2) by (intro passed_checkpoint_shows_idle[where P = ?P]) (auto intro: known_by_now)
  next
    case False
    have "answers_from (known_by clock fetch g (before @ [j])) (op_guard op)"
      using Cons.prems(5) by (rule answers_from_mono) (erule known_by_mono, auto)
    note k = item_checkpoint_keeps[OF f this]
    have g: "guarded op op1" using k(1) by simp
    have wider: "covers_target (add_paths ps (op_target op1)) (add_paths ps (op_target op))" for ps
      using item_checkpoint_target[OF f] by (auto simp: covers_target_def add_paths_def)
    have "shown_idle (known_by clock fetch g ((before @ [j]) @ takeWhile (\<lambda>j. j \<noteq> i) ids @ [i])) (clock i) (op_guard op1)
        (add_paths [(or_empty (lookup i), Some serv, cid, \<not> files_only)] (op_target op1))"
      using Cons.prems(2,3,4) False k(2) guarded_frame[OF g] by (intro Cons.IH[OF r]) auto
    then have "shown_idle (known_by clock fetch g ((before @ [j]) @ takeWhile (\<lambda>j. j \<noteq> i) ids @ [i])) (clock i) (op_guard op1)
        (add_paths [(or_empty (lookup i), Some serv, cid, \<not> files_only)] (op_target op))"
      by (rule shown_idle_mono[OF _ _ wider])
    then show ?thesis
      using False guarded_frame[OF g] item_checkpoint_target[OF f] shown_idle_cong[of "op_guard op1" "op_guard op"] by simp
  qed
qed simp

text \<open>C21: Radarr and Sonarr remove what was checked.  Where the guard is active and the settings defer what cannot be
  checked, a removal that goes on has a path for every item, each path has become part of the operation's target, and for
  each server there is a record, less than thirty seconds old at the item's checkpoint, in which no session plays
  anything of the operation's target, that path or, for an entry with its folder, anything inside it; the record of a
  server of the target is an answer and no failure.  The record is one the operation had kept before, or one given at
  the checkpoint of this item or of an earlier one.\<close>

theorem removal_scope_was_checked:
  assumes "guard_arr_removal clock fetch lookup serv cid files_only ids op = (None, op')"
    and "\<not> inactive op" "defer_when_unavailable (op_guard op)" "i \<in> set ids"
  shows "\<exists>path. lookup i = Some path \<and> path \<noteq> [] \<and>
    (path, Some serv, cid, \<not> files_only) \<in> set (target_paths (op_target op')) \<and>
    shown_idle (known_by clock fetch (op_guard op) (takeWhile (\<lambda>j. j \<noteq> i) (uniq ids) @ [i])) (clock i) (op_guard op)
      (add_paths [(path, Some serv, cid, \<not> files_only)] (op_target op))"
proof -
  have r: "guard_arr_items clock fetch lookup serv cid files_only (uniq ids) op = (None, op')"
    using assms(1,2) by (simp add: guard_arr_removal_def)
  have i: "i \<in> set (uniq ids)" using assms(4) by simp
  with guard_arr_items_checked[OF r] assms(3) have l: "some_text (lookup i)"
    "(or_empty (lookup i), Some serv, cid, \<not> files_only) \<in> set (target_paths (op_target op'))" by (auto split: if_splits)
  moreover have "lookup i = Some (or_empty (lookup i))" "or_empty (lookup i) \<noteq> []"
    using l(1) by (auto simp: some_text_def or_empty_def split: option.splits)
  moreover have "guard_enabled (op_guard op)" using assms(2) by (simp add: inactive_def)
  moreover note guard_arr_items_idle[OF r _ i l(1) known_by_start[where js = "[]"]]
  ultimately show ?thesis by auto
qed

text \<open>Two entries with their folders; the second is reached a minute later, when the first answer is too old.\<close>

definition demo_removal :: "deferral option \<times> playback_operation" where
  "demo_removal = guard_arr_removal (\<lambda>i _. i * 10000000) (\<lambda>i. demo_fetch (if i = 5 then ''/m/c/x.mkv'' else ''/m/b.mkv''))
     (\<lambda>i. Some (if i = 5 then ''/m/a'' else ''/m/c'')) RADARR (Some 3) False [5, 11] demo_operation"

lemma removal_scope_was_checked_witness:
  "fst demo_removal = None \<and>
   (''/m/c'', Some RADARR, Some 3, True) \<in> set (target_paths (op_target (snd demo_removal))) \<and>
   shown_idle (known_by (\<lambda>i _. i * 10000000) (\<lambda>i. demo_fetch (if i = 5 then ''/m/c/x.mkv'' else ''/m/b.mkv''))
       demo_guard [5, 11]) (\<lambda>_. 110000000) demo_guard
     (add_paths [(''/m/c'', Some RADARR, Some 3, True)] (op_target demo_operation))"
proof -
  have n: "fst demo_removal = None" by code_simp
  then have r: "demo_removal = (None, snd demo_removal)" by (metis prod.collapse)
  have "\<not> inactive demo_operation" "defer_when_unavailable (op_guard demo_operation)" by code_simp+
  from removal_scope_was_checked[OF r[unfolded demo_removal_def] this, of 11] n show ?thesis
    unfolding demo_removal_def by (simp add: uniq_def demo_operation_def)
qed

end
