(* ===== verification/Arr_Routing.thy ===== *)
theory Arr_Routing
  imports Rule_Actions
begin

text \<open>
  What the matched rules of a candidate ask of Radarr and Sonarr: the action, the instances, the
  quality profile, moving instead of deleting, and the managed tag (the helpers of
  \<open>backend/tasks/cleanup.py\<close> around \<open>_get_arr_action\<close>).  The rules are a dictionary
  from the rule's number to its action; a rule without one has the empty action.
\<close>

section \<open>Actions\<close>

datatype arr_action =
  Change_Quality_Profile | Unmonitor_Only | Unmonitor | Monitor_New_Seasons | Monitor_Or_Exclude | List_Exclusion
| Delete_Entry | Remove_If_Empty

definition arr_action_text :: "arr_action \<Rightarrow> string" where
  "arr_action_text a =
     (case a of
        Change_Quality_Profile \<Rightarrow> ''change_quality_profile'' | Unmonitor_Only \<Rightarrow> ''unmonitor_only''
      | Unmonitor \<Rightarrow> ''unmonitor'' | Monitor_New_Seasons \<Rightarrow> ''unmonitor_delete_monitor_new_seasons''
      | Monitor_Or_Exclude \<Rightarrow> ''unmonitor_delete_monitor_or_exclude''
      | List_Exclusion \<Rightarrow> ''unmonitor_delete_list_exclusion'' | Delete_Entry \<Rightarrow> ''delete''
      | Remove_If_Empty \<Rightarrow> ''remove_if_empty'')"

type_synonym rule_table = "(int \<times> pyval dict option) list"

definition action_of :: "pyval dict option \<Rightarrow> pyval dict" where
  "action_of a = (case a of None \<Rightarrow> [] | Some d \<Rightarrow> d)"

text \<open>The actions of the matched rules that exist.\<close>

definition matched_actions :: "rule_table \<Rightarrow> int list \<Rightarrow> pyval dict list" where
  "matched_actions rules ids = map action_of (somes_of (map_of rules) ids)"

lemma matched_actions_append: "matched_actions rules (xs @ ys) = matched_actions rules xs @ matched_actions rules ys"
  by (induction xs) (auto simp: matched_actions_def split: option.splits)

lemma set_matched_actions: "set (matched_actions rules xs) = action_of ` {a. \<exists>i \<in> set xs. map_of rules i = Some a}"
  by (simp add: matched_actions_def set_somes_of)

definition rule_arr_config_ids :: "pyval dict \<Rightarrow> arr_service \<Rightarrow> int set" where
  "rule_arr_config_ids action service = set (get_arr_service_config_ids (Some action) service)"

text \<open>No instances selected by some rule, or no rule at all, means any instance: \<open>None\<close>.\<close>

definition candidate_arr_config_ids :: "rule_table \<Rightarrow> arr_service \<Rightarrow> int list \<Rightarrow> int set option" where
  "candidate_arr_config_ids rules service ids =
     (let actions = matched_actions rules ids
      in if actions = [] \<or> list_ex (\<lambda>a. rule_arr_config_ids a service = {}) actions then None
         else Some (\<Union>a \<in> set actions. rule_arr_config_ids a service))"

definition coerce_arr_delete_fallback :: "string option \<Rightarrow> arr_action" where
  "coerce_arr_delete_fallback v =
     (if v = Some ''remove_if_empty'' then Remove_If_Empty
      else if v = Some ''unmonitor_only'' then Unmonitor_Only else Unmonitor)"

text \<open>The actions in the order in which they win; what no rule names falls through to \<open>delete\<close>.\<close>

definition named_precedence :: "arr_action list" where
  "named_precedence =
     [Change_Quality_Profile, Unmonitor_Only, Unmonitor, Monitor_New_Seasons, Monitor_Or_Exclude, List_Exclusion]"

text \<open>The set of the matched actions needs hashable values.\<close>

definition get_arr_action :: "rule_table \<Rightarrow> arr_action \<Rightarrow> int list \<Rightarrow> arr_action result" where
  "get_arr_action rules default_behavior ids =
     (let values = map (\<lambda>a. dget a ''arr_action'') (matched_actions rules ids)
      in if list_ex (\<lambda>v. \<not> hashable v) values then Raise TypeError
         else Ok (case find (\<lambda>a. List.member values (PStr (arr_action_text a))) named_precedence of
                    Some a \<Rightarrow> a
                  | None \<Rightarrow> if values \<noteq> [] then Delete_Entry else default_behavior))"

definition merge_arr_action :: "arr_action option \<Rightarrow> arr_action \<Rightarrow> arr_action" where
  "merge_arr_action current candidate_action =
     (let given = (\<lambda>a. current = Some a \<or> candidate_action = a)
      in if given Change_Quality_Profile then Change_Quality_Profile
         else if given Unmonitor_Only then Unmonitor_Only
         else if given Unmonitor then Unmonitor
         else if given Monitor_New_Seasons then Monitor_New_Seasons
         else case find given [Monitor_Or_Exclude, List_Exclusion] of
                Some a \<Rightarrow> a
              | None \<Rightarrow> if given Delete_Entry then Delete_Entry else Remove_If_Empty)"

definition asks_for_profile :: "pyval dict \<Rightarrow> (int \<times> bool) option" where
  "asks_for_profile action =
     (if dget action ''arr_action'' \<noteq> PStr (arr_action_text Change_Quality_Profile) then None
      else case dget action ''quality_profile_id'' of
             PInt i \<Rightarrow> if i \<le> 0 then None else Some (i, dget action ''trigger_search'' \<noteq> PBool False)
           | _ \<Rightarrow> None)"

fun first_profile :: "rule_table \<Rightarrow> int list \<Rightarrow> (int \<times> bool) option" where
  "first_profile rules [] = None"
| "first_profile rules (i # ids) =
     (case map_of rules i of
        None \<Rightarrow> first_profile rules ids
      | Some a \<Rightarrow> (case asks_for_profile (action_of a) of None \<Rightarrow> first_profile rules ids | Some r \<Rightarrow> Some r))"

definition quality_profile_target :: "rule_table \<Rightarrow> int list \<Rightarrow> (int \<times> bool) option" where
  "quality_profile_target rules ids = first_profile rules (sort ids)"

definition should_move_instead_of_delete :: "rule_table \<Rightarrow> int list \<Rightarrow> bool" where
  "should_move_instead_of_delete rules ids =
     list_ex (\<lambda>a. dget a ''move_instead_of_delete'' = PBool True) (matched_actions rules ids)"

definition managed_tag_for_rule :: "runtime \<Rightarrow> pyval dict option \<Rightarrow> string option" where
  "managed_tag_for_rule rt rule_action =
     (let action = action_of rule_action; raw = dget action ''arr_tag'';
          tag = py_lower (py_strip (if truthy raw then py_str rt raw else []))
      in if dget_or action ''tag_enabled'' (PBool True) = PBool False then None
         else if tag = [] then None
         else Some (if starts_with ''rec-'' tag then tag else ''rec-'' @ tag))"

text \<open>Whether no file is touched by deleting the candidate: a change of profile, or leaving the files alone.\<close>

definition keeps_files :: "rule_table \<Rightarrow> arr_action \<Rightarrow> int list \<Rightarrow> bool result" where
  "keeps_files rules fallback ids =
     (if quality_profile_target rules ids \<noteq> None then Ok True
      else if should_move_instead_of_delete rules ids then Ok False
      else rbind (get_arr_action rules fallback ids) (\<lambda>a. Ok (a = Unmonitor_Only)))"

section \<open>Merging and resolving agree\<close>

text \<open>\<open>remove_if_empty\<close> cannot come from a rule, so the first seven actions are what rules resolve to.\<close>

definition ranked :: "arr_action \<Rightarrow> nat" where
  "ranked a = (case a of Change_Quality_Profile \<Rightarrow> 0 | Unmonitor_Only \<Rightarrow> 1 | Unmonitor \<Rightarrow> 2 | Monitor_New_Seasons \<Rightarrow> 3
     | Monitor_Or_Exclude \<Rightarrow> 4 | List_Exclusion \<Rightarrow> 5 | Delete_Entry \<Rightarrow> 6 | Remove_If_Empty \<Rightarrow> 7)"

lemma merge_ranked: "merge_arr_action (Some a) b = (if ranked a \<le> ranked b then a else b)"
  by (cases a; cases b) (simp_all add: merge_arr_action_def ranked_def)

lemma ranked_inj: "ranked a = ranked b \<Longrightarrow> a = b"
  by (cases a; cases b) (simp_all add: ranked_def)

lemma arr_action_text_inj: "arr_action_text a = arr_action_text b \<Longrightarrow> a = b"
  by (cases a; cases b) (simp_all add: arr_action_text_def)

definition resolved_from :: "pyval list \<Rightarrow> arr_action" where
  "resolved_from values =
     (case find (\<lambda>a. List.member values (PStr (arr_action_text a))) named_precedence of Some a \<Rightarrow> a | None \<Rightarrow> Delete_Entry)"

lemma get_arr_action_resolved:
  "get_arr_action rules d ids = Ok a \<Longrightarrow> matched_actions rules ids \<noteq> [] \<Longrightarrow>
   a = resolved_from (map (\<lambda>a. dget a ''arr_action'') (matched_actions rules ids))"
  by (auto simp: get_arr_action_def resolved_from_def Let_def split: if_splits option.splits)

lemma resolved_append: "resolved_from (xs @ ys) = merge_arr_action (Some (resolved_from xs)) (resolved_from ys)"
proof -
  have m: "List.member (xs @ ys) v \<longleftrightarrow> List.member xs v \<or> List.member ys v" for v by simp
  show ?thesis
    unfolding merge_ranked by (simp add: resolved_from_def named_precedence_def m ranked_def)
qed

lemma get_arr_action_hashable:
  "matched_actions rules ids \<noteq> [] \<Longrightarrow>
   get_arr_action rules d ids =
     (if list_all (\<lambda>a. hashable (dget a ''arr_action'')) (matched_actions rules ids)
      then Ok (resolved_from (map (\<lambda>a. dget a ''arr_action'') (matched_actions rules ids))) else Raise TypeError)"
  by (auto simp: get_arr_action_def resolved_from_def Let_def list_ex_iff list_all_iff split: option.splits)

text \<open>C22: the action taken for an item that several candidates reach is the one its rules ask for together.
  Resolving the action of the rules of both candidates gives what merging the two resolved actions
  gives, where each candidate has a rule that exists; and an action that is not hashable fails in either order of work.\<close>

theorem resolving_is_merging:
  assumes "matched_actions rules xs \<noteq> []" "matched_actions rules ys \<noteq> []"
  shows "get_arr_action rules d (xs @ ys) =
    rbind (get_arr_action rules d xs) (\<lambda>a. rbind (get_arr_action rules d ys) (\<lambda>b. Ok (merge_arr_action (Some a) b)))"
  using assms by (simp add: get_arr_action_hashable matched_actions_append resolved_append)

definition demo_rules :: rule_table where
  "demo_rules =
     [(1, Some [(''arr_action'', PStr ''unmonitor'')]), (2, Some [(''arr_action'', PStr ''unmonitor_only'')]), (3, None),
      (4, Some [(''arr_action'', PStr ''change_quality_profile''), (''quality_profile_id'', PInt 7)])]"

lemma resolving_is_merging_witness:
  "get_arr_action demo_rules Unmonitor ([1, 3] @ [2]) =
     rbind (get_arr_action demo_rules Unmonitor [1, 3])
       (\<lambda>a. rbind (get_arr_action demo_rules Unmonitor [2]) (\<lambda>b. Ok (merge_arr_action (Some a) b))) \<and>
   get_arr_action demo_rules Unmonitor [1, 3, 2] = Ok Unmonitor_Only"
proof (intro conjI)
  show "get_arr_action demo_rules Unmonitor [1, 3, 2] = Ok Unmonitor_Only" by code_simp
qed (rule resolving_is_merging; code_simp)

end
