(* ===== verification/Rule_Use.thy ===== *)
theory Rule_Use
  imports Rule_Eval Rule_Fields Candidate_Lifecycle Arr_Routing
begin

text \<open>
  What a scan has to know of a rule before it evaluates it: its outcome and its target
  (\<open>core/rule_engine.py\<close>), and which outside data its conditions read (the \<open>_rule_uses_\<close> and
  \<open>_rules_use_\<close> helpers of \<open>tasks/cleanup.py\<close>).
\<close>

section \<open>Rules\<close>

record reclaim_rule = rule_row +
  rule_name :: string
  rule_media_type :: media_type
  rule_target_scope :: string
  rule_definition :: pyval

definition normalize_outcome_value :: "pyval \<Rightarrow> string" where
  "normalize_outcome_value v =
     (if v = PStr ''protect'' then ''protect'' else if v = PStr ''match'' then ''match'' else ''candidate'')"

definition normalize_rule_outcome :: "reclaim_rule \<Rightarrow> string" where
  "normalize_rule_outcome r = normalize_outcome_value (dget (action_of (rule_action r)) ''outcome'')"

definition normalize_rule_target :: "reclaim_rule \<Rightarrow> string" where
  "normalize_rule_target r =
     (if List.member valid_target_scopes (rule_target_scope r) then rule_target_scope r
      else if rule_media_type r = MOVIE then ''movie_version'' else ''series'')"

lemma outcome_cases: "normalize_rule_outcome r \<in> {''protect'', ''match'', ''candidate''}"
  by (simp add: normalize_rule_outcome_def normalize_outcome_value_def)

lemma target_cases: "normalize_rule_target r \<in> {''movie_version'', ''series'', ''season'', ''episode''}"
  by (auto simp: normalize_rule_target_def valid_target_scopes_def)

section \<open>Which data a rule reads\<close>

definition rule_uses :: "runtime \<Rightarrow> string list \<Rightarrow> reclaim_rule \<Rightarrow> bool" where
  "rule_uses rt names r \<longleftrightarrow> list_ex (\<lambda>f. collect_rule_conditions rt (Some f) (rule_definition r) \<noteq> []) names"

definition rules_use_field :: "runtime \<Rightarrow> reclaim_rule list \<Rightarrow> string \<Rightarrow> bool" where
  "rules_use_field rt rs name \<longleftrightarrow> list_ex (rule_uses rt [name]) rs"

definition rules_use_any_field :: "runtime \<Rightarrow> reclaim_rule list \<Rightarrow> string list \<Rightarrow> bool" where
  "rules_use_any_field rt rs names \<longleftrightarrow> list_ex (rules_use_field rt rs) names"

definition rule_uses_sonarr_fields :: "runtime \<Rightarrow> reclaim_rule \<Rightarrow> bool" where
  "rule_uses_sonarr_fields rt = rule_uses rt sonarr_rule_fields"

definition rule_uses_playback_fields :: "runtime \<Rightarrow> reclaim_rule \<Rightarrow> bool" where
  "rule_uses_playback_fields rt = rule_uses rt (all_playback_rule_fields @ user_scoped_playback_fields)"

definition watch_sensitive_rule_fields :: "string list" where
  "watch_sensitive_rule_fields =
     [''seerr.requester_has_watched'', ''seerr.requester_watched_after_request'', ''season.fully_watched'',
      ''season.watched_percent'', ''series.fully_watched'', ''series.watched_percent'',
      ''playback.fully_watched_usernames''] @ season_partial_viewer_fields @
     [''watch.view_count'', ''watch.last_viewed_at'', ''watch.days_since_last_watched'', ''watch.never_watched'']"

definition rule_uses_watch_sensitive_fields :: "runtime \<Rightarrow> reclaim_rule \<Rightarrow> bool" where
  "rule_uses_watch_sensitive_fields rt r \<longleftrightarrow>
     rule_uses_playback_fields rt r \<or> rule_uses rt watch_sensitive_rule_fields r"

definition rule_uses_seerr_fields :: "runtime \<Rightarrow> reclaim_rule \<Rightarrow> bool" where
  "rule_uses_seerr_fields rt =
     rule_uses rt [''seerr.requested'', ''seerr.requested_by_user_ids'', ''seerr.requester_has_watched'',
       ''seerr.requester_watched_after_request'', ''seerr.last_requested_at'', ''seerr.days_since_last_requested'']"

definition rule_uses_season_episode_watch_fields :: "runtime \<Rightarrow> reclaim_rule \<Rightarrow> bool" where
  "rule_uses_season_episode_watch_fields rt = rule_uses rt episode_watch_progress_fields"

text \<open>
  Whether a decision about a show rests on how its episodes are numbered: its target is a season or an
  episode, or a rule counts watched or added episodes.  Not for what is only protected.
\<close>

definition candidate_uses_episode_numbering ::
  "runtime \<Rightarrow> (int \<times> reclaim_rule) list \<Rightarrow> int option \<Rightarrow> int option \<Rightarrow> int option \<Rightarrow> int list \<Rightarrow> bool" where
  "candidate_uses_episode_numbering rt by_id in_series in_season in_episode ids =
     (let matched = somes_of (map_of by_id) ids
      in if in_series = None \<or> in_series = Some 0 then False
         else if matched \<noteq> [] \<and> list_all (\<lambda>r. normalize_rule_outcome r = ''protect'') matched then False
         else if in_season \<noteq> None \<or> in_episode \<noteq> None then True
         else list_ex (rule_uses_watch_sensitive_fields rt) matched \<or>
              rules_use_any_field rt matched [''arr.days_since_file_added''])"

definition rules_by_id :: "reclaim_rule list \<Rightarrow> (int \<times> reclaim_rule) list" where
  "rules_by_id rs = dupdate [] (map (\<lambda>r. (rule_id r, r)) rs)"

lemma map_of_rules_by_id: "map_of (rules_by_id rs) i = Some r \<Longrightarrow> r \<in> set rs \<and> rule_id r = i"
  unfolding rules_by_id_def by (auto dest: map_of_dupdate_in)

end
