(* ===== verification/Candidate_Scan.thy ===== *)
theory Candidate_Scan
  imports Rule_Use Playback_Target
begin

text \<open>
  The first half of a cleanup scan: which media the rules are tried on, and the records of what they
  match (\<open>_collect_movie_version_candidate_records\<close> and its three siblings in
  \<open>tasks/cleanup.py\<close>).  The library is the tree of rows that the queries load, with the columns that
  are read here; what else a condition reads of a title, its context, is a parameter, as in
  \<open>Rule_Eval\<close>.
\<close>

section \<open>The library\<close>

record scan_version = media_version +
  version_size :: "int option"

record scan_movie =
  movie_no :: int
  movie_tmdb :: "int option"
  movie_removed :: bool
  movie_size :: "int option"
  movie_versions :: "scan_version list"

record scan_episode = media_episode +
  episode_number :: int
  episode_size :: "int option"

record scan_season = media_season +
  season_number :: int
  season_size :: "int option"
  season_episode_count :: "int option"
  season_episodes :: "scan_episode list"

record scan_series =
  series_no :: int
  series_tmdb :: "int option"
  series_removed :: bool
  series_size :: "int option"
  series_seasons :: "scan_season list"

record scan_library =
  scan_movies :: "scan_movie list"
  scan_shows :: "scan_series list"
  scan_episode_versions :: "media_version list"

text \<open>What a rule is tried on.\<close>

datatype scan_target =
  Version_Target scan_movie scan_version
| Series_Target scan_series
| Season_Target scan_series scan_season
| Episode_Target scan_series scan_season scan_episode

type_synonym evaluator = "reclaim_rule \<Rightarrow> scan_target \<Rightarrow> (bool \<times> findings) result"

text \<open>\<open>evaluate_advanced_rule\<close> as it is called: the context is built for a definition that has a condition.\<close>

definition rule_verdict ::
  "runtime \<Rightarrow> alias_map option \<Rightarrow> (bool \<Rightarrow> scan_target \<Rightarrow> eval_context result) \<Rightarrow> evaluator" where
  "rule_verdict rt al ctx r t =
     (case rule_root (rule_definition r) of
        None \<Rightarrow> Ok (False, [], [])
      | Some n \<Rightarrow>
          if \<not> has_enabled_condition n then Ok (False, [], [])
          else rbind (ctx (rule_uses_disk_fields rt (rule_definition r)) t)
                 (\<lambda>c. evaluate_advanced_rule rt al c (rule_definition r)))"

section \<open>Reasons\<close>

definition append_rule_reason ::
  "runtime \<Rightarrow> reclaim_rule \<Rightarrow> string \<Rightarrow> string option \<Rightarrow> pyval dict list \<Rightarrow> pyval dict list \<Rightarrow> pyval dict list" where
  "append_rule_reason rt r scope_name label conditions reasons =
     (if conditions = [] then reasons
      else let label_text = (if label = None \<or> label = Some [] then rule_name r
                             else rule_name r @ '' ('' @ the label @ '')'');
               displays = filter (\<lambda>s. s \<noteq> [])
                 (map (\<lambda>c. py_strip (py_str rt (dget_or c ''display'' (PStr [])))) conditions);
               summary = join '', '' displays
           in reasons @
              [[(''rule_id'', PInt (rule_id r)), (''rule_name'', PStr (rule_name r)), (''target_scope'', PStr scope_name),
                (''season_label'', (case label of None \<Rightarrow> PNone | Some l \<Rightarrow> PStr l)),
                (''conditions'', PList (map PDict conditions)),
                (''text'', PStr (if summary \<noteq> [] then label_text @ '': '' @ summary else label_text))]])"

definition rule_reason_text :: "runtime \<Rightarrow> pyval dict list \<Rightarrow> string" where
  "rule_reason_text rt reasons =
     (let tokens = filter (\<lambda>s. s \<noteq> []) (map (\<lambda>p. py_strip (py_str rt (dget_or p ''text'' (PStr [])))) reasons)
      in if tokens \<noteq> [] then join '' | '' tokens else ''Matched cleanup rule'')"

text \<open>\<open>{n:02d}\<close>\<close>

definition two_digits :: "int \<Rightarrow> string" where
  "two_digits n = (if 0 \<le> n \<and> n < 10 then ''0'' @ show_int n else show_int n)"

section \<open>One rule on one target\<close>

text \<open>The criteria and the reasons that the rules before have left.\<close>

type_synonym match_state = "pyval dict \<times> pyval dict list"

definition nonzero :: "int option \<Rightarrow> int option" where
  "nonzero s = (if s = Some 0 then None else s)"

definition version_or_movie_size :: "scan_movie \<Rightarrow> scan_version \<Rightarrow> int option" where
  "version_or_movie_size m v =
     (case version_size v of None \<Rightarrow> movie_size m | Some s \<Rightarrow> if s > 0 then Some s else movie_size m)"

fun target_scope_name :: "scan_target \<Rightarrow> string" where
  "target_scope_name (Version_Target _ _) = ''movie_version''"
| "target_scope_name (Series_Target _) = ''series''"
| "target_scope_name (Season_Target _ _) = ''season''"
| "target_scope_name (Episode_Target _ _ _) = ''episode''"

text \<open>A version or a season without a size cannot be reclaimed.\<close>

fun target_can_match :: "scan_target \<Rightarrow> bool" where
  "target_can_match (Version_Target m v) = (nonzero (version_or_movie_size m v) \<noteq> None)"
| "target_can_match (Season_Target s se) = (nonzero (season_size se) \<noteq> None)"
| "target_can_match _ = True"

fun target_label :: "scan_target \<Rightarrow> string option" where
  "target_label (Season_Target s se) = Some (''S'' @ two_digits (season_number se))"
| "target_label (Episode_Target s se e) =
     Some (''S'' @ two_digits (season_number se) @ ''E'' @ two_digits (episode_number e))"
| "target_label _ = None"

fun target_criteria :: "scan_target \<Rightarrow> pyval dict" where
  "target_criteria (Version_Target m v) = [(''media_version_id'', PInt (mv_id v)), (''movie_id'', PInt (movie_no m))]"
| "target_criteria _ = []"

definition evaluate_rule_for :: "runtime \<Rightarrow> evaluator \<Rightarrow> scan_target \<Rightarrow> reclaim_rule \<Rightarrow> match_state \<Rightarrow> (bool \<times> match_state) result" where
  "evaluate_rule_for rt ev t r st =
     (if normalize_rule_target r \<noteq> target_scope_name t \<or> \<not> target_can_match t then Ok (False, st)
      else rbind (ev r t) (\<lambda>(matched, criteria, conditions).
             if \<not> matched then Ok (False, st)
             else Ok (True, dupdate (dupdate (fst st) criteria) (target_criteria t),
                      append_rule_reason rt r (target_scope_name t) (target_label t) conditions (snd st))))"

fun match_rules ::
  "(reclaim_rule \<Rightarrow> match_state \<Rightarrow> (bool \<times> match_state) result) \<Rightarrow> reclaim_rule list \<Rightarrow> match_state \<Rightarrow>
   (int list \<times> match_state) result" where
  "match_rules f [] st = Ok ([], st)"
| "match_rules f (r # rs) st =
     rbind (f r st) (\<lambda>(m, st').
       rbind (match_rules f rs st') (\<lambda>(ids, st'').
         Ok (if m then rule_id r # ids else ids, st'')))"

section \<open>Records\<close>

record matched_record = scope +
  record_type :: media_type
  record_movie :: "int option"
  record_series :: "int option"
  record_rule_ids :: "int list"
  record_criteria :: "pyval dict"
  record_reason :: string
  record_reason_data :: "pyval dict list"
  record_size :: "int option"

fun target_size :: "scan_target \<Rightarrow> int option" where
  "target_size (Version_Target m v) = nonzero (version_or_movie_size m v)"
| "target_size (Series_Target s) = nonzero (series_size s)"
| "target_size (Season_Target s se) = nonzero (season_size se)"
| "target_size (Episode_Target s se e) = nonzero (episode_size e)"

fun target_scope :: "scan_target \<Rightarrow> scope" where
  "target_scope (Version_Target m v) = \<lparr>movie_version_id = Some (mv_id v), season_id = None, episode_id = None\<rparr>"
| "target_scope (Series_Target s) = \<lparr>movie_version_id = None, season_id = None, episode_id = None\<rparr>"
| "target_scope (Season_Target s se) = \<lparr>movie_version_id = None, season_id = Some (ms_id se), episode_id = None\<rparr>"
| "target_scope (Episode_Target s se e) =
     \<lparr>movie_version_id = None, season_id = Some (ms_id se), episode_id = Some (me_id e)\<rparr>"

fun target_movie :: "scan_target \<Rightarrow> int option" where
  "target_movie (Version_Target m v) = Some (movie_no m)"
| "target_movie _ = None"

fun target_series :: "scan_target \<Rightarrow> int option" where
  "target_series (Version_Target m v) = None"
| "target_series (Series_Target s) = Some (series_no s)"
| "target_series (Season_Target s se) = Some (series_no s)"
| "target_series (Episode_Target s se e) = Some (series_no s)"

definition target_type :: "scan_target \<Rightarrow> media_type" where
  "target_type t = (if target_movie t = None then SERIES else MOVIE)"

definition record_for :: "runtime \<Rightarrow> scan_target \<Rightarrow> int list \<times> match_state \<Rightarrow> matched_record option" where
  "record_for rt t m =
     (let (ids, criteria, reasons) = m
      in if ids = [] then None
         else Some (scope.extend (target_scope t)
           \<lparr>record_type = target_type t, record_movie = target_movie t, record_series = target_series t,
            record_rule_ids = ids, record_criteria = criteria, record_reason = rule_reason_text rt reasons,
            record_reason_data = reasons, record_size = target_size t\<rparr>))"

definition collect_from :: "runtime \<Rightarrow> evaluator \<Rightarrow> reclaim_rule list \<Rightarrow> scan_target list \<Rightarrow> matched_record list result" where
  "collect_from rt ev rs targets =
     rbind (rmap (\<lambda>t. rbind (match_rules (evaluate_rule_for rt ev t) rs ([], [])) (\<lambda>m. Ok (record_for rt t m))) targets)
       (\<lambda>found. Ok (somes found))"

section \<open>Favourites and protections\<close>

text \<open>The settings row: whether favourites are left alone, of all users, and the named users.\<close>

definition load_favorites_policy :: "runtime \<Rightarrow> (bool \<times> bool \<times> pyval list) option \<Rightarrow> bool \<times> bool \<times> string set" where
  "load_favorites_policy rt settings =
     (case settings of
        None \<Rightarrow> (False, False, {})
      | Some (enabled, all_users, names) \<Rightarrow>
          (enabled, all_users,
           set (map (\<lambda>v. py_lower (py_strip (py_str rt v))) (filter (\<lambda>v. py_strip (py_str rt v) \<noteq> []) names))))"

record media_favorite =
  favorite_type :: media_type
  favorite_tmdb :: "int option"
  favorite_username :: string

definition load_favorite_tmdb_ids :: "media_favorite list \<Rightarrow> media_type \<Rightarrow> bool \<Rightarrow> string set \<Rightarrow> int set" where
  "load_favorite_tmdb_ids favs t all_users names =
     (if \<not> all_users \<and> names = {} then {}
      else set (somes (map favorite_tmdb
             (filter (\<lambda>f. favorite_type f = t \<and> (all_users \<or> favorite_username f \<in> names)) favs))))"

record scan_options =
  exclude_favorites :: bool
  exclude_protected :: bool
  only_targets :: "int set option"

text \<open>What a scan reads besides the library.\<close>

record scan_inputs =
  scan_now :: int
  favorites_settings :: "(bool \<times> bool \<times> pyval list) option"
  favorite_rows :: "media_favorite list"

definition favorite_ids :: "runtime \<Rightarrow> scan_inputs \<Rightarrow> scan_options \<Rightarrow> media_type \<Rightarrow> int set" where
  "favorite_ids rt i opts t =
     (let (enabled, all_users, names) = load_favorites_policy rt (favorites_settings i)
      in if enabled \<and> exclude_favorites opts then load_favorite_tmdb_ids (favorite_rows i) t all_users names else {})"

definition is_favorite :: "int set \<Rightarrow> int option \<Rightarrow> bool" where
  "is_favorite favs tmdb = (case tmdb of None \<Rightarrow> False | Some i \<Rightarrow> i \<in> favs)"

definition wanted :: "scan_options \<Rightarrow> int \<Rightarrow> bool" where
  "wanted opts i = (case only_targets opts of None \<Rightarrow> True | Some s \<Rightarrow> i \<in> s)"

text \<open>The rows a collector respects: those in force, or none when protections do not matter.\<close>

definition respected :: "int \<Rightarrow> scan_options \<Rightarrow> media_type \<Rightarrow> protected_media list \<Rightarrow> protected_media list" where
  "respected now opts t rows =
     (if exclude_protected opts
      then filter (\<lambda>r. protected_type r = t \<and> active_protection now r \<and>
             (if t = MOVIE then protected_movie r \<noteq> None else True)) rows
      else [])"

definition is_series_scope :: "'a scope_scheme \<Rightarrow> bool" where
  "is_series_scope r \<longleftrightarrow> season_id r = None \<and> episode_id r = None"

definition is_season_scope :: "'a scope_scheme \<Rightarrow> bool" where
  "is_season_scope r \<longleftrightarrow> season_id r \<noteq> None \<and> episode_id r = None"

definition is_episode_scope :: "'a scope_scheme \<Rightarrow> bool" where
  "is_episode_scope r \<longleftrightarrow> episode_id r \<noteq> None"

section \<open>Which media a scan looks at\<close>

definition movie_targets :: "runtime \<Rightarrow> scan_inputs \<Rightarrow> scan_options \<Rightarrow> protected_media list \<Rightarrow> scan_library \<Rightarrow> scan_target list" where
  "movie_targets rt i opts rows lib =
     (let favs = favorite_ids rt i opts MOVIE;
          prot = respected (scan_now i) opts MOVIE rows;
          movie_ids = somes (map protected_movie (filter (\<lambda>r. movie_version_id r = None) prot));
          version_ids = somes (map movie_version_id prot)
      in concat (map (\<lambda>m. map (Version_Target m)
               (filter (\<lambda>v. wanted opts (mv_id v) \<and> mv_id v \<notin> set version_ids) (movie_versions m)))
           (filter (\<lambda>m. \<not> movie_removed m \<and> \<not> is_favorite favs (movie_tmdb m) \<and> movie_no m \<notin> set movie_ids) (scan_movies lib))))"

definition has_media_path :: "string option \<Rightarrow> bool" where
  "has_media_path p \<longleftrightarrow> py_strip (or_empty p) \<noteq> []"

definition positive :: "int option \<Rightarrow> bool" where
  "positive n \<longleftrightarrow> (case n of None \<Rightarrow> False | Some k \<Rightarrow> k > 0)"

definition season_holds_media :: "scan_season \<Rightarrow> bool" where
  "season_holds_media se \<longleftrightarrow> positive (season_episode_count se) \<or> positive (season_size se)"

text \<open>The query's \<open>trim\<close> takes away spaces only.\<close>

definition season_in_query :: "scan_season \<Rightarrow> bool" where
  "season_in_query se \<longleftrightarrow> list_ex (\<lambda>c. c \<noteq> CHR '' '') (or_empty (ms_path se)) \<and> season_holds_media se"

definition series_targets :: "runtime \<Rightarrow> scan_inputs \<Rightarrow> scan_options \<Rightarrow> protected_media list \<Rightarrow> scan_library \<Rightarrow> scan_target list" where
  "series_targets rt i opts rows lib =
     (let favs = favorite_ids rt i opts SERIES;
          protected_ids = somes (map protected_series (respected (scan_now i) opts SERIES rows))
      in map Series_Target
           (filter (\<lambda>s. \<not> series_removed s \<and> list_ex season_in_query (series_seasons s) \<and> wanted opts (series_no s) \<and>
                        \<not> is_favorite favs (series_tmdb s) \<and> series_no s \<notin> set protected_ids) (scan_shows lib)))"

text \<open>The shows whose seasons or episodes are looked at: not removed, not favourites, not protected as a whole.\<close>

definition open_shows :: "runtime \<Rightarrow> scan_inputs \<Rightarrow> scan_options \<Rightarrow> protected_media list \<Rightarrow> scan_library \<Rightarrow> scan_series list" where
  "open_shows rt i opts rows lib =
     (let favs = favorite_ids rt i opts SERIES;
          protected_ids = somes (map protected_series (filter is_series_scope (respected (scan_now i) opts SERIES rows)))
      in filter (\<lambda>s. \<not> series_removed s \<and> \<not> is_favorite favs (series_tmdb s) \<and> series_no s \<notin> set protected_ids) (scan_shows lib))"

definition protected_seasons :: "int \<Rightarrow> scan_options \<Rightarrow> protected_media list \<Rightarrow> int list" where
  "protected_seasons now opts rows = somes (map season_id (filter is_season_scope (respected now opts SERIES rows)))"

definition season_targets :: "runtime \<Rightarrow> scan_inputs \<Rightarrow> scan_options \<Rightarrow> protected_media list \<Rightarrow> scan_library \<Rightarrow> scan_target list" where
  "season_targets rt i opts rows lib =
     concat (map (\<lambda>s. map (Season_Target s)
         (filter (\<lambda>se. wanted opts (ms_id se) \<and> has_media_path (ms_path se) \<and> season_holds_media se \<and>
                       ms_id se \<notin> set (protected_seasons (scan_now i) opts rows)) (series_seasons s)))
       (open_shows rt i opts rows lib))"

text \<open>What removing a file or an item of an episode also removes: the episodes that share it.\<close>

datatype shared_key = Path_Key string | Item_Key service string | File_Key service string

definition path_keys :: "string option \<Rightarrow> shared_key list" where
  "path_keys p = (if has_media_path p then [Path_Key (normalize_fpath False False (or_empty p))] else [])"

definition episode_keys :: "'a media_episode_scheme \<Rightarrow> (shared_key \<times> int) list" where
  "episode_keys e =
     map (\<lambda>k. (k, me_id e)) (path_keys (me_path e) @ map (\<lambda>(s, i). Item_Key s i) (service_keys (me_keys e)))"

definition version_keys :: "media_version \<Rightarrow> (shared_key \<times> int) list" where
  "version_keys v =
     map (\<lambda>k. (k, mv_media v))
       (path_keys (mv_path v) @ (if mv_item v \<noteq> [] then [Item_Key (mv_service v) (mv_item v)] else []) @
        (if some_text (mv_media_id v) then [File_Key (mv_service v) (or_empty (mv_media_id v))] else []))"

definition episode_file_peers :: "'a media_episode_scheme list \<Rightarrow> media_version list \<Rightarrow> int \<Rightarrow> int list" where
  "episode_file_peers es vs i =
     (let keyed = concat (map episode_keys es) @ concat (map version_keys vs)
      in filter (\<lambda>j. j \<noteq> i \<and> list_ex (\<lambda>(k, j'). j' = j \<and> List.member keyed (k, i)) keyed) (uniq (map snd keyed)))"

definition protected_episodes :: "int \<Rightarrow> scan_options \<Rightarrow> protected_media list \<Rightarrow> scan_library \<Rightarrow> int list" where
  "protected_episodes now opts rows lib =
     (let own = somes (map episode_id (filter is_episode_scope (respected now opts SERIES rows)));
          shows = filter (\<lambda>s. \<not> series_removed s \<and>
                    list_ex (\<lambda>se. list_ex (\<lambda>e. wanted opts (me_id e)) (season_episodes se)) (series_seasons s)) (scan_shows lib);
          es = concat (map season_episodes (concat (map series_seasons shows)));
          vs = filter (\<lambda>v. List.member (map me_id es) (mv_media v)) (scan_episode_versions lib)
      in own @ concat (map (episode_file_peers es vs) own))"

definition episode_targets :: "runtime \<Rightarrow> scan_inputs \<Rightarrow> scan_options \<Rightarrow> protected_media list \<Rightarrow> scan_library \<Rightarrow> scan_target list" where
  "episode_targets rt i opts rows lib =
     concat (map (\<lambda>s. concat (map (\<lambda>se. map (Episode_Target s se)
           (filter (\<lambda>e. wanted opts (me_id e) \<and> has_media_path (me_path e) \<and>
                        me_id e \<notin> set (protected_episodes (scan_now i) opts rows lib)) (season_episodes se)))
         (filter (\<lambda>se. ms_id se \<notin> set (protected_seasons (scan_now i) opts rows)) (series_seasons s))))
       (open_shows rt i opts rows lib))"

section \<open>What is on record\<close>

lemma match_rules_sound:
  assumes "match_rules (evaluate_rule_for rt ev t) rs st = Ok (ids, st')" and "i \<in> set ids"
  shows "\<exists>r \<in> set rs. rule_id r = i \<and> normalize_rule_target r = target_scope_name t \<and> target_can_match t \<and>
    (\<exists>fs. ev r t = Ok (True, fs))"
  using assms
proof (induction rs arbitrary: st ids st')
  case (Cons r rs)
  from Cons.prems(1) obtain m st1 js st2 where f: "evaluate_rule_for rt ev t r st = Ok (m, st1)"
    and rest: "match_rules (evaluate_rule_for rt ev t) rs st1 = Ok (js, st2)" and ids: "ids = (if m then rule_id r # js else js)"
    by (auto simp: rbind_Ok_iff split: prod.splits)
  show ?case
  proof (cases "i \<in> set js")
    case True
    with Cons.IH[OF rest] show ?thesis by auto
  next
    case False
    with Cons.prems(2) ids have "m" "i = rule_id r" by (auto split: if_splits)
    with f show ?thesis by (fastforce simp: evaluate_rule_for_def rbind_Ok_iff split: if_splits prod.splits)
  qed
qed simp

text \<open>The rules a record names are those that match its target, in their order.\<close>

definition rule_hits :: "evaluator \<Rightarrow> scan_target \<Rightarrow> reclaim_rule \<Rightarrow> bool" where
  "rule_hits ev t r \<longleftrightarrow> normalize_rule_target r = target_scope_name t \<and> target_can_match t \<and>
     (case ev r t of Ok (matched, _) \<Rightarrow> matched | Raise _ \<Rightarrow> False)"

lemma match_rules_exact:
  "match_rules (evaluate_rule_for rt ev t) rs st = Ok (ids, st') \<Longrightarrow> ids = map rule_id (filter (rule_hits ev t) rs)"
proof (induction rs arbitrary: st ids st')
  case (Cons r rs)
  from Cons.prems obtain m st1 js st2 where f: "evaluate_rule_for rt ev t r st = Ok (m, st1)"
    and rest: "match_rules (evaluate_rule_for rt ev t) rs st1 = Ok (js, st2)" and ids: "ids = (if m then rule_id r # js else js)"
    by (auto simp: rbind_Ok_iff split: prod.splits)
  have "m = rule_hits ev t r"
    using f by (auto simp: evaluate_rule_for_def rule_hits_def rbind_Ok_iff split: if_splits prod.splits)
  with ids Cons.IH[OF rest] show ?case by simp
qed simp

lemma match_rules_complete:
  assumes "match_rules (evaluate_rule_for rt ev t) rs st = Ok (ids, st')" and "r \<in> set rs"
    and "normalize_rule_target r = target_scope_name t" "target_can_match t" "ev r t = Ok (True, fs)"
  shows "rule_id r \<in> set ids"
  using assms(1,2)
proof (induction rs arbitrary: st ids st')
  case (Cons r' rs)
  from Cons.prems(1) obtain m st1 js st2 where f: "evaluate_rule_for rt ev t r' st = Ok (m, st1)"
    and rest: "match_rules (evaluate_rule_for rt ev t) rs st1 = Ok (js, st2)" and ids: "ids = (if m then rule_id r' # js else js)"
    by (auto simp: rbind_Ok_iff split: prod.splits)
  show ?case
  proof (cases "r = r'")
    case True
    with f assms(3-5) have m by (auto simp: evaluate_rule_for_def split: prod.splits)
    with True ids show ?thesis by simp
  next
    case False
    with Cons ids rest show ?thesis by auto
  qed
qed simp

lemma record_for_Some:
  "record_for rt t m = Some r \<longleftrightarrow> fst m \<noteq> [] \<and>
   r = scope.extend (target_scope t)
     \<lparr>record_type = target_type t, record_movie = target_movie t, record_series = target_series t,
      record_rule_ids = fst m, record_criteria = fst (snd m), record_reason = rule_reason_text rt (snd (snd m)),
      record_reason_data = snd (snd m), record_size = target_size t\<rparr>"
  by (auto simp: record_for_def split: prod.splits)

text \<open>A record is of a target and names the target's ids.\<close>

definition record_of :: "matched_record \<Rightarrow> scan_target \<Rightarrow> bool" where
  "record_of r t \<longleftrightarrow> scope.truncate r = target_scope t \<and> record_type r = target_type t \<and>
     record_movie r = target_movie t \<and> record_series r = target_series t"

lemma record_for_of: "record_for rt t m = Some r \<Longrightarrow> record_of r t \<and> record_rule_ids r = fst m \<and> fst m \<noteq> []"
  by (cases "target_scope t") (auto simp: record_for_Some record_of_def scope.defs)

lemma collect_from_iff:
  assumes "collect_from rt ev rs targets = Ok recs"
  shows "r \<in> set recs \<longleftrightarrow> (\<exists>t \<in> set targets. \<exists>m. match_rules (evaluate_rule_for rt ev t) rs ([], []) = Ok m \<and> record_for rt t m = Some r)"
proof -
  let ?f = "\<lambda>t. rbind (match_rules (evaluate_rule_for rt ev t) rs ([], [])) (\<lambda>m. Ok (record_for rt t m))"
  obtain found where f: "rmap ?f targets = Ok found" "recs = somes found"
    using assms by (auto simp: collect_from_def rbind_Ok_iff)
  with set_rmap[OF f(1)] show ?thesis by (fastforce simp: rbind_Ok_iff)
qed

lemma collect_from_sound:
  assumes "collect_from rt ev rs targets = Ok recs" "r \<in> set recs"
  obtains t where "t \<in> set targets" "record_of r t" "record_rule_ids r \<noteq> []" "record_rule_ids r = map rule_id (filter (rule_hits ev t) rs)"
    "\<And>i. i \<in> set (record_rule_ids r) \<Longrightarrow> \<exists>rule \<in> set rs. rule_id rule = i \<and> normalize_rule_target rule = target_scope_name t \<and>
       (\<exists>fs. ev rule t = Ok (True, fs))"
proof -
  obtain t m where t: "t \<in> set targets" "match_rules (evaluate_rule_for rt ev t) rs ([], []) = Ok m" "record_for rt t m = Some r"
    using assms collect_from_iff by blast
  note o = record_for_of[OF t(3)]
  obtain ids st where m: "m = (ids, st)" by (cases m)
  show thesis
  proof (rule that[OF t(1)])
    show "record_of r t" "record_rule_ids r \<noteq> []" using o by auto
    show "record_rule_ids r = map rule_id (filter (rule_hits ev t) rs)" using match_rules_exact[OF t(2)[unfolded m]] o m by simp
    show "\<exists>rule \<in> set rs. rule_id rule = i \<and> normalize_rule_target rule = target_scope_name t \<and> (\<exists>fs. ev rule t = Ok (True, fs))"
      if "i \<in> set (record_rule_ids r)" for i
      using match_rules_sound[OF t(2)[unfolded m]] o m that by fastforce
  qed
qed

section \<open>Protected media are not looked at\<close>

text \<open>A protection row covers a target as it would stop its deletion.\<close>

definition protection_reaches :: "protected_media \<Rightarrow> media_type \<Rightarrow> int option \<Rightarrow> int option \<Rightarrow> ('a scope_scheme) \<Rightarrow> bool" where
  "protection_reaches row t in_movie in_series s \<longleftrightarrow>
     protected_type row = t \<and>
     (if t = MOVIE then in_movie \<noteq> None \<and> protected_movie row = in_movie \<and> movie_scope_overlap (movie_version_id s) row
      else in_series \<noteq> None \<and> protected_series row = in_series \<and> series_scope_overlap (season_id s) (episode_id s) row)"

definition target_covered :: "protected_media \<Rightarrow> scan_target \<Rightarrow> bool" where
  "target_covered row t \<longleftrightarrow> protection_reaches row (target_type t) (target_movie t) (target_series t) (target_scope t)"

lemmas covered_defs = target_covered_def protection_reaches_def target_type_def respected_def movie_scope_overlap_def
  series_scope_overlap_def is_series_scope_def is_season_scope_def is_episode_scope_def

lemma movie_targets_open:
  assumes "t \<in> set (movie_targets rt i opts rows lib)" "exclude_protected opts" "row \<in> set rows" "active_protection (scan_now i) row"
  shows "\<not> target_covered row t"
proof
  assume c: "target_covered row t"
  obtain m v where t: "t = Version_Target m v" and
    o: "Some (movie_no m) \<notin> protected_movie ` {r \<in> set (respected (scan_now i) opts MOVIE rows). movie_version_id r = None}"
      "Some (mv_id v) \<notin> movie_version_id ` set (respected (scan_now i) opts MOVIE rows)"
    using assms(1) by (auto simp: movie_targets_def Let_def image_iff)
  have "row \<in> set (respected (scan_now i) opts MOVIE rows)" using c t assms(2-4) by (auto simp: covered_defs)
  with o c t show False by (auto simp: covered_defs image_iff split: if_splits)
qed

lemma open_shows_open:
  assumes "s \<in> set (open_shows rt i opts rows lib)" "exclude_protected opts" "row \<in> set rows" "active_protection (scan_now i) row"
    and "protected_type row = SERIES" "protected_series row = Some (series_no s)"
  shows "\<not> (season_id row = None \<and> episode_id row = None)"
  using assms by (force simp: open_shows_def Let_def covered_defs image_iff)

lemma protected_seasons_in:
  assumes "exclude_protected opts" "row \<in> set rows" "active_protection now row" "protected_type row = SERIES"
    and "season_id row = Some k" "episode_id row = None"
  shows "k \<in> set (protected_seasons now opts rows)"
  using assms by (force simp: protected_seasons_def covered_defs image_iff)

lemma protected_episodes_in:
  assumes "exclude_protected opts" "row \<in> set rows" "active_protection now row" "protected_type row = SERIES"
    and "episode_id row = Some k"
  shows "k \<in> set (protected_episodes now opts rows lib)"
  using assms by (force simp: protected_episodes_def Let_def covered_defs image_iff)

lemma series_targets_open:
  assumes "t \<in> set (series_targets rt i opts rows lib)" "exclude_protected opts" "row \<in> set rows" "active_protection (scan_now i) row"
  shows "\<not> target_covered row t"
  using assms by (force simp: series_targets_def Let_def covered_defs image_iff)

lemma season_targets_open:
  assumes "t \<in> set (season_targets rt i opts rows lib)" "exclude_protected opts" "row \<in> set rows" "active_protection (scan_now i) row"
  shows "\<not> target_covered row t"
proof
  assume c: "target_covered row t"
  obtain s se where t: "t = Season_Target s se" and s: "s \<in> set (open_shows rt i opts rows lib)"
    and k: "ms_id se \<notin> set (protected_seasons (scan_now i) opts rows)"
    using assms(1) by (auto simp: season_targets_def)
  with c open_shows_open[OF s assms(2-4)] protected_seasons_in[OF assms(2-4)] show False
    by (auto simp: target_covered_def protection_reaches_def target_type_def series_scope_overlap_def)
qed

lemma episode_targets_open:
  assumes "t \<in> set (episode_targets rt i opts rows lib)" "exclude_protected opts" "row \<in> set rows" "active_protection (scan_now i) row"
  shows "\<not> target_covered row t"
proof
  assume c: "target_covered row t"
  obtain s se e where t: "t = Episode_Target s se e" and s: "s \<in> set (open_shows rt i opts rows lib)"
    and k: "ms_id se \<notin> set (protected_seasons (scan_now i) opts rows)"
      "me_id e \<notin> set (protected_episodes (scan_now i) opts rows lib)"
    using assms(1) by (auto simp: episode_targets_def)
  with c open_shows_open[OF s assms(2-4)] protected_seasons_in[OF assms(2-4)] protected_episodes_in[OF assms(2-4)] show False
    by (auto simp: target_covered_def protection_reaches_def target_type_def series_scope_overlap_def)
qed

end
