(* ===== verification/Candidate_Sync.thy ===== *)
theory Candidate_Sync
  imports Candidate_Scan Auto_Delete_Run
begin

text \<open>
  The second half of a cleanup scan: the candidates are brought into line with the records
  (\<open>_sync_movie_version_candidates\<close> and its siblings in \<open>tasks/cleanup.py\<close>).  A row of the candidate
  table is found by its number; \<open>free\<close> is the number of the next new row.
\<close>

section \<open>Candidates\<close>

definition new_candidate :: "int \<Rightarrow> int \<Rightarrow> matched_record \<Rightarrow> candidate" where
  "new_candidate now i r =
     scope.extend (scope.truncate r)
       \<lparr>candidate_id = i, candidate_type = record_type r, candidate_movie = record_movie r, candidate_series = record_series r,
        matched_rule_ids = record_rule_ids r, created_at = PDT now None, timer_started_at = None, postponed_until = None,
        cancelled_at = None, announced_at = None, delete_request_id = None, lifecycle_reason = None, lifecycle_updated_at = None,
        candidate_criteria = record_criteria r, candidate_reason = record_reason r, candidate_reason_data = record_reason_data r,
        candidate_size = record_size r, updated_at = now\<rparr>"

text \<open>A candidate that still matches keeps its number, its age and its timers.\<close>

definition refresh_candidate :: "int \<Rightarrow> matched_record \<Rightarrow> candidate \<Rightarrow> candidate" where
  "refresh_candidate now r c =
     c\<lparr>matched_rule_ids := record_rule_ids r, candidate_criteria := record_criteria r, candidate_reason := record_reason r,
       candidate_reason_data := record_reason_data r, candidate_size := record_size r, updated_at := now,
       candidate_movie := (if record_type r = MOVIE then record_movie r else candidate_movie c)\<rparr>"

record sync_counts =
  candidates_created :: nat
  candidates_updated :: nat
  candidates_removed :: nat

fun apply_records ::
  "int \<Rightarrow> (matched_record \<Rightarrow> int option) \<Rightarrow> (int \<times> int) list \<Rightarrow> matched_record list \<Rightarrow> int \<Rightarrow> candidate list \<Rightarrow>
   nat \<times> nat \<times> int \<times> candidate list" where
  "apply_records now key lookup [] free cs = (0, 0, free, cs)"
| "apply_records now key lookup (r # records) free cs =
     (case key r of
        None \<Rightarrow> apply_records now key lookup records free cs
      | Some k \<Rightarrow>
          (case map_of lookup k of
             Some i \<Rightarrow>
               (let (n, u, free', cs') = apply_records now key lookup records free
                      (map (\<lambda>c. if candidate_id c = i then refresh_candidate now r c else c) cs)
                in (n, u + 1, free', cs'))
           | None \<Rightarrow>
               (let (n, u, free', cs') = apply_records now key lookup records (free + 1) (cs @ [new_candidate now free r])
                in (n + 1, u, free', cs'))))"

text \<open>
  One scope: the unrequested candidates of the scope are looked up by the id of their medium, the last
  of equal ids winning; those the records do not name go, and so do those of a scope that are \<open>obsolete\<close>.
\<close>

definition sync_candidates ::
  "int \<Rightarrow> (candidate \<Rightarrow> bool) \<Rightarrow> (candidate \<Rightarrow> int option) \<Rightarrow> (matched_record \<Rightarrow> int option) \<Rightarrow> (matched_record \<Rightarrow> int option) \<Rightarrow>
   (candidate \<Rightarrow> bool) \<Rightarrow> matched_record list \<Rightarrow> int \<Rightarrow> candidate list \<Rightarrow> sync_counts \<times> int \<times> candidate list" where
  "sync_candidates now managed medium key field obsolete records free cs =
     (let managed_rows = filter managed cs;
          lookup = dupdate [] (somes (map (\<lambda>c. map_option (\<lambda>k. (k, candidate_id c)) (medium c)) managed_rows));
          matched = somes (map field records);
          stale = map snd (filter (\<lambda>(k, i). \<not> List.member matched k) lookup) @
                  map candidate_id (filter obsolete managed_rows);
          (n, u, free', cs') = apply_records now key lookup records free cs
      in (\<lparr>candidates_created = n, candidates_updated = u, candidates_removed = length stale\<rparr>, free',
          filter (\<lambda>c. \<not> List.member stale (candidate_id c)) cs'))"

text \<open>\<open>pending\<close> lists the candidates waiting for a resync, with their movies: they are left alone.\<close>

definition managed_movie :: "(int \<times> int) list \<Rightarrow> candidate \<Rightarrow> bool" where
  "managed_movie pending c \<longleftrightarrow> delete_request_id c = None \<and> candidate_type c = MOVIE \<and>
     \<not> List.member (map fst pending) (candidate_id c)"

definition movie_record_key :: "matched_record \<Rightarrow> int option" where
  "movie_record_key r = (if record_movie r = None then None else movie_version_id r)"

definition sync_movie_version_candidates ::
  "int \<Rightarrow> (int \<times> int) list \<Rightarrow> matched_record list \<Rightarrow> int \<Rightarrow> candidate list \<Rightarrow> sync_counts \<times> int \<times> candidate list" where
  "sync_movie_version_candidates now pending records =
     sync_candidates now (managed_movie pending) movie_version_id movie_record_key movie_version_id
       (\<lambda>c. movie_version_id c = None)
       (filter (\<lambda>r. \<not> (\<exists>m \<in> set (map snd pending). record_movie r = Some m)) records)"

definition managed_show :: "(candidate \<Rightarrow> bool) \<Rightarrow> candidate \<Rightarrow> bool" where
  "managed_show in_scope c \<longleftrightarrow> delete_request_id c = None \<and> candidate_type c = SERIES \<and> in_scope c"

definition sync_series_candidates ::
  "int \<Rightarrow> matched_record list \<Rightarrow> int \<Rightarrow> candidate list \<Rightarrow> sync_counts \<times> int \<times> candidate list" where
  "sync_series_candidates now =
     sync_candidates now (managed_show is_series_scope) candidate_series record_series record_series (\<lambda>_. False)"

definition season_record_key :: "matched_record \<Rightarrow> int option" where
  "season_record_key r = (if record_series r = None then None else season_id r)"

definition sync_season_candidates ::
  "int \<Rightarrow> matched_record list \<Rightarrow> int \<Rightarrow> candidate list \<Rightarrow> sync_counts \<times> int \<times> candidate list" where
  "sync_season_candidates now =
     sync_candidates now (managed_show is_season_scope) season_id season_record_key season_id (\<lambda>_. False)"

definition episode_record_key :: "matched_record \<Rightarrow> int option" where
  "episode_record_key r = (if record_series r = None then None else episode_id r)"

definition sync_episode_candidates ::
  "int \<Rightarrow> matched_record list \<Rightarrow> int \<Rightarrow> candidate list \<Rightarrow> sync_counts \<times> int \<times> candidate list" where
  "sync_episode_candidates now =
     sync_candidates now (managed_show is_episode_scope) episode_id episode_record_key episode_id (\<lambda>_. False)"

section \<open>What the records do to the rows\<close>

text \<open>The rows are numbered below the next number, each number once.\<close>

definition numbered :: "int \<Rightarrow> candidate list \<Rightarrow> bool" where
  "numbered free cs \<longleftrightarrow> distinct (map candidate_id cs) \<and> (\<forall>c \<in> set cs. candidate_id c < free)"

definition hits :: "(matched_record \<Rightarrow> int option) \<Rightarrow> (int \<times> int) list \<Rightarrow> matched_record \<Rightarrow> candidate \<Rightarrow> bool" where
  "hits key lookup r c \<longleftrightarrow> (\<exists>k. key r = Some k \<and> map_of lookup k = Some (candidate_id c))"

definition touch :: "int \<Rightarrow> (matched_record \<Rightarrow> int option) \<Rightarrow> (int \<times> int) list \<Rightarrow> matched_record list \<Rightarrow> candidate \<Rightarrow> candidate" where
  "touch now key lookup records c = foldl (\<lambda>c r. if hits key lookup r c then refresh_candidate now r c else c) c records"

fun fresh_candidates :: "int \<Rightarrow> int \<Rightarrow> matched_record list \<Rightarrow> candidate list" where
  "fresh_candidates now free [] = []"
| "fresh_candidates now free (r # rs) = new_candidate now free r # fresh_candidates now (free + 1) rs"

definition unknown :: "(matched_record \<Rightarrow> int option) \<Rightarrow> (int \<times> int) list \<Rightarrow> matched_record \<Rightarrow> bool" where
  "unknown key lookup r \<longleftrightarrow> (\<exists>k. key r = Some k \<and> map_of lookup k = None)"

lemma refresh_keeps [simp]:
  "candidate_id (refresh_candidate now r c) = candidate_id c"
  "candidate_type (refresh_candidate now r c) = candidate_type c"
  "delete_request_id (refresh_candidate now r c) = delete_request_id c"
  "movie_version_id (refresh_candidate now r c) = movie_version_id c"
  "season_id (refresh_candidate now r c) = season_id c"
  "episode_id (refresh_candidate now r c) = episode_id c"
  "candidate_series (refresh_candidate now r c) = candidate_series c"
  by (simp_all add: refresh_candidate_def)

lemma new_candidate_fields [simp]:
  "candidate_id (new_candidate now i r) = i"
  "candidate_type (new_candidate now i r) = record_type r"
  "delete_request_id (new_candidate now i r) = None"
  "movie_version_id (new_candidate now i r) = movie_version_id r"
  "season_id (new_candidate now i r) = season_id r"
  "episode_id (new_candidate now i r) = episode_id r"
  "candidate_movie (new_candidate now i r) = record_movie r"
  "candidate_series (new_candidate now i r) = record_series r"
  by (simp_all add: new_candidate_def scope.defs)

lemma hits_refresh [simp]: "hits key lookup r (refresh_candidate now r' c) = hits key lookup r c"
  by (simp add: hits_def)

lemma touch_Nil [simp]: "touch now key lookup [] = (\<lambda>c. c)"
  by (simp add: touch_def fun_eq_iff)

lemma touch_Cons: "touch now key lookup (r # rs) c =
   touch now key lookup rs (if hits key lookup r c then refresh_candidate now r c else c)"
  by (simp add: touch_def)

lemma touch_none: "(\<And>r. r \<in> set rs \<Longrightarrow> \<not> hits key lookup r c) \<Longrightarrow> touch now key lookup rs c = c"
  by (induction rs) (auto simp: touch_Cons)

lemma touch_one:
  assumes "r \<in> set rs" "hits key lookup r c" "distinct (somes (map key rs))" "inj_on (map_of lookup) (dom (map_of lookup))"
  shows "touch now key lookup rs c = refresh_candidate now r c"
  using assms(1-3)
proof (induction rs)
  case (Cons r' rs)
  obtain k where k: "key r = Some k" "map_of lookup k = Some (candidate_id c)" using Cons.prems(2) by (auto simp: hits_def)
  show ?case
  proof (cases "r = r'")
    case True
    have "\<not> hits key lookup r'' c" if "r'' \<in> set rs" for r''
    proof
      assume "hits key lookup r'' c"
      then obtain k' where "key r'' = Some k'" "map_of lookup k' = Some (candidate_id c)" by (auto simp: hits_def)
      with k have "key r'' = Some k" using inj_onD[OF assms(4), of k k'] by (auto simp: dom_def)
      with Cons.prems(3) True k that show False by (force simp: image_iff)
    qed
    then show ?thesis using Cons.prems(2) True by (simp add: touch_Cons touch_none)
  next
    case False
    then have r: "r \<in> set rs" using Cons.prems(1) by simp
    have "\<not> hits key lookup r' c"
    proof
      assume "hits key lookup r' c"
      then obtain k' where "key r' = Some k'" "map_of lookup k' = Some (candidate_id c)" by (auto simp: hits_def)
      with k have "key r' = Some k" using inj_onD[OF assms(4), of k k'] by (auto simp: dom_def)
      with Cons.prems(3) r k show False by (force simp: image_iff)
    qed
    moreover have "distinct (somes (map key rs))" using Cons.prems(3) by (cases "key r'") auto
    ultimately show ?thesis using Cons.IH[OF r Cons.prems(2)] by (simp add: touch_Cons)
  qed
qed simp

lemma touch_id [simp]: "candidate_id (touch now key lookup rs c) = candidate_id c"
  by (induction rs arbitrary: c) (simp_all add: touch_Cons)

lemma apply_records_eq:
  assumes "\<And>k i. map_of lookup k = Some i \<Longrightarrow> i < free"
  shows "snd (snd (apply_records now key lookup records free cs)) =
    (free + int (length (filter (unknown key lookup) records)),
     map (touch now key lookup records) cs @ fresh_candidates now free (filter (unknown key lookup) records))"
  using assms
proof (induction records arbitrary: free cs)
  case (Cons r records)
  show ?case
  proof (cases "key r")
    case None
    then have "\<not> unknown key lookup r" "\<And>c. \<not> hits key lookup r c" by (auto simp: unknown_def hits_def)
    with None Cons.IH[OF Cons.prems] show ?thesis by (simp add: touch_Cons[abs_def] cong: map_cong)
  next
    case (Some k)
    show ?thesis
    proof (cases "map_of lookup k")
      case None
      have un: "unknown key lookup r" using Some None by (simp add: unknown_def)
      have no: "\<And>c. \<not> hits key lookup r c" using Some None by (simp add: hits_def)
      have fresh: "touch now key lookup records (new_candidate now free r) = new_candidate now free r"
        by (rule touch_none) (auto simp: hits_def dest: Cons.prems)
      have lt: "\<And>k i. map_of lookup k = Some i \<Longrightarrow> i < free + 1" using Cons.prems by fastforce
      have "snd (snd (apply_records now key lookup records (free + 1) (cs @ [new_candidate now free r]))) =
          (free + 1 + int (length (filter (unknown key lookup) records)),
           map (touch now key lookup records) (cs @ [new_candidate now free r]) @
           fresh_candidates now (free + 1) (filter (unknown key lookup) records))"
        by (rule Cons.IH) (erule lt)
      then show ?thesis using Some None un no fresh by (auto simp: touch_Cons split: prod.splits)
    next
      case (Some i)
      have un: "\<not> unknown key lookup r" using Some \<open>key r = Some k\<close> by (simp add: unknown_def)
      have h: "hits key lookup r c \<longleftrightarrow> candidate_id c = i" for c using Some \<open>key r = Some k\<close> by (auto simp: hits_def)
      have "map (touch now key lookup records) (map (\<lambda>c. if candidate_id c = i then refresh_candidate now r c else c) cs) =
          map (touch now key lookup (r # records)) cs"
        by (simp add: touch_Cons h)
      moreover have "snd (snd (apply_records now key lookup records free
            (map (\<lambda>c. if candidate_id c = i then refresh_candidate now r c else c) cs))) =
          (free + int (length (filter (unknown key lookup) records)),
           map (touch now key lookup records) (map (\<lambda>c. if candidate_id c = i then refresh_candidate now r c else c) cs) @
           fresh_candidates now free (filter (unknown key lookup) records))"
        by (rule Cons.IH) (erule Cons.prems)
      ultimately show ?thesis
        using Some \<open>key r = Some k\<close> un by (auto simp del: map_map split: prod.splits)
    qed
  qed
qed simp

lemma set_fresh_candidates:
  "c \<in> set (fresh_candidates now free rs) \<Longrightarrow> \<exists>r \<in> set rs. \<exists>i. free \<le> i \<and> i < free + int (length rs) \<and> c = new_candidate now i r"
proof (induction rs arbitrary: free)
  case (Cons r rs)
  show ?case
  proof (cases "c = new_candidate now free r")
    case False
    with Cons.prems Cons.IH[of "free + 1"] obtain r' i where "r' \<in> set rs" "free + 1 \<le> i" "i < free + 1 + int (length rs)"
      "c = new_candidate now i r'" by auto
    then show ?thesis by (intro bexI[of _ r'] exI[of _ i]) auto
  qed (auto intro!: exI[of _ free])
qed simp

lemma fresh_candidates_cover:
  "r \<in> set rs \<Longrightarrow> \<exists>i. free \<le> i \<and> new_candidate now i r \<in> set (fresh_candidates now free rs)"
proof (induction rs arbitrary: free)
  case (Cons r' rs)
  show ?case
  proof (cases "r = r'")
    case False
    with Cons.prems Cons.IH[of "free + 1"] obtain i where "free + 1 \<le> i" "new_candidate now i r \<in> set (fresh_candidates now (free + 1) rs)"
      by auto
    then show ?thesis by (intro exI[of _ i]) auto
  qed auto
qed simp

lemma fresh_candidate_ids:
  "map candidate_id (fresh_candidates now free rs) = map (\<lambda>j. free + int j) [0..<length rs]"
proof (induction rs arbitrary: free)
  case (Cons r rs)
  have "map (\<lambda>j. free + int j) [0..<Suc (length rs)] = free # map (\<lambda>j. free + 1 + int j) [0..<length rs]"
    by (subst upt_conv_Cons) (auto simp: map_Suc_upt[symmetric] simp del: upt_Suc map_Suc_upt)
  with Cons show ?case by simp
qed simp


section \<open>Synchronising a scope\<close>

text \<open>
  What the four synchronisations share: the candidates they manage are found by the id of their medium,
  and neither refreshing a candidate nor adding one from a record of the scope (\<open>belongs\<close>) puts it
  elsewhere; \<open>reserved\<close> are numbers that no new candidate gets.
\<close>

locale candidate_scope_sync =
  fixes managed :: "candidate \<Rightarrow> bool"
    and medium :: "candidate \<Rightarrow> int option"
    and key :: "matched_record \<Rightarrow> int option"
    and field :: "matched_record \<Rightarrow> int option"
    and obsolete :: "candidate \<Rightarrow> bool"
    and belongs :: "matched_record \<Rightarrow> bool"
    and reserved :: "int set"
  assumes refresh_managed: "managed (refresh_candidate now r c) \<longleftrightarrow> managed c"
    and refresh_medium: "medium (refresh_candidate now r c) = medium c"
    and refresh_obsolete: "obsolete (refresh_candidate now r c) \<longleftrightarrow> obsolete c"
    and new_managed: "belongs r \<Longrightarrow> i \<notin> reserved \<Longrightarrow> managed (new_candidate now i r)"
    and new_medium: "medium (new_candidate now i r) = field r"
    and new_obsolete: "belongs r \<Longrightarrow> \<not> obsolete (new_candidate now i r)"
    and key_field: "belongs r \<Longrightarrow> key r = field r \<and> field r \<noteq> None"
    and obsolete_medium: "obsolete c \<Longrightarrow> medium c = None"
begin

text \<open>One managed candidate per medium, and none without one unless it is obsolete.\<close>

definition tidy :: "candidate list \<Rightarrow> bool" where
  "tidy cs \<longleftrightarrow>
     (\<forall>c \<in> set cs. \<forall>c' \<in> set cs. managed c \<longrightarrow> managed c' \<longrightarrow> medium c = medium c' \<longrightarrow> medium c \<noteq> None \<longrightarrow> c = c') \<and>
     (\<forall>c \<in> set cs. managed c \<longrightarrow> medium c = None \<longrightarrow> obsolete c)"

definition lookup_of :: "candidate list \<Rightarrow> (int \<times> int) list" where
  "lookup_of cs = dupdate [] (somes (map (\<lambda>c. map_option (\<lambda>k. (k, candidate_id c)) (medium c)) (filter managed cs)))"

lemma lookup_pair:
  "(k, i) \<in> set (somes (map (\<lambda>c. map_option (\<lambda>k. (k, candidate_id c)) (medium c)) (filter managed cs))) \<longleftrightarrow>
   (\<exists>c \<in> set cs. managed c \<and> medium c = Some k \<and> candidate_id c = i)"
  by (force simp: eq_commute[of "Some _"])

lemma lookup_of_iff:
  assumes "tidy cs"
  shows "map_of (lookup_of cs) k = Some i \<longleftrightarrow> (\<exists>c \<in> set cs. managed c \<and> medium c = Some k \<and> candidate_id c = i)"
proof
  assume "map_of (lookup_of cs) k = Some i"
  then have "(k, i) \<in> set (somes (map (\<lambda>c. map_option (\<lambda>k. (k, candidate_id c)) (medium c)) (filter managed cs)))"
    unfolding lookup_of_def by (rule map_of_dupdate_in)
  then show "\<exists>c \<in> set cs. managed c \<and> medium c = Some k \<and> candidate_id c = i" unfolding lookup_pair .
next
  assume "\<exists>c \<in> set cs. managed c \<and> medium c = Some k \<and> candidate_id c = i"
  then obtain c where c: "c \<in> set cs" "managed c" "medium c = Some k" "candidate_id c = i" by blast
  then have "k \<in> fst ` set (lookup_of cs)" unfolding lookup_of_def keys_dupdate by force
  then obtain j where j: "map_of (lookup_of cs) k = Some j" by (metis domD dom_map_of_conv_image_fst)
  then have "(k, j) \<in> set (somes (map (\<lambda>c. map_option (\<lambda>k. (k, candidate_id c)) (medium c)) (filter managed cs)))"
    unfolding lookup_of_def by (rule map_of_dupdate_in)
  then obtain c' where "c' \<in> set cs" "managed c'" "medium c' = Some k" "candidate_id c' = j" unfolding lookup_pair by blast
  with c assms have "c' = c" unfolding tidy_def by (metis option.distinct(1))
  with c j \<open>candidate_id c' = j\<close> show "map_of (lookup_of cs) k = Some i" by simp
qed

lemma lookup_of_distinct: "distinct (map fst (lookup_of cs))"
  unfolding lookup_of_def by (rule distinct_dupdate) simp

lemma numbered_eq: "numbered free cs \<Longrightarrow> c \<in> set cs \<Longrightarrow> c' \<in> set cs \<Longrightarrow> candidate_id c = candidate_id c' \<Longrightarrow> c = c'"
  unfolding numbered_def by (auto simp: distinct_map dest: inj_onD)

lemma lookup_of_inj:
  assumes "tidy cs" "numbered free cs"
  shows "inj_on (map_of (lookup_of cs)) (dom (map_of (lookup_of cs)))"
proof (rule inj_onI)
  fix k k' assume "k \<in> dom (map_of (lookup_of cs))" "k' \<in> dom (map_of (lookup_of cs))"
    and e: "map_of (lookup_of cs) k = map_of (lookup_of cs) k'"
  then obtain i where "map_of (lookup_of cs) k = Some i" "map_of (lookup_of cs) k' = Some i" by auto
  then obtain c c' where "c \<in> set cs" "medium c = Some k" "candidate_id c = i" "c' \<in> set cs" "medium c' = Some k'" "candidate_id c' = i"
    unfolding lookup_of_iff[OF assms(1)] by blast
  with numbered_eq[OF assms(2)] show "k = k'" by (metis option.inject)
qed

lemma touch_stays:
  "managed (touch now key l rs c) \<longleftrightarrow> managed c" "medium (touch now key l rs c) = medium c"
  "obsolete (touch now key l rs c) \<longleftrightarrow> obsolete c"
  by (induction rs arbitrary: c) (simp_all add: touch_Cons refresh_managed refresh_medium refresh_obsolete)

text \<open>A managed candidate afterwards: the refreshed one of the record's medium, or a new one when there was none.\<close>

definition came_from :: "int \<Rightarrow> int \<Rightarrow> candidate list \<Rightarrow> matched_record \<Rightarrow> candidate \<Rightarrow> bool" where
  "came_from now free cs r c \<longleftrightarrow>
     (\<exists>c0 \<in> set cs. managed c0 \<and> medium c0 = key r \<and> c = refresh_candidate now r c0) \<or>
     (\<forall>c0 \<in> set cs. managed c0 \<longrightarrow> medium c0 \<noteq> key r) \<and> (\<exists>i \<ge> free. c = new_candidate now i r)"

lemma came_from_medium: "belongs r \<Longrightarrow> came_from now free cs r c \<Longrightarrow> medium c = key r \<and> medium c \<noteq> None"
  by (auto simp: came_from_def refresh_medium new_medium dest: key_field)

definition stale_ids :: "matched_record list \<Rightarrow> candidate list \<Rightarrow> int list" where
  "stale_ids records cs =
     map snd (filter (\<lambda>(k, i). \<not> List.member (somes (map field records)) k) (lookup_of cs)) @
     map candidate_id (filter obsolete (filter managed cs))"

lemma stale_iff:
  assumes "tidy cs" "\<And>r. r \<in> set records \<Longrightarrow> belongs r"
  shows "i \<in> set (stale_ids records cs) \<longleftrightarrow>
    (\<exists>c \<in> set cs. managed c \<and> candidate_id c = i \<and> (\<forall>r \<in> set records. medium c \<noteq> key r))"
    (is "_ \<longleftrightarrow> ?right")
proof -
  have kf: "key r = field r" "key r \<noteq> None" if "r \<in> set records" for r using key_field[OF assms(2)[OF that]] by auto
  have p: "(k, i) \<in> set (lookup_of cs) \<longleftrightarrow> (\<exists>c \<in> set cs. managed c \<and> medium c = Some k \<and> candidate_id c = i)" for k i
    unfolding map_of_eq_Some_iff[OF lookup_of_distinct, symmetric] lookup_of_iff[OF assms(1)] ..
  have "i \<in> set (stale_ids records cs) \<longleftrightarrow>
      (\<exists>k. (k, i) \<in> set (lookup_of cs) \<and> (\<forall>r \<in> set records. field r \<noteq> Some k)) \<or>
      (\<exists>c \<in> set cs. managed c \<and> obsolete c \<and> candidate_id c = i)"
    by (auto simp: stale_ids_def image_iff split: prod.splits) metis+
  also have "\<dots> \<longleftrightarrow> ?right"
  proof (intro iffI; elim disjE exE bexE conjE)
    fix k assume "(k, i) \<in> set (lookup_of cs)" "\<forall>r \<in> set records. field r \<noteq> Some k"
    with p[of k i] kf(1) show ?right by (metis (no_types))
  next
    fix c assume "c \<in> set cs" "managed c" "obsolete c" "candidate_id c = i"
    with kf(2) obsolete_medium[of c] show ?right by (metis (no_types))
  next
    fix c assume c: "c \<in> set cs" "managed c" "candidate_id c = i" "\<forall>r \<in> set records. medium c \<noteq> key r"
    show "(\<exists>k. (k, i) \<in> set (lookup_of cs) \<and> (\<forall>r \<in> set records. field r \<noteq> Some k)) \<or>
      (\<exists>c \<in> set cs. managed c \<and> obsolete c \<and> candidate_id c = i)"
    proof (cases "medium c")
      case None
      with c assms(1) show ?thesis unfolding tidy_def by blast
    next
      case (Some k)
      with c p[of k i] kf(1) show ?thesis by (metis (no_types))
    qed
  qed
  finally show ?thesis .
qed

lemma sync_shape:
  assumes "sync_candidates now managed medium key field obsolete records free cs = (n, free', cs')"
    and "tidy cs" "numbered free cs"
  shows "free' = free + int (length (filter (unknown key (lookup_of cs)) records))"
    "cs' = filter (\<lambda>c. candidate_id c \<notin> set (stale_ids records cs))
       (map (touch now key (lookup_of cs) records) cs @ fresh_candidates now free (filter (unknown key (lookup_of cs)) records))"
proof -
  have "snd (snd (apply_records now key (lookup_of cs) records free cs)) =
      (free + int (length (filter (unknown key (lookup_of cs)) records)),
       map (touch now key (lookup_of cs) records) cs @ fresh_candidates now free (filter (unknown key (lookup_of cs)) records))"
    using assms(3) by (intro apply_records_eq) (auto simp: lookup_of_iff[OF assms(2)] numbered_def)
  then obtain a u where ar: "apply_records now key (lookup_of cs) records free cs =
      (a, u, free + int (length (filter (unknown key (lookup_of cs)) records)),
       map (touch now key (lookup_of cs) records) cs @ fresh_candidates now free (filter (unknown key (lookup_of cs)) records))"
    by (metis prod.collapse)
  have "sync_candidates now managed medium key field obsolete records free cs =
      (let (n, u, free', cs') = apply_records now key (lookup_of cs) records free cs
       in (\<lparr>candidates_created = n, candidates_updated = u, candidates_removed = length (stale_ids records cs)\<rparr>, free',
           filter (\<lambda>c. \<not> List.member (stale_ids records cs) (candidate_id c)) cs'))"
    unfolding sync_candidates_def Let_def lookup_of_def[symmetric] stale_ids_def[symmetric] ..
  from assms(1)[unfolded this ar Let_def prod.case]
  show "free' = free + int (length (filter (unknown key (lookup_of cs)) records))"
    "cs' = filter (\<lambda>c. candidate_id c \<notin> set (stale_ids records cs))
       (map (touch now key (lookup_of cs) records) cs @ fresh_candidates now free (filter (unknown key (lookup_of cs)) records))"
    by simp_all
qed

lemma touch_came_from:
  assumes "tidy cs" "numbered free cs" "distinct (somes (map key records))" "r \<in> set records" "key r \<noteq> None"
    and "c \<in> set cs" "managed c" "medium c = key r"
  shows "touch now key (lookup_of cs) records c = refresh_candidate now r c"
proof -
  obtain k where k: "key r = Some k" using assms(5) by blast
  then have "map_of (lookup_of cs) k = Some (candidate_id c)" using lookup_of_iff[OF assms(1)] assms(6-8) by auto
  with k have "hits key (lookup_of cs) r c" by (simp add: hits_def)
  from touch_one[OF assms(4) this assms(3) lookup_of_inj[OF assms(1,2)]] show ?thesis .
qed

lemma touch_unmanaged:
  assumes "tidy cs" "numbered free cs" "c \<in> set cs" "\<not> managed c"
  shows "touch now key (lookup_of cs) records c = c"
proof (rule touch_none)
  fix r assume "r \<in> set records"
  show "\<not> hits key (lookup_of cs) r c"
    using lookup_of_iff[OF assms(1)] numbered_eq[OF assms(2)] assms(3,4) unfolding hits_def by blast
qed

lemma unknown_iff:
  assumes "tidy cs" "key r \<noteq> None"
  shows "unknown key (lookup_of cs) r \<longleftrightarrow> (\<forall>c \<in> set cs. managed c \<longrightarrow> medium c \<noteq> key r)"
proof -
  obtain k where "key r = Some k" using assms(2) by blast
  then have "unknown key (lookup_of cs) r \<longleftrightarrow> (\<forall>i. map_of (lookup_of cs) k \<noteq> Some i)" by (auto simp: unknown_def)
  with \<open>key r = Some k\<close> show ?thesis unfolding lookup_of_iff[OF assms(1)] by auto
qed

lemma distinct_somes: "distinct (somes (map f xs)) \<Longrightarrow> (\<And>x. x \<in> set xs \<Longrightarrow> f x \<noteq> None) \<Longrightarrow> distinct (map f xs)"
proof (induction xs)
  case (Cons x xs)
  then obtain y where y: "f x = Some y" by fastforce
  with Cons have "distinct (map f xs)" by simp
  moreover have "Some y \<notin> f ` set xs" using Cons.prems(1) y by (auto simp: image_iff)
  ultimately show ?case using y by simp
qed simp

text \<open>What a synchronisation of the scope promises.\<close>

definition synchronised ::
  "int \<Rightarrow> matched_record list \<Rightarrow> int \<Rightarrow> candidate list \<Rightarrow> int \<Rightarrow> candidate list \<Rightarrow> bool" where
  "synchronised now records free cs free' cs' \<longleftrightarrow>
     filter (\<lambda>c. \<not> managed c) cs' = filter (\<lambda>c. \<not> managed c) cs \<and>
     (\<forall>c \<in> set cs'. managed c \<longrightarrow> (\<exists>r \<in> set records. came_from now free cs r c)) \<and>
     (\<forall>r \<in> set records. \<exists>c \<in> set cs'. managed c \<and> came_from now free cs r c) \<and>
     tidy cs' \<and> numbered free' cs' \<and> free \<le> free'"

lemma filter_touch:
  "filter (\<lambda>c. \<not> managed c) (map (touch now key l rs) cs) = map (touch now key l rs) (filter (\<lambda>c. \<not> managed c) cs)"
  by (induction cs) (auto simp: touch_stays)

lemma fresh_media: "map medium (fresh_candidates now free rs) = map field rs"
  by (induction rs arbitrary: free) (simp_all add: new_medium)

text \<open>What a synchronisation takes for granted of its rows and records.\<close>

definition ready :: "matched_record list \<Rightarrow> int \<Rightarrow> candidate list \<Rightarrow> bool" where
  "ready records free cs \<longleftrightarrow> tidy cs \<and> numbered free cs \<and> reserved \<subseteq> {i. i < free} \<and>
     (\<forall>r \<in> set records. belongs r) \<and> distinct (somes (map key records))"

definition old_row :: "int \<Rightarrow> matched_record list \<Rightarrow> candidate list \<Rightarrow> candidate \<Rightarrow> candidate" where
  "old_row now records cs = touch now key (lookup_of cs) records"

definition new_rows :: "int \<Rightarrow> matched_record list \<Rightarrow> int \<Rightarrow> candidate list \<Rightarrow> candidate list" where
  "new_rows now records free cs = fresh_candidates now free (filter (unknown key (lookup_of cs)) records)"

lemma readyD:
  assumes "ready records free cs"
  shows "tidy cs" "numbered free cs" "distinct (somes (map key records))" "\<And>i. free \<le> i \<Longrightarrow> i \<notin> reserved"
    and "\<And>r. r \<in> set records \<Longrightarrow> belongs r" "\<And>r. r \<in> set records \<Longrightarrow> key r = field r" "\<And>r. r \<in> set records \<Longrightarrow> key r \<noteq> None"
    and "\<And>c. c \<in> set cs \<Longrightarrow> candidate_id c < free"
  using assms key_field by (auto simp: ready_def numbered_def)

lemma new_row:
  assumes d: "ready records free cs" and c: "c \<in> set (new_rows now records free cs)"
  obtains r i where "r \<in> set records" "free \<le> i" "c = new_candidate now i r" "managed c" "medium c = key r"
    "\<And>c0. c0 \<in> set cs \<Longrightarrow> managed c0 \<Longrightarrow> medium c0 \<noteq> key r" "i < free + int (length (filter (unknown key (lookup_of cs)) records))"
proof -
  note d' = readyD[OF d]
  obtain r i where r: "r \<in> set records" "unknown key (lookup_of cs) r" "free \<le> i"
      "i < free + int (length (filter (unknown key (lookup_of cs)) records))" "c = new_candidate now i r"
    using set_fresh_candidates[OF c[unfolded new_rows_def]] by auto
  moreover have "managed c" unfolding r(5) by (rule new_managed[OF d'(5)[OF r(1)] d'(4)[OF r(3)]])
  moreover have "medium c = key r" using d'(6)[OF r(1)] r(5) by (simp add: new_medium)
  ultimately show thesis using unknown_iff[OF d'(1) d'(7)[OF r(1)]] that by blast
qed

lemma stale_own:
  assumes d: "ready records free cs" and c: "c \<in> set cs"
  shows "candidate_id c \<in> set (stale_ids records cs) \<longleftrightarrow> managed c \<and> (\<forall>r \<in> set records. medium c \<noteq> key r)"
  using stale_iff[OF readyD(1)[OF d] readyD(5)[OF d]] numbered_eq[OF readyD(2)[OF d] c] c by metis

lemma new_not_stale:
  assumes d: "ready records free cs" and c: "c \<in> set (new_rows now records free cs)"
  shows "candidate_id c \<notin> set (stale_ids records cs)"
  using new_row[OF d c] stale_iff[OF readyD(1)[OF d] readyD(5)[OF d]] readyD(8)[OF d]
  by (metis new_candidate_fields(1) not_less)

lemma rows_afterwards:
  assumes s: "sync_candidates now managed medium key field obsolete records free cs = (n, free', cs')" and d: "ready records free cs"
  shows "c \<in> set cs' \<longleftrightarrow>
    (\<exists>c0 \<in> set cs. c = old_row now records cs c0 \<and> candidate_id c0 \<notin> set (stale_ids records cs)) \<or> c \<in> set (new_rows now records free cs)"
  using new_not_stale[OF d, of c now] unfolding sync_shape(2)[OF s readyD(1,2)[OF d]] new_rows_def[symmetric] old_row_def[symmetric]
  by (auto simp: old_row_def)

lemma old_row_stays:
  "managed (old_row now rs cs c) \<longleftrightarrow> managed c" "medium (old_row now rs cs c) = medium c" "candidate_id (old_row now rs cs c) = candidate_id c"
  by (simp_all add: old_row_def touch_stays)

lemma old_row_refreshed:
  assumes d: "ready records free cs" and c: "c \<in> set cs" "managed c" "r \<in> set records" "medium c = key r"
  shows "old_row now records cs c = refresh_candidate now r c"
  unfolding old_row_def
  by (rule touch_came_from[OF readyD(1-3)[OF d] c(3) readyD(7)[OF d c(3)] c(1,2,4)])

lemma unmanaged_stay:
  assumes s: "sync_candidates now managed medium key field obsolete records free cs = (n, free', cs')" and d: "ready records free cs"
  shows "filter (\<lambda>c. \<not> managed c) cs' = filter (\<lambda>c. \<not> managed c) cs"
proof -
  let ?rows = "map (old_row now records cs) cs @ new_rows now records free cs"
  have new: "managed c" if "c \<in> set (new_rows now records free cs)" for c using new_row[OF d that] by blast
  have "filter (\<lambda>c. \<not> managed c) cs' = filter (\<lambda>c. candidate_id c \<notin> set (stale_ids records cs) \<and> \<not> managed c) ?rows"
    unfolding sync_shape(2)[OF s readyD(1,2)[OF d]] new_rows_def old_row_def by (simp add: conj_commute)
  also have "\<dots> = filter (\<lambda>c. \<not> managed c) ?rows"
    by (rule filter_cong[OF refl]) (use stale_own[OF d] new in \<open>auto simp: old_row_stays\<close>)
  also have "\<dots> = map (old_row now records cs) (filter (\<lambda>c. \<not> managed c) cs)"
    using new by (simp add: filter_touch old_row_def)
  also have "\<dots> = filter (\<lambda>c. \<not> managed c) cs"
    by (rule map_idI) (use touch_unmanaged[OF readyD(1,2)[OF d]] in \<open>auto simp: old_row_def\<close>)
  finally show ?thesis .
qed

lemma managed_recorded:
  assumes s: "sync_candidates now managed medium key field obsolete records free cs = (n, free', cs')" and d: "ready records free cs"
    and "c \<in> set cs'" "managed c"
  shows "\<exists>r \<in> set records. came_from now free cs r c"
  using assms(3) unfolding rows_afterwards[OF s d]
proof (elim disjE bexE conjE)
  fix c0 assume c0: "c0 \<in> set cs" "c = old_row now records cs c0" "candidate_id c0 \<notin> set (stale_ids records cs)"
  then have m: "managed c0" using assms(4) old_row_stays(1) by blast
  with stale_own[OF d c0(1)] c0(3) obtain r where "r \<in> set records" "medium c0 = key r" by blast
  with old_row_refreshed[OF d c0(1) m] c0(1,2) m show ?thesis unfolding came_from_def by blast
next
  assume "c \<in> set (new_rows now records free cs)"
  from new_row[OF d this] show ?thesis unfolding came_from_def by metis
qed

lemma records_present:
  assumes s: "sync_candidates now managed medium key field obsolete records free cs = (n, free', cs')" and d: "ready records free cs"
    and r: "r \<in> set records"
  shows "\<exists>c \<in> set cs'. managed c \<and> came_from now free cs r c"
proof (cases "unknown key (lookup_of cs) r")
  case True
  then obtain i where i: "free \<le> i" "new_candidate now i r \<in> set (new_rows now records free cs)"
    using fresh_candidates_cover[of r "filter (unknown key (lookup_of cs)) records"] r unfolding new_rows_def by fastforce
  moreover have "managed (new_candidate now i r)" using new_row[OF d i(2)] by blast
  ultimately show ?thesis
    using unknown_iff[OF readyD(1)[OF d] readyD(7)[OF d r]] True rows_afterwards[OF s d] unfolding came_from_def by blast
next
  case False
  then obtain c0 where c0: "c0 \<in> set cs" "managed c0" "medium c0 = key r"
    using unknown_iff[OF readyD(1)[OF d] readyD(7)[OF d r]] by blast
  with stale_own[OF d c0(1)] r have "candidate_id c0 \<notin> set (stale_ids records cs)" by auto
  with c0 rows_afterwards[OF s d] have "old_row now records cs c0 \<in> set cs'" by blast
  with old_row_refreshed[OF d c0(1,2) r c0(3)] c0 refresh_managed show ?thesis unfolding came_from_def by metis
qed

lemma numbered_afterwards:
  assumes s: "sync_candidates now managed medium key field obsolete records free cs = (n, free', cs')" and d: "ready records free cs"
  shows "numbered free' cs'"
proof -
  let ?rows = "map (old_row now records cs) cs @ new_rows now records free cs"
  have cs': "cs' = filter (\<lambda>c. candidate_id c \<notin> set (stale_ids records cs)) ?rows"
    unfolding sync_shape(2)[OF s readyD(1,2)[OF d]] new_rows_def old_row_def ..
  have ids: "map candidate_id ?rows = map candidate_id cs @
      map (\<lambda>j. free + int j) [0..<length (filter (unknown key (lookup_of cs)) records)]"
    by (simp add: old_row_stays comp_def new_rows_def fresh_candidate_ids)
  have "distinct (map candidate_id ?rows)" unfolding ids
    using readyD(2)[OF d] by (fastforce simp: numbered_def distinct_map inj_on_def)
  then have "distinct (map candidate_id cs')" unfolding cs' by (rule distinct_map_filter)
  moreover have "i < free'" if "i \<in> set (map candidate_id ?rows)" for i
    using that readyD(8)[OF d] unfolding ids sync_shape(1)[OF s readyD(1,2)[OF d]] by fastforce
  ultimately show ?thesis unfolding numbered_def cs' by (metis (no_types, lifting) filter_is_subset imageI list.set_map subsetD)
qed

lemma new_rows_apart:
  assumes d: "ready records free cs"
  shows "inj_on medium (set (new_rows now records free cs))"
proof -
  have "distinct (map key (filter (unknown key (lookup_of cs)) records))"
    by (rule distinct_map_filter) (rule distinct_somes[OF readyD(3)[OF d]], rule readyD(7)[OF d])
  moreover have "map key (filter (unknown key (lookup_of cs)) records) = map field (filter (unknown key (lookup_of cs)) records)"
    using readyD(6)[OF d] by simp
  ultimately have "distinct (map medium (new_rows now records free cs))" by (simp only: fresh_media new_rows_def)
  then show ?thesis by (simp add: distinct_map)
qed

lemma tidy_afterwards:
  assumes s: "sync_candidates now managed medium key field obsolete records free cs = (n, free', cs')" and d: "ready records free cs"
  shows "tidy cs'"
proof -
  note mem = rows_afterwards[OF s d]
  have apart: "medium c0 \<noteq> medium c" if "c \<in> set (new_rows now records free cs)" "c0 \<in> set cs" "managed c0" for c c0
    using new_row[OF d that(1)] that(2,3) by metis
  have "c = c'" if c: "c \<in> set cs'" "c' \<in> set cs'" and m: "managed c" "managed c'" "medium c = medium c'" "medium c \<noteq> None" for c c'
    using c unfolding mem
  proof (elim disjE bexE conjE)
    fix a b assume "a \<in> set cs" "c = old_row now records cs a" "b \<in> set cs" "c' = old_row now records cs b"
    with m readyD(1)[OF d] show ?thesis unfolding tidy_def by (metis old_row_stays)
  next
    fix a assume "a \<in> set cs" "c = old_row now records cs a" "c' \<in> set (new_rows now records free cs)"
    with apart m old_row_stays show ?thesis by metis
  next
    fix b assume "c \<in> set (new_rows now records free cs)" "b \<in> set cs" "c' = old_row now records cs b"
    with apart m old_row_stays show ?thesis by metis
  next
    assume "c \<in> set (new_rows now records free cs)" "c' \<in> set (new_rows now records free cs)"
    with new_rows_apart[OF d] m(3) show ?thesis by (auto dest: inj_onD)
  qed
  moreover have "medium c \<noteq> None" if "c \<in> set cs'" "managed c" for c
    using managed_recorded[OF s d that] came_from_medium readyD(5)[OF d] by blast
  ultimately show ?thesis unfolding tidy_def by blast
qed

theorem sync_synchronises:
  assumes "sync_candidates now managed medium key field obsolete records free cs = (n, free', cs')" "ready records free cs"
  shows "synchronised now records free cs free' cs'"
  unfolding synchronised_def
  using unmanaged_stay[OF assms] managed_recorded[OF assms] records_present[OF assms] tidy_afterwards[OF assms]
    numbered_afterwards[OF assms] sync_shape(1)[OF assms(1) readyD(1,2)[OF assms(2)]]
  by simp

end

section \<open>The four scopes\<close>

interpretation movie_sync: candidate_scope_sync "managed_movie pending" movie_version_id movie_record_key movie_version_id
  "\<lambda>c. movie_version_id c = None" "\<lambda>r. record_type r = MOVIE \<and> record_movie r \<noteq> None \<and> movie_version_id r \<noteq> None"
  "set (map fst pending)" for pending
  by unfold_locales (auto simp: managed_movie_def movie_record_key_def)

interpretation series_sync: candidate_scope_sync "managed_show is_series_scope" candidate_series record_series record_series
  "\<lambda>_. False" "\<lambda>r. record_type r = SERIES \<and> is_series_scope r \<and> record_series r \<noteq> None" "{}"
  by unfold_locales (auto simp: managed_show_def is_series_scope_def)

interpretation season_sync: candidate_scope_sync "managed_show is_season_scope" season_id season_record_key season_id
  "\<lambda>_. False" "\<lambda>r. record_type r = SERIES \<and> is_season_scope r \<and> record_series r \<noteq> None" "{}"
  by unfold_locales (auto simp: managed_show_def is_season_scope_def season_record_key_def)

interpretation episode_sync: candidate_scope_sync "managed_show is_episode_scope" episode_id episode_record_key episode_id
  "\<lambda>_. False" "\<lambda>r. record_type r = SERIES \<and> is_episode_scope r \<and> record_series r \<noteq> None" "{}"
  by unfold_locales (auto simp: managed_show_def is_episode_scope_def episode_record_key_def)

end
