(* ===== verification/Managed_Protections.thy ===== *)
theory Managed_Protections
  imports Candidate_Scan
begin

text \<open>
  The rows that protect rules keep (\<open>_reconcile_rule_managed_protections\<close> in \<open>tasks/cleanup.py\<close>): after
  a scan they follow the records of what the rules match, except for rules whose data was missing.
\<close>

section \<open>Automated protections\<close>

type_synonym protection_key =
  "int \<times> media_type \<times> int option \<times> int option \<times> int option \<times> int option \<times> int option"

definition record_key :: "int \<Rightarrow> matched_record \<Rightarrow> protection_key" where
  "record_key i r = (i, record_type r, record_movie r, movie_version_id r, record_series r, season_id r, episode_id r)"

definition row_key :: "int \<Rightarrow> protected_media \<Rightarrow> protection_key" where
  "row_key i row =
     (i, protected_type row, protected_movie row, movie_version_id row, protected_series row, season_id row, episode_id row)"

definition managed_protection_reason :: "runtime \<Rightarrow> matched_record \<Rightarrow> int \<Rightarrow> string" where
  "managed_protection_reason rt r i =
     (let texts = filter (\<lambda>s. s \<noteq> [])
            (map (\<lambda>d. let raw = dget d ''text'' in py_strip (if truthy raw then py_str rt raw else []))
              (filter (\<lambda>d. equals_int (dget d ''rule_id'') i) (record_reason_data r)))
      in if texts \<noteq> [] then hd texts
         else if record_reason r \<noteq> [] then record_reason r else ''Matched automated protection rule'')"

text \<open>The rows that should be: one per matched rule and target, a later record of a key replacing an earlier one.\<close>

definition desired_protections ::
  "reclaim_rule list \<Rightarrow> matched_record list \<Rightarrow> (protection_key \<times> matched_record \<times> int) list" where
  "desired_protections rs records =
     dupdate [] (concat (map (\<lambda>r. map (\<lambda>i. (record_key i r, r, i))
       (filter (\<lambda>i. List.member (map rule_id rs) i) (record_rule_ids r))) records))"

definition new_protection :: "runtime \<Rightarrow> matched_record \<Rightarrow> int \<Rightarrow> protected_media" where
  "new_protection rt r i =
     scope.extend (scope.truncate r)
       \<lparr>protected_type = record_type r, protected_movie = record_movie r, protected_series = record_series r,
        source = ''rule'', permanent = True, expires_at = None,
        protection_reason = Some (managed_protection_reason rt r i), protected_by_user_id = None,
        source_rule_id = Some i\<rparr>"

definition renew_protection :: "string \<Rightarrow> protected_media \<Rightarrow> protected_media" where
  "renew_protection reason row =
     row\<lparr>protection_reason := Some reason, permanent := True, expires_at := None, protected_by_user_id := None\<rparr>"

record protection_counts =
  rows_created :: nat
  rows_updated :: nat
  rows_removed :: nat

text \<open>
  The rows that are there, with the keys seen so far: a row without a rule and a second row of a key
  go, and so does a row that is no longer wanted unless it is to be preserved.
\<close>

fun reconcile_rows ::
  "(protection_key \<Rightarrow> string option) \<Rightarrow> (protected_media \<Rightarrow> bool) \<Rightarrow> protection_key list \<Rightarrow> protected_media list \<Rightarrow>
   protected_media list \<times> protection_key list \<times> nat \<times> nat" where
  "reconcile_rows wanted_reason preserved seen [] = ([], seen, 0, 0)"
| "reconcile_rows wanted_reason preserved seen (row # rows) =
     (if source row \<noteq> ''rule''
      then (let (kept, s, u, d) = reconcile_rows wanted_reason preserved seen rows in (row # kept, s, u, d))
      else case source_rule_id row of
        None \<Rightarrow> (let (kept, s, u, d) = reconcile_rows wanted_reason preserved seen rows in (kept, s, u, d + 1))
      | Some i \<Rightarrow>
          (let key = row_key i row
           in if List.member seen key
              then (let (kept, s, u, d) = reconcile_rows wanted_reason preserved seen rows in (kept, s, u, d + 1))
              else (let (kept, s, u, d) = reconcile_rows wanted_reason preserved (key # seen) rows
                    in case wanted_reason key of
                         Some reason \<Rightarrow>
                           (renew_protection reason row # kept, s, (if renew_protection reason row = row then u else u + 1), d)
                       | None \<Rightarrow> if preserved row then (row # kept, s, u, d) else (kept, s, u, d + 1))))"

definition preserved_protection :: "int set \<Rightarrow> (int \<times> int) set \<Rightarrow> protected_media \<Rightarrow> bool" where
  "preserved_protection rule_ids series_keys row \<longleftrightarrow>
     (case source_rule_id row of
        None \<Rightarrow> False
      | Some i \<Rightarrow> i \<in> rule_ids \<or> (case protected_series row of None \<Rightarrow> False | Some s \<Rightarrow> (i, s) \<in> series_keys))"

definition reconcile_protections ::
  "runtime \<Rightarrow> reclaim_rule list \<Rightarrow> matched_record list \<Rightarrow> int set \<Rightarrow> (int \<times> int) set \<Rightarrow> protected_media list \<Rightarrow>
   protected_media list \<times> protection_counts" where
  "reconcile_protections rt rs records rule_ids series_keys rows =
     (let desired = desired_protections rs records;
          reason_of = (\<lambda>key. map_option (\<lambda>(r, i). managed_protection_reason rt r i) (map_of desired key));
          (kept, seen, u, d) = reconcile_rows reason_of (preserved_protection rule_ids series_keys) [] rows;
          fresh = filter (\<lambda>(key, r, i). \<not> List.member seen key) desired
      in (kept @ map (\<lambda>(key, r, i). new_protection rt r i) fresh,
          \<lparr>rows_created = length fresh, rows_updated = u, rows_removed = d\<rparr>))"

section \<open>Automated protections match the records\<close>

definition managed_key :: "protected_media \<Rightarrow> protection_key option" where
  "managed_key row = (if source row = ''rule'' then map_option (\<lambda>i. row_key i row) (source_rule_id row) else None)"

definition renewed :: "string \<Rightarrow> protected_media \<Rightarrow> bool" where
  "renewed reason row \<longleftrightarrow> protection_reason row = Some reason \<and> permanent row \<and> expires_at row = None \<and> protected_by_user_id row = None"

lemma renew_protection_fields [simp]:
  "source (renew_protection reason row) = source row" "source_rule_id (renew_protection reason row) = source_rule_id row"
  "row_key i (renew_protection reason row) = row_key i row" "managed_key (renew_protection reason row) = managed_key row"
  "renewed reason (renew_protection reason row)"
  by (simp_all add: renew_protection_def row_key_def managed_key_def renewed_def)

text \<open>The rows that stay, and the keys seen.\<close>

definition kept_rows where "kept_rows w p seen rows = fst (reconcile_rows w p seen rows)"

definition seen_keys where "seen_keys w p seen rows = fst (snd (reconcile_rows w p seen rows))"

lemma kept_rows_simps [simp]:
  "kept_rows w p seen [] = []"
  "source row \<noteq> ''rule'' \<Longrightarrow> kept_rows w p seen (row # rows) = row # kept_rows w p seen rows"
  "source row = ''rule'' \<Longrightarrow> kept_rows w p seen (row # rows) =
     (case managed_key row of
        None \<Rightarrow> kept_rows w p seen rows
      | Some k \<Rightarrow> if k \<in> set seen then kept_rows w p seen rows
                  else (case w k of Some reason \<Rightarrow> [renew_protection reason row] | None \<Rightarrow> if p row then [row] else []) @
                       kept_rows w p (k # seen) rows)"
  by (auto simp: kept_rows_def managed_key_def Let_def split: prod.splits option.splits)

lemma seen_keys_simps [simp]:
  "seen_keys w p seen [] = seen"
  "seen_keys w p seen (row # rows) =
     (case managed_key row of
        None \<Rightarrow> seen_keys w p seen rows
      | Some k \<Rightarrow> seen_keys w p (if k \<in> set seen then seen else k # seen) rows)"
  by (auto simp: seen_keys_def managed_key_def Let_def split: prod.splits option.splits)

lemma kept_manual: "filter (\<lambda>r. source r \<noteq> ''rule'') (kept_rows w p seen rows) = filter (\<lambda>r. source r \<noteq> ''rule'') rows"
proof (induction rows arbitrary: seen)
  case (Cons row rows)
  then show ?case by (cases "source row = ''rule''") (auto split: option.splits)
qed simp

lemma set_seen_keys: "set (seen_keys w p seen rows) = set seen \<union> {k. \<exists>r \<in> set rows. managed_key r = Some k}"
proof (induction rows arbitrary: seen)
  case (Cons row rows)
  then show ?case by (cases "managed_key row") auto
qed simp

text \<open>A rule's row that stays is wanted and renewed, or not wanted and preserved.\<close>

definition accounted ::
  "(protection_key \<Rightarrow> string option) \<Rightarrow> (protected_media \<Rightarrow> bool) \<Rightarrow> protection_key list \<Rightarrow> protected_media list \<Rightarrow>
   protected_media \<Rightarrow> bool" where
  "accounted w p seen rows row \<longleftrightarrow>
     (\<exists>k. managed_key row = Some k \<and> k \<notin> set seen \<and>
        ((\<exists>reason. w k = Some reason \<and> renewed reason row) \<or> w k = None \<and> p row \<and> row \<in> set rows))"

lemma accounted_more: "accounted w p seen rows row \<Longrightarrow> accounted w p seen (r # rows) row"
  unfolding accounted_def by (metis list.set_intros(2))

lemma accounted_less_seen: "accounted w p (k # seen) rows row \<Longrightarrow> accounted w p seen rows row"
  unfolding accounted_def by (metis list.set_intros(2))

lemma kept_accounted:
  "row \<in> set (kept_rows w p seen rows) \<Longrightarrow> source row = ''rule'' \<Longrightarrow> accounted w p seen rows row"
proof (induction rows arbitrary: seen)
  case (Cons r rows)
  consider "row \<in> set (kept_rows w p seen rows)"
    | k where "managed_key r = Some k" "k \<notin> set seen" "row \<in> set (kept_rows w p (k # seen) rows)"
    | k where "managed_key r = Some k" "k \<notin> set seen" "w k = None" "p r" "row = r"
    | k reason where "managed_key r = Some k" "k \<notin> set seen" "w k = Some reason" "row = renew_protection reason r"
    using Cons.prems by (cases "source r = ''rule''") (auto split: option.splits if_splits)
  then show ?case
  proof cases
    case 1
    then show ?thesis by (rule accounted_more[OF Cons.IH[OF _ Cons.prems(2)]])
  next
    case 2
    show ?thesis by (rule accounted_more[OF accounted_less_seen[OF Cons.IH[OF 2(3) Cons.prems(2)]]])
  next
    case 3
    then show ?thesis unfolding accounted_def by (metis list.set_intros(1))
  next
    case 4
    then show ?thesis unfolding accounted_def by (metis renew_protection_fields(4,5))
  qed
qed simp

lemma kept_keys: "row \<in> set (kept_rows w p seen rows) \<Longrightarrow> managed_key row \<in> managed_key ` set rows"
proof (induction rows arbitrary: seen)
  case (Cons r rows)
  then show ?case by (cases "source r = ''rule''") (auto split: option.splits if_splits)
qed simp

lemma kept_distinct:
  "distinct (map managed_key (filter (\<lambda>r. source r = ''rule'') (kept_rows w p seen rows)))"
proof (induction rows arbitrary: seen)
  case (Cons r rows)
  show ?case
  proof (cases "source r = ''rule'' \<and> (\<exists>k. managed_key r = Some k \<and> k \<notin> set seen)")
    case True
    then obtain k where k: "source r = ''rule''" "managed_key r = Some k" "k \<notin> set seen" by blast
    have "Some k \<notin> managed_key ` set (filter (\<lambda>r. source r = ''rule'') (kept_rows w p (k # seen) rows))"
    proof
      assume "Some k \<in> managed_key ` set (filter (\<lambda>r. source r = ''rule'') (kept_rows w p (k # seen) rows))"
      then obtain row where "row \<in> set (kept_rows w p (k # seen) rows)" "source row = ''rule''" "managed_key row = Some k" by auto
      with kept_accounted show False unfolding accounted_def by fastforce
    qed
    with k Cons show ?thesis by (auto split: option.splits)
  next
    case False
    with Cons show ?thesis by (cases "source r = ''rule''") (auto split: option.splits)
  qed
qed simp

lemma kept_wanted:
  assumes "r \<in> set rows" "managed_key r = Some k" "k \<notin> set seen" "w k = Some reason"
  shows "\<exists>row \<in> set (kept_rows w p seen rows). source row = ''rule'' \<and> managed_key row = Some k \<and> renewed reason row"
  using assms(1,3)
proof (induction rows arbitrary: seen)
  case (Cons r' rows)
  have rule: "source r = ''rule''" using assms(2) by (auto simp: managed_key_def split: if_splits)
  show ?case
  proof (cases "source r' = ''rule'' \<and> managed_key r' = Some k")
    case True
    with Cons.prems(2) assms(4) show ?thesis by auto
  next
    case False
    with Cons.prems(1) assms(2) rule have r: "r \<in> set rows" by auto
    show ?thesis
    proof (cases "source r' = ''rule''")
      case True
      with False r Cons.prems(2) Cons.IH[OF r, of seen] Cons.IH[OF r, of "the (managed_key r') # seen"] show ?thesis
        by (auto split: option.splits)
    qed (use Cons.IH[OF r Cons.prems(2)] in auto)
  qed
qed simp

lemma desired_sound:
  "(k, r, i) \<in> set (desired_protections rs records) \<Longrightarrow>
   k = record_key i r \<and> r \<in> set records \<and> i \<in> set (record_rule_ids r) \<and> i \<in> rule_id ` set rs"
  using set_dupdate[of "[]"] unfolding desired_protections_def by fastforce

lemma desired_complete:
  assumes "r \<in> set records" "i \<in> set (record_rule_ids r)" "i \<in> rule_id ` set rs"
  shows "map_of (desired_protections rs records) (record_key i r) \<noteq> None"
proof -
  have "record_key i r \<in> fst ` set (desired_protections rs records)"
    unfolding desired_protections_def keys_dupdate using assms by (force simp: image_iff)
  then show ?thesis by (simp add: map_of_eq_None_iff)
qed

lemma desired_distinct: "distinct (map fst (desired_protections rs records))"
  unfolding desired_protections_def by (rule distinct_dupdate) simp

lemma new_protection_fields [simp]:
  "source (new_protection rt r i) = ''rule''" "managed_key (new_protection rt r i) = Some (record_key i r)"
  "renewed (managed_protection_reason rt r i) (new_protection rt r i)" "permanent (new_protection rt r i)"
  by (simp_all add: new_protection_def managed_key_def row_key_def record_key_def renewed_def scope.defs)

definition wanted_reason :: "runtime \<Rightarrow> reclaim_rule list \<Rightarrow> matched_record list \<Rightarrow> protection_key \<Rightarrow> string option" where
  "wanted_reason rt rs records k =
     map_option (\<lambda>(r, i). managed_protection_reason rt r i) (map_of (desired_protections rs records) k)"

definition missing_protections ::
  "runtime \<Rightarrow> reclaim_rule list \<Rightarrow> matched_record list \<Rightarrow> protected_media list \<Rightarrow> protected_media list" where
  "missing_protections rt rs records rows =
     map (\<lambda>(k, r, i). new_protection rt r i)
       (filter (\<lambda>(k, r, i). Some k \<notin> managed_key ` set rows) (desired_protections rs records))"

lemma reconcile_shape:
  "fst (reconcile_protections rt rs records ids keys rows) =
   kept_rows (wanted_reason rt rs records) (preserved_protection ids keys) [] rows @ missing_protections rt rs records rows"
proof -
  let ?w = "wanted_reason rt rs records"
  let ?p = "preserved_protection ids keys"
  have k: "List.member (seen_keys ?w ?p [] rows) k \<longleftrightarrow> Some k \<in> managed_key ` set rows" for k
    by (force simp: set_seen_keys image_iff)
  have "?w = (\<lambda>key. map_option (\<lambda>(r, i). managed_protection_reason rt r i) (map_of (desired_protections rs records) key))"
    by (simp add: wanted_reason_def fun_eq_iff)
  then have "fst (reconcile_protections rt rs records ids keys rows) =
      kept_rows ?w ?p [] rows @ map (\<lambda>(key, r, i). new_protection rt r i)
        (filter (\<lambda>(key, r, i). \<not> List.member (seen_keys ?w ?p [] rows) key) (desired_protections rs records))"
    by (simp add: reconcile_protections_def kept_rows_def seen_keys_def Let_def split: prod.splits)
  then show ?thesis by (simp only: k missing_protections_def)
qed

lemma missing_row:
  assumes "row \<in> set (missing_protections rt rs records rows)"
  obtains k r i where "map_of (desired_protections rs records) k = Some (r, i)" "row = new_protection rt r i"
    "managed_key row = Some k" "Some k \<notin> managed_key ` set rows"
proof -
  obtain k r i where d: "(k, r, i) \<in> set (desired_protections rs records)" "row = new_protection rt r i" "Some k \<notin> managed_key ` set rows"
    using assms by (auto simp: missing_protections_def)
  moreover have "map_of (desired_protections rs records) k = Some (r, i)"
    using d(1) desired_distinct by (simp add: map_of_eq_Some_iff)
  ultimately show thesis using desired_sound[OF d(1)] that by simp
qed

lemma missing_distinct: "distinct (map managed_key (missing_protections rt rs records rows))"
proof -
  have "map managed_key (missing_protections rt rs records rows) =
      map Some (map fst (filter (\<lambda>(k, r, i). Some k \<notin> managed_key ` set rows) (desired_protections rs records)))"
    unfolding missing_protections_def by (auto dest: desired_sound)
  moreover have "distinct (map fst (filter (\<lambda>(k, r, i). Some k \<notin> managed_key ` set rows) (desired_protections rs records)))"
    by (rule distinct_map_filter[OF desired_distinct])
  ultimately show ?thesis by (simp only: distinct_map) (simp add: inj_on_def)
qed

definition stands_for :: "matched_record list \<Rightarrow> protected_media \<Rightarrow> bool" where
  "stands_for records row \<longleftrightarrow>
     (\<exists>r \<in> set records. \<exists>i \<in> set (record_rule_ids r). managed_key row = Some (record_key i r) \<and> permanent row)"

lemma wanted_stands:
  assumes "wanted_reason rt rs records k = Some reason" "managed_key row = Some k" "permanent row"
  shows "stands_for records row"
proof -
  obtain r i where "map_of (desired_protections rs records) k = Some (r, i)"
    using assms(1) by (auto simp: wanted_reason_def)
  from desired_sound[OF map_of_SomeD[OF this]] assms(2,3) show ?thesis unfolding stands_for_def by blast
qed

lemma reconciled_complete:
  assumes r: "r \<in> set records" "i \<in> set (record_rule_ids r)" "i \<in> rule_id ` set rs"
  shows "\<exists>row \<in> set (fst (reconcile_protections rt rs records ids keys rows)).
    managed_key row = Some (record_key i r) \<and> permanent row"
proof -
  let ?k = "record_key i r"
  obtain r' i' where d: "map_of (desired_protections rs records) ?k = Some (r', i')" using desired_complete[OF r] by fastforce
  then have w: "wanted_reason rt rs records ?k = Some (managed_protection_reason rt r' i')" by (simp add: wanted_reason_def)
  show ?thesis
  proof (cases "Some ?k \<in> managed_key ` set rows")
    case True
    then obtain row where row: "row \<in> set rows" "managed_key row = Some ?k" by auto
    from kept_wanted[where seen = "[]" and p = "preserved_protection ids keys" and w = "wanted_reason rt rs records", OF row _ w]
    show ?thesis
      unfolding reconcile_shape renewed_def by auto
  next
    case False
    with map_of_SomeD[OF d] have "new_protection rt r' i' \<in> set (missing_protections rt rs records rows)"
      unfolding missing_protections_def by force
    moreover have "managed_key (new_protection rt r' i') = Some ?k" using desired_sound[OF map_of_SomeD[OF d]] by simp
    moreover have "permanent (new_protection rt r' i')" by simp
    ultimately show ?thesis unfolding reconcile_shape set_append by blast
  qed
qed

lemma reconciled_sound:
  assumes "row \<in> set (fst (reconcile_protections rt rs records ids keys rows))" "source row = ''rule''"
  shows "stands_for records row \<or> row \<in> set rows \<and> preserved_protection ids keys row"
proof (cases "row \<in> set (missing_protections rt rs records rows)")
  case True
  then obtain k r i where m: "map_of (desired_protections rs records) k = Some (r, i)" "row = new_protection rt r i" "managed_key row = Some k"
    by (rule missing_row)
  then have "wanted_reason rt rs records k = Some (managed_protection_reason rt r i)" by (simp add: wanted_reason_def)
  from wanted_stands[OF this m(3)] m(2) show ?thesis by simp
next
  case False
  with assms(1) have "row \<in> set (kept_rows (wanted_reason rt rs records) (preserved_protection ids keys) [] rows)"
    unfolding reconcile_shape by auto
  from kept_accounted[OF this assms(2)] obtain k where k: "managed_key row = Some k"
    "(\<exists>reason. wanted_reason rt rs records k = Some reason \<and> renewed reason row) \<or> preserved_protection ids keys row \<and> row \<in> set rows"
    unfolding accounted_def by blast
  then show ?thesis using wanted_stands[OF _ k(1)] unfolding renewed_def by blast
qed

lemma missing_are_rule_rows: "row \<in> set (missing_protections rt rs records rows) \<Longrightarrow> source row = ''rule''"
  by (elim missing_row) simp

lemma reconciled_distinct:
  "distinct (map managed_key (filter (\<lambda>r. source r = ''rule'') (fst (reconcile_protections rt rs records ids keys rows))))"
proof -
  let ?kept = "kept_rows (wanted_reason rt rs records) (preserved_protection ids keys) [] rows"
  have "managed_key row \<in> managed_key ` set rows" if "row \<in> set ?kept" for row using kept_keys[OF that] .
  moreover have "managed_key row \<notin> managed_key ` set rows" if "row \<in> set (missing_protections rt rs records rows)" for row
    using that by (rule missing_row) simp
  ultimately have "set (map managed_key (filter (\<lambda>r. source r = ''rule'') ?kept)) \<inter>
      set (map managed_key (missing_protections rt rs records rows)) = {}"
    by (auto simp: image_iff) metis
  moreover have "filter (\<lambda>r. source r = ''rule'') (missing_protections rt rs records rows) = missing_protections rt rs records rows"
    using missing_are_rule_rows by (simp add: filter_id_conv)
  ultimately show ?thesis using kept_distinct missing_distinct unfolding reconcile_shape by simp
qed

lemma reconciled_manual:
  "filter (\<lambda>r. source r \<noteq> ''rule'') (fst (reconcile_protections rt rs records ids keys rows)) =
   filter (\<lambda>r. source r \<noteq> ''rule'') rows"
  using missing_are_rule_rows unfolding reconcile_shape by (simp add: kept_manual)

text \<open>C7: automated protections follow the rules.  After reconciliation every match of a protect rule has
  a permanent row of that rule, no rule protects a target twice, every automated row is a match or
  one that was to be preserved because its rule's data was missing, and the rows that people
  made are as they were.\<close>

theorem automated_protections_match:
  assumes "reconcile_protections rt rs records ids keys rows = (rows', counts)"
    and "\<And>r. r \<in> set records \<Longrightarrow> set (record_rule_ids r) \<subseteq> rule_id ` set rs"
  shows "(\<forall>r \<in> set records. \<forall>i \<in> set (record_rule_ids r).
        \<exists>row \<in> set rows'. managed_key row = Some (record_key i r) \<and> permanent row) \<and>
      distinct (map managed_key (filter (\<lambda>r. source r = ''rule'') rows')) \<and>
      (\<forall>row \<in> set rows'. source row = ''rule'' \<longrightarrow>
        stands_for records row \<or> row \<in> set rows \<and> preserved_protection ids keys row) \<and>
      filter (\<lambda>r. source r \<noteq> ''rule'') rows' = filter (\<lambda>r. source r \<noteq> ''rule'') rows"
proof -
  have r: "rows' = fst (reconcile_protections rt rs records ids keys rows)" using assms(1) by simp
  show ?thesis unfolding r
    by (intro conjI ballI impI reconciled_complete reconciled_distinct reconciled_sound reconciled_manual)
      (use assms(2) in auto)
qed

text \<open>One rule that protects a version; the table has a row of a rule that is gone and one made by hand.\<close>

definition demo_protect_rule :: reclaim_rule where
  "demo_protect_rule = \<lparr>rule_id = 2, rule_action = Some [(''outcome'', PStr ''protect'')], rule_enabled = True, rule_name = ''rule'',
     rule_media_type = MOVIE, rule_target_scope = ''movie_version'', rule_definition = PNone\<rparr>"

definition demo_protect_record :: matched_record where
  "demo_protect_record = \<lparr>movie_version_id = Some 12, season_id = None, episode_id = None, record_type = MOVIE, record_movie = Some 1,
     record_series = None, record_rule_ids = [2], record_criteria = [], record_reason = ''kept'', record_reason_data = [],
     record_size = None\<rparr>"

definition demo_rule_rows :: "protected_media list" where
  "demo_rule_rows = [demo_row None True None, (demo_row (Some 2) True None)\<lparr>source := ''rule'', source_rule_id := Some 7\<rparr>]"

theorem automated_protections_match_witness:
  "\<exists>rows' counts. reconcile_protections demo_runtime [demo_protect_rule] [demo_protect_record] {} {} demo_rule_rows = (rows', counts) \<and>
     (\<exists>row \<in> set rows'. managed_key row = Some (record_key 2 demo_protect_record) \<and> permanent row) \<and>
     filter (\<lambda>r. source r \<noteq> ''rule'') rows' = [demo_row None True None]"
proof -
  obtain rows' counts where
    r: "reconcile_protections demo_runtime [demo_protect_rule] [demo_protect_record] {} {} demo_rule_rows = (rows', counts)"
    by (cases "reconcile_protections demo_runtime [demo_protect_rule] [demo_protect_record] {} {} demo_rule_rows")
  have "set (record_rule_ids rec) \<subseteq> rule_id ` set [demo_protect_rule]" if "rec \<in> set [demo_protect_record]" for rec
    using that by (simp add: demo_protect_record_def demo_protect_rule_def)
  from automated_protections_match[OF r this] have
    "\<exists>row \<in> set rows'. managed_key row = Some (record_key 2 demo_protect_record) \<and> permanent row"
    "filter (\<lambda>r. source r \<noteq> ''rule'') rows' = [demo_row None True None]"
    by (simp_all add: demo_protect_record_def demo_rule_rows_def demo_row_def)
  with r show ?thesis by blast
qed

end
