(* ===== verification/Cleanup_Scan.thy ===== *)
theory Cleanup_Scan
  imports Candidate_Sync Managed_Protections "HOL-Library.Sublist"
begin

text \<open>
  A whole cleanup scan (\<open>_collect_rule_match_records\<close> and \<open>_scan_with_db_impl\<close> in \<open>tasks/cleanup.py\<close>):
  which rules take part when outside data is missing, the protections, then the candidates of each
  scope, the brake on a spike and the announcements.  Whether the outside data could be refreshed is
  an input; notices, notifications and the collections on the servers are left out.
\<close>

section \<open>Collecting\<close>

definition rules_for :: "string \<Rightarrow> reclaim_rule list \<Rightarrow> reclaim_rule list" where
  "rules_for name rs = filter (\<lambda>r. normalize_rule_target r = name) rs"

definition scope_targets ::
  "runtime \<Rightarrow> scan_inputs \<Rightarrow> scan_options \<Rightarrow> protected_media list \<Rightarrow> scan_library \<Rightarrow> string \<Rightarrow> scan_target list" where
  "scope_targets rt i opts rows lib name =
     (if name = ''movie_version'' then movie_targets rt i opts rows lib
      else if name = ''series'' then series_targets rt i opts rows lib
      else if name = ''season'' then season_targets rt i opts rows lib
      else episode_targets rt i opts rows lib)"

definition scope_names :: "string list" where
  "scope_names = [''movie_version'', ''series'', ''season'', ''episode'']"

definition collect_scope ::
  "runtime \<Rightarrow> evaluator \<Rightarrow> scan_inputs \<Rightarrow> scan_options \<Rightarrow> protected_media list \<Rightarrow> scan_library \<Rightarrow> reclaim_rule list \<Rightarrow>
   string \<Rightarrow> matched_record list result" where
  "collect_scope rt ev i opts rows lib rs name =
     (if rules_for name rs = [] then Ok []
      else collect_from rt ev (rules_for name rs) (scope_targets rt i opts rows lib name))"

text \<open>\<open>order_check\<close> is the check of a show's episode order on the given Sonarr instances; it gives the error found.\<close>

definition ordering_error ::
  "runtime \<Rightarrow> (int \<Rightarrow> int set option \<Rightarrow> string option) \<Rightarrow> reclaim_rule list \<Rightarrow> matched_record \<Rightarrow> string option" where
  "ordering_error rt order_check rs r =
     (if candidate_uses_episode_numbering rt (rules_by_id rs) (record_series r) (season_id r) (episode_id r) (record_rule_ids r)
      then order_check (the (record_series r))
             (candidate_arr_config_ids (map (\<lambda>(i, rule). (i, rule_action rule)) (rules_by_id rs)) Sonarr (record_rule_ids r))
      else None)"

definition collect_rule_match_records ::
  "runtime \<Rightarrow> evaluator \<Rightarrow> (int \<Rightarrow> int set option \<Rightarrow> string option) \<Rightarrow> scan_inputs \<Rightarrow> (string \<Rightarrow> scan_options) \<Rightarrow>
   protected_media list \<Rightarrow> scan_library \<Rightarrow> reclaim_rule list \<Rightarrow> matched_record list result" where
  "collect_rule_match_records rt ev order_check i opts rows lib rs =
     rbind (rmap (\<lambda>name. collect_scope rt ev i (opts name) rows lib rs name) scope_names)
       (\<lambda>found. Ok (filter (\<lambda>r. no_text (ordering_error rt order_check rs r)) (concat found)))"

definition protect_options :: scan_options where
  "protect_options = \<lparr>exclude_favorites = False, exclude_protected = False, only_targets = None\<rparr>"

definition candidate_options :: scan_options where
  "candidate_options = \<lparr>exclude_favorites = True, exclude_protected = True, only_targets = None\<rparr>"

section \<open>The rules that take part\<close>

record provider_state =
  seerr_ready :: bool
  playback_blocking :: bool
  playback_gaps :: bool
  sonarr_preserved :: "(int \<times> int) set"

definition scan_rules :: "reclaim_rule list \<Rightarrow> reclaim_rule list" where
  "scan_rules rs = filter (\<lambda>r. rule_enabled r \<and> normalize_rule_outcome r \<noteq> ''match'') rs"

definition protect_ids :: "reclaim_rule list \<Rightarrow> int set" where
  "protect_ids rs = set (map rule_id (filter (\<lambda>r. normalize_rule_outcome r = ''protect'') rs))"

definition without_seerr :: "runtime \<Rightarrow> provider_state \<Rightarrow> reclaim_rule list \<Rightarrow> reclaim_rule list" where
  "without_seerr rt pr rs = (if seerr_ready pr then rs else filter (\<lambda>r. \<not> rule_uses_seerr_fields rt r) rs)"

definition usable_rules :: "runtime \<Rightarrow> provider_state \<Rightarrow> reclaim_rule list \<Rightarrow> reclaim_rule list" where
  "usable_rules rt pr rs =
     (let rs' = without_seerr rt pr rs
      in if playback_blocking pr then filter (\<lambda>r. \<not> rule_uses_playback_fields rt r) rs' else rs')"

text \<open>The protect rules whose rows are kept because their data is missing or has gaps.\<close>

definition preserved_rule_ids :: "runtime \<Rightarrow> provider_state \<Rightarrow> reclaim_rule list \<Rightarrow> int set" where
  "preserved_rule_ids rt pr rs =
     (if seerr_ready pr then {} else protect_ids (filter (rule_uses_seerr_fields rt) rs)) \<union>
     (if playback_blocking pr \<or> playback_gaps pr
      then protect_ids (filter (rule_uses_playback_fields rt) (without_seerr rt pr rs)) else {})"

section \<open>The scan\<close>

definition add_counts :: "sync_counts \<Rightarrow> sync_counts \<Rightarrow> sync_counts" where
  "add_counts a b =
     \<lparr>candidates_created = candidates_created a + candidates_created b,
      candidates_updated = candidates_updated a + candidates_updated b,
      candidates_removed = candidates_removed a + candidates_removed b\<rparr>"

text \<open>One scope: its candidates follow the records, or all go when no rule is about the scope.\<close>

definition process_scope ::
  "reclaim_rule list \<Rightarrow> matched_record list result \<Rightarrow>
   (matched_record list \<Rightarrow> int \<Rightarrow> candidate list \<Rightarrow> sync_counts \<times> int \<times> candidate list) \<Rightarrow> (candidate \<Rightarrow> bool) \<Rightarrow>
   sync_counts \<times> int \<times> candidate list \<Rightarrow> (sync_counts \<times> int \<times> candidate list) result" where
  "process_scope rs collected sync in_scope st =
     (let (n, free, cs) = st
      in if rs \<noteq> [] then rbind collected (\<lambda>records. let (n', free', cs') = sync records free cs in Ok (add_counts n n', free', cs'))
         else (let gone = (\<lambda>c. delete_request_id c = None \<and> in_scope c)
               in Ok (add_counts n \<lparr>candidates_created = 0, candidates_updated = 0, candidates_removed = length (filter gone cs)\<rparr>,
                      free, filter (\<lambda>c. \<not> gone c) cs)))"

text \<open>The candidates of all four scopes, given the protections of the moment.\<close>

definition process_scopes ::
  "runtime \<Rightarrow> evaluator \<Rightarrow> scan_inputs \<Rightarrow> (int \<times> int) list \<Rightarrow> scan_library \<Rightarrow> reclaim_rule list \<Rightarrow> protected_media list \<Rightarrow>
   int \<Rightarrow> candidate list \<Rightarrow> (sync_counts \<times> int \<times> candidate list) result" where
  "process_scopes rt ev i pending lib rs rows free cs =
     (let now = scan_now i;
          collect = collect_scope rt ev i candidate_options rows lib rs;
          zero = \<lparr>candidates_created = 0, candidates_updated = 0, candidates_removed = 0\<rparr>
      in rbind (process_scope (rules_for ''movie_version'' rs) (collect ''movie_version'') (sync_movie_version_candidates now pending)
                  (\<lambda>c. candidate_type c = MOVIE) (zero, free, cs))
           (\<lambda>st. rbind (process_scope (rules_for ''series'' rs) (collect ''series'') (sync_series_candidates now)
                  (\<lambda>c. candidate_type c = SERIES \<and> is_series_scope c) st)
           (\<lambda>st. rbind (process_scope (rules_for ''season'' rs) (collect ''season'') (sync_season_candidates now)
                  (\<lambda>c. candidate_type c = SERIES \<and> is_season_scope c) st)
           (\<lambda>st. process_scope (rules_for ''episode'' rs) (collect ''episode'') (sync_episode_candidates now)
                  (\<lambda>c. candidate_type c = SERIES \<and> is_episode_scope c) st))))"

text \<open>The brake and the announcements that end a scan.\<close>

definition finish_scan :: "int \<Rightarrow> int set \<Rightarrow> sync_counts \<Rightarrow> tables \<Rightarrow> (sync_counts option \<times> int list \<times> tables) result" where
  "finish_scan now before n db =
     rbind (reconcile_candidate_schedule_events now (snd (postpone_candidate_spike now before (candidates_created n) db)))
       (\<lambda>(events, db'). Ok (Some n, events, db'))"

definition scan_with_db ::
  "runtime \<Rightarrow> evaluator \<Rightarrow> (int \<Rightarrow> int set option \<Rightarrow> string option) \<Rightarrow> scan_inputs \<Rightarrow> provider_state \<Rightarrow> (int \<times> int) list \<Rightarrow>
   scan_library \<Rightarrow> reclaim_rule list \<Rightarrow> int \<Rightarrow> tables \<Rightarrow> (sync_counts option \<times> int list \<times> tables) result" where
  "scan_with_db rt ev order_check i pr pending lib all_rules free db =
     (let rs = scan_rules all_rules
      in if rs = [] then
           Ok (None, [], db\<lparr>protected_rows := fst (reconcile_protections rt [] [] {} {} (protected_rows db)),
                           candidates := filter (\<lambda>c. delete_request_id c \<noteq> None) (candidates db)\<rparr>)
         else (let usable = usable_rules rt pr rs;
                   protecting = filter (\<lambda>r. normalize_rule_outcome r = ''protect'') usable;
                   flagging = filter (\<lambda>r. normalize_rule_outcome r = ''candidate'') usable
               in rbind (collect_rule_match_records rt ev order_check i (\<lambda>_. protect_options) (protected_rows db) lib protecting)
                    (\<lambda>records. let rows = fst (reconcile_protections rt protecting records (preserved_rule_ids rt pr rs)
                                            (sonarr_preserved pr) (protected_rows db))
                     in rbind (process_scopes rt ev i pending lib flagging rows free (candidates db))
                          (\<lambda>(n, free', cs). finish_scan (scan_now i) (set (map candidate_id (candidates db))) n
                             (db\<lparr>protected_rows := rows, candidates := cs\<rparr>)))))"

section \<open>Media and rows have one identity\<close>

fun target_medium :: "scan_target \<Rightarrow> int" where
  "target_medium (Version_Target m v) = mv_id v"
| "target_medium (Series_Target s) = series_no s"
| "target_medium (Season_Target s se) = ms_id se"
| "target_medium (Episode_Target s se e) = me_id e"

definition library_keyed :: "scan_library \<Rightarrow> bool" where
  "library_keyed lib \<longleftrightarrow>
     distinct (map mv_id (concat (map movie_versions (scan_movies lib)))) \<and>
     distinct (map series_no (scan_shows lib)) \<and>
     distinct (map ms_id (concat (map series_seasons (scan_shows lib)))) \<and>
     distinct (map me_id (concat (map (\<lambda>s. concat (map season_episodes (series_seasons s))) (scan_shows lib))))"

lemma subseq_concat: "(\<And>x. subseq (f x) (g x)) \<Longrightarrow> subseq (concat (map f (filter Q xs))) (concat (map g xs))"
  by (induction xs) (auto intro: list_emb_append_mono list_emb_append2)

lemma subseq_distinct: "subseq xs ys \<Longrightarrow> distinct ys \<Longrightarrow> distinct xs"
  by (induction rule: list_emb.induct) (auto dest: list_emb_set)

lemma scope_targets_distinct:
  assumes "library_keyed lib"
  shows "distinct (map target_medium (scope_targets rt i opts rows lib name))"
proof -
  have "subseq (map target_medium (movie_targets rt i opts rows lib)) (map mv_id (concat (map movie_versions (scan_movies lib))))"
    unfolding movie_targets_def Let_def map_concat map_map comp_def target_medium.simps
    by (rule subseq_concat) (auto intro: subseq_map)
  moreover have "subseq (map target_medium (series_targets rt i opts rows lib)) (map series_no (scan_shows lib))"
    unfolding series_targets_def Let_def map_map comp_def target_medium.simps by (auto intro: subseq_map)
  moreover have "subseq (map target_medium (season_targets rt i opts rows lib)) (map ms_id (concat (map series_seasons (scan_shows lib))))"
    unfolding season_targets_def open_shows_def Let_def map_concat map_map comp_def target_medium.simps
    by (rule subseq_concat) (auto intro: subseq_map)
  moreover have "subseq (map target_medium (episode_targets rt i opts rows lib))
      (map me_id (concat (map (\<lambda>s. concat (map season_episodes (series_seasons s))) (scan_shows lib))))"
    unfolding episode_targets_def open_shows_def Let_def map_concat map_map comp_def target_medium.simps
    by (intro subseq_concat) (auto intro: subseq_map)
  ultimately show ?thesis using assms by (auto simp: scope_targets_def library_keyed_def dest: subseq_distinct)
qed

lemma collected_keys:
  assumes "collect_from rt ev rs targets = Ok records" and "\<And>t r. t \<in> set targets \<Longrightarrow> record_of r t \<Longrightarrow> key r = Some (target_medium t)"
  shows "subseq (somes (map key records)) (map target_medium targets)"
proof -
  let ?f = "\<lambda>t. rbind (match_rules (evaluate_rule_for rt ev t) rs ([], [])) (\<lambda>m. Ok (record_for rt t m))"
  have "subseq (somes (map key (somes found))) (map target_medium targets)"
    if "rmap ?f targets = Ok found" "\<And>t r. t \<in> set targets \<Longrightarrow> record_of r t \<Longrightarrow> key r = Some (target_medium t)" for found
    using that
  proof (induction targets arbitrary: found)
    case (Cons t ts)
    then obtain m ys where m: "found = record_for rt t m # ys" "rmap ?f ts = Ok ys" by (auto simp: rbind_Ok_iff)
    with Cons have "subseq (somes (map key (somes ys))) (map target_medium ts)" by simp
    then show ?case using m(1) Cons.prems(2)[of t] record_for_of[of rt t m] by (cases "record_for rt t m") auto
  qed simp
  with assms show ?thesis by (auto simp: collect_from_def rbind_Ok_iff)
qed

section \<open>A scan and its candidates\<close>

text \<open>A candidate is about the target, and it names all the rules that match the target, in their order.\<close>

definition candidate_on :: "candidate \<Rightarrow> scan_target \<Rightarrow> bool" where
  "candidate_on c t \<longleftrightarrow> candidate_type c = target_type t \<and>
     (if candidate_type c = MOVIE
      then candidate_movie c = target_movie t \<and> movie_version_id c = movie_version_id (target_scope t)
      else candidate_series c = target_series t \<and> season_id c = season_id (target_scope t) \<and> episode_id c = episode_id (target_scope t))"

definition matched_by_rules :: "evaluator \<Rightarrow> reclaim_rule list \<Rightarrow> candidate \<Rightarrow> scan_target \<Rightarrow> bool" where
  "matched_by_rules ev rs c t \<longleftrightarrow> matched_rule_ids c \<noteq> [] \<and>
     matched_rule_ids c = map rule_id (filter (rule_hits ev t) rs)"

definition unrequested :: "(candidate \<Rightarrow> bool) \<Rightarrow> candidate \<Rightarrow> bool" where
  "unrequested in_scope c \<longleftrightarrow> delete_request_id c = None \<and> in_scope c"

text \<open>Two rows with one number and the same grace period.\<close>

definition same_clock :: "candidate \<Rightarrow> candidate \<Rightarrow> bool" where
  "same_clock c c' \<longleftrightarrow> candidate_id c' = candidate_id c \<and> created_at c' = created_at c \<and>
     timer_started_at c' = timer_started_at c \<and> postponed_until c' = postponed_until c \<and> cancelled_at c' = cancelled_at c"

definition clocks_kept :: "int \<Rightarrow> candidate list \<Rightarrow> candidate list \<Rightarrow> bool" where
  "clocks_kept free cs cs' \<longleftrightarrow> (\<forall>c \<in> set cs'. free \<le> candidate_id c \<or> (\<exists>c0 \<in> set cs. same_clock c0 c))"

lemma same_clock_refl [simp]: "same_clock c c"
  by (simp add: same_clock_def)

lemma same_clock_trans: "same_clock c c' \<Longrightarrow> same_clock c' c'' \<Longrightarrow> same_clock c c''"
  by (simp add: same_clock_def)

lemma same_clock_refresh: "same_clock c (refresh_candidate now r c)"
  by (simp add: same_clock_def refresh_candidate_def)

lemma clocks_kept_fewer: "set cs' \<subseteq> set cs \<Longrightarrow> clocks_kept free cs cs'"
  unfolding clocks_kept_def using same_clock_refl by blast

lemma clocks_kept_trans:
  assumes "clocks_kept free cs cs'" "clocks_kept free' cs' cs''" "free \<le> free'"
  shows "clocks_kept free cs cs''"
  unfolding clocks_kept_def
proof
  fix c assume "c \<in> set cs''"
  with assms(2) consider "free' \<le> candidate_id c" | c1 where "c1 \<in> set cs'" "same_clock c1 c" unfolding clocks_kept_def by blast
  then show "free \<le> candidate_id c \<or> (\<exists>c0 \<in> set cs. same_clock c0 c)"
  proof cases
    case 2
    with assms(1) have "free \<le> candidate_id c1 \<or> (\<exists>c0 \<in> set cs. same_clock c0 c1)" unfolding clocks_kept_def by blast
    moreover have "candidate_id c = candidate_id c1" using 2(2) by (simp add: same_clock_def)
    ultimately show ?thesis using same_clock_trans[OF _ 2(2)] by auto
  qed (use assms(3) in simp)
qed

context candidate_scope_sync
begin

lemma came_from_clock: "came_from now free cs r c \<Longrightarrow> free \<le> candidate_id c \<or> (\<exists>c0 \<in> set cs. same_clock c0 c)"
  unfolding came_from_def using same_clock_refresh by fastforce

lemma synchronised_clocks:
  assumes "synchronised now records free cs free' cs'"
  shows "clocks_kept free cs cs'"
  unfolding clocks_kept_def
proof
  fix c assume c: "c \<in> set cs'"
  show "free \<le> candidate_id c \<or> (\<exists>c0 \<in> set cs. same_clock c0 c)"
  proof (cases "managed c")
    case True
    with c assms obtain r where "came_from now free cs r c" unfolding synchronised_def by blast
    then show ?thesis by (rule came_from_clock)
  next
    case False
    with c have "c \<in> set (filter (\<lambda>c. \<not> managed c) cs')" by simp
    with assms have "c \<in> set cs" unfolding synchronised_def by auto
    then show ?thesis using same_clock_refl by blast
  qed
qed

lemma came_from_rules: "came_from now free cs r c \<Longrightarrow> matched_rule_ids c = record_rule_ids r"
  by (auto simp: came_from_def refresh_candidate_def new_candidate_def scope.defs)

text \<open>What is left of a scope: what the records say, and nothing of the rest is touched.\<close>

definition scope_done ::
  "int \<Rightarrow> (candidate \<Rightarrow> bool) \<Rightarrow> matched_record list \<Rightarrow> int \<Rightarrow> candidate list \<Rightarrow> int \<Rightarrow> candidate list \<Rightarrow> bool" where
  "scope_done now in_scope records free cs free' cs' \<longleftrightarrow>
     filter (\<lambda>c. \<not> unrequested in_scope c) cs' = filter (\<lambda>c. \<not> unrequested in_scope c) cs \<and>
     (\<forall>c \<in> set cs'. managed c \<longrightarrow> (\<exists>r \<in> set records. came_from now free cs r c)) \<and>
     (\<forall>r \<in> set records. \<exists>c \<in> set cs'. managed c \<and> came_from now free cs r c) \<and>
     tidy cs' \<and> numbered free' cs' \<and> free \<le> free' \<and> clocks_kept free cs cs'"

lemma filter_within:
  assumes "filter (\<lambda>c. \<not> managed c) xs = filter (\<lambda>c. \<not> managed c) ys" and "\<And>c. managed c \<Longrightarrow> P c"
  shows "filter (\<lambda>c. \<not> P c) xs = filter (\<lambda>c. \<not> P c) ys"
proof -
  have "filter (\<lambda>c. \<not> P c) zs = filter (\<lambda>c. \<not> P c) (filter (\<lambda>c. \<not> managed c) zs)" for zs
    unfolding filter_filter using assms(2) by (auto intro: filter_cong)
  then show ?thesis using assms(1) by metis
qed

lemma process_scope_done:
  assumes "process_scope rs collected sync in_scope (n, free, cs) = Ok (n', free', cs')"
    and "rs = [] \<Longrightarrow> collected = Ok []"
    and sync: "\<And>records. sync records = sync_candidates now managed medium key field obsolete (filter p records)"
    and ready: "\<And>records. collected = Ok records \<Longrightarrow> ready (filter p records) free cs"
    and gone: "\<And>c. managed c \<Longrightarrow> unrequested in_scope c"
  obtains records where "collected = Ok records" "scope_done now in_scope (filter p records) free cs free' cs'"
proof (cases "rs = []")
  case True
  then have free: "free' = free" and cs': "cs' = filter (\<lambda>c. \<not> unrequested in_scope c) cs"
    using assms(1) by (auto simp: process_scope_def unrequested_def[abs_def])
  have r: "ready [] free cs" using ready[OF assms(2)[OF True]] by simp
  have sub: "set cs' \<subseteq> set cs" unfolding cs' by auto
  show ?thesis
  proof (rule that[OF assms(2)[OF True]], unfold scope_done_def, intro conjI)
    show "tidy cs'" using readyD(1)[OF r] sub unfolding tidy_def by blast
    show "numbered free' cs'"
      using readyD(2)[OF r] sub unfolding numbered_def free cs' by (auto intro: distinct_map_filter)
    show "clocks_kept free cs cs'" by (rule clocks_kept_fewer[OF sub])
  qed (use gone in \<open>auto simp: cs' free\<close>)
next
  case False
  then obtain records where r: "collected = Ok records" using assms(1) by (auto simp: process_scope_def rbind_Ok_iff)
  obtain k fr xs where x: "sync_candidates now managed medium key field obsolete (filter p records) free cs = (k, fr, xs)"
    by (rule prod_cases3)
  then have s: "sync_candidates now managed medium key field obsolete (filter p records) free cs = (k, free', cs')"
    using assms(1) False by (simp add: process_scope_def r sync)
  from sync_synchronises[OF s ready[OF r]] show ?thesis
    by (intro that[OF r]) (auto simp: scope_done_def synchronised_clocks, auto simp: synchronised_def intro: filter_within gone)
qed

end

text \<open>The rows of shows agree with the library on where a season or an episode belongs.\<close>

definition placed :: "scan_library \<Rightarrow> candidate \<Rightarrow> bool" where
  "placed lib c \<longleftrightarrow>
     (\<forall>s \<in> set (scan_shows lib). \<forall>se \<in> set (series_seasons s).
        (candidate_type c = SERIES \<and> is_season_scope c \<and> season_id c = Some (ms_id se) \<longrightarrow> candidate_series c = Some (series_no s)) \<and>
        (\<forall>e \<in> set (season_episodes se). candidate_type c = SERIES \<and> episode_id c = Some (me_id e) \<longrightarrow>
           candidate_series c = Some (series_no s) \<and> season_id c = Some (ms_id se)))"

lemma target_shape:
  "t \<in> set (movie_targets rt i opts rows lib) \<Longrightarrow> \<exists>m \<in> set (scan_movies lib). \<exists>v \<in> set (movie_versions m). t = Version_Target m v"
  "t \<in> set (series_targets rt i opts rows lib) \<Longrightarrow> \<exists>s \<in> set (scan_shows lib). t = Series_Target s"
  "t \<in> set (season_targets rt i opts rows lib) \<Longrightarrow>
     \<exists>s \<in> set (scan_shows lib). \<exists>se \<in> set (series_seasons s). t = Season_Target s se"
  "t \<in> set (episode_targets rt i opts rows lib) \<Longrightarrow>
     \<exists>s \<in> set (scan_shows lib). \<exists>se \<in> set (series_seasons s). \<exists>e \<in> set (season_episodes se). t = Episode_Target s se e"
  by (auto simp: movie_targets_def series_targets_def season_targets_def episode_targets_def open_shows_def Let_def)

lemma record_of_simps:
  "record_of r (Version_Target m v) \<longleftrightarrow> record_type r = MOVIE \<and> record_movie r = Some (movie_no m) \<and> record_series r = None \<and>
     movie_version_id r = Some (mv_id v) \<and> season_id r = None \<and> episode_id r = None"
  "record_of r (Series_Target s) \<longleftrightarrow> record_type r = SERIES \<and> record_movie r = None \<and> record_series r = Some (series_no s) \<and>
     movie_version_id r = None \<and> season_id r = None \<and> episode_id r = None"
  "record_of r (Season_Target s se) \<longleftrightarrow> record_type r = SERIES \<and> record_movie r = None \<and> record_series r = Some (series_no s) \<and>
     movie_version_id r = None \<and> season_id r = Some (ms_id se) \<and> episode_id r = None"
  "record_of r (Episode_Target s se e) \<longleftrightarrow> record_type r = SERIES \<and> record_movie r = None \<and> record_series r = Some (series_no s) \<and>
     movie_version_id r = None \<and> season_id r = Some (ms_id se) \<and> episode_id r = Some (me_id e)"
  by (auto simp: record_of_def target_type_def scope.defs)

lemma collect_scope_sound:
  assumes "collect_scope rt ev i opts rows lib rs name = Ok records" "r \<in> set records"
  obtains t where "t \<in> set (scope_targets rt i opts rows lib name)" "record_of r t" "record_rule_ids r \<noteq> []"
    "record_rule_ids r = map rule_id (filter (rule_hits ev t) rs)"
    "\<And>k. k \<in> set (record_rule_ids r) \<Longrightarrow> \<exists>rule \<in> set rs. rule_id rule = k \<and> normalize_rule_target rule = target_scope_name t \<and>
       (\<exists>fs. ev rule t = Ok (True, fs))"
proof -
  have "collect_from rt ev (rules_for name rs) (scope_targets rt i opts rows lib name) = Ok records"
    using assms by (auto simp: collect_scope_def split: if_splits)
  then show thesis
  proof (rule collect_from_sound[OF _ assms(2)])
    fix t assume t: "t \<in> set (scope_targets rt i opts rows lib name)" "record_of r t" "record_rule_ids r \<noteq> []"
      and all: "record_rule_ids r = map rule_id (filter (rule_hits ev t) (rules_for name rs))"
      and just: "\<And>k. k \<in> set (record_rule_ids r) \<Longrightarrow> \<exists>rule \<in> set (rules_for name rs). rule_id rule = k \<and>
        normalize_rule_target rule = target_scope_name t \<and> (\<exists>fs. ev rule t = Ok (True, fs))"
    have "target_scope_name t = name" using t(3) all by (auto simp: rules_for_def rule_hits_def filter_empty_conv)
    then have "filter (rule_hits ev t) (rules_for name rs) = filter (rule_hits ev t) rs"
      unfolding rules_for_def filter_filter by (auto simp: rule_hits_def intro: filter_cong)
    with all have "record_rule_ids r = map rule_id (filter (rule_hits ev t) rs)" by simp
    then show thesis by (rule that[OF t]) (drule just, auto simp: rules_for_def)
  qed
qed

lemma collect_scope_complete:
  assumes "collect_scope rt ev i opts rows lib rs name = Ok records" "t \<in> set (scope_targets rt i opts rows lib name)"
    and "target_scope_name t = name" "rule \<in> set rs" "normalize_rule_target rule = name" "target_can_match t" "ev rule t = Ok (True, fs)"
  obtains r where "r \<in> set records" "record_of r t"
proof -
  have rule: "rule \<in> set (rules_for name rs)" using assms(4,5) by (simp add: rules_for_def)
  then have c: "collect_from rt ev (rules_for name rs) (scope_targets rt i opts rows lib name) = Ok records"
    using assms(1) by (auto simp: collect_scope_def split: if_splits)
  then obtain found where "rmap (\<lambda>t. rbind (match_rules (evaluate_rule_for rt ev t) (rules_for name rs) ([], [])) (\<lambda>m. Ok (record_for rt t m)))
      (scope_targets rt i opts rows lib name) = Ok found"
    unfolding collect_from_def rbind_Ok_iff by blast
  then have "\<forall>t \<in> set (scope_targets rt i opts rows lib name).
      is_ok (rbind (match_rules (evaluate_rule_for rt ev t) (rules_for name rs) ([], [])) (\<lambda>m. Ok (record_for rt t m)))"
    unfolding is_ok_rmap[symmetric] by simp
  from bspec[OF this assms(2)]
  obtain m where m: "match_rules (evaluate_rule_for rt ev t) (rules_for name rs) ([], []) = Ok m"
    by (cases "match_rules (evaluate_rule_for rt ev t) (rules_for name rs) ([], [])") auto
  obtain ids st where "m = (ids, st)" by (cases m)
  with match_rules_complete[OF m[unfolded this] rule _ assms(6,7)] assms(3,5) have "fst m \<noteq> []" by auto
  then obtain r where r: "record_for rt t m = Some r" by (simp add: record_for_Some)
  with collect_from_iff[OF c] assms(2) m have "r \<in> set records" by blast
  with record_for_of[OF r] that show thesis by blast
qed

text \<open>The table as a scan finds and leaves it: numbered rows, one unrequested row per medium.\<close>

definition one_each :: "(candidate \<Rightarrow> bool) \<Rightarrow> (candidate \<Rightarrow> int option) \<Rightarrow> (candidate \<Rightarrow> bool) \<Rightarrow> candidate list \<Rightarrow> bool" where
  "one_each managed medium obsolete cs \<longleftrightarrow>
     (\<forall>c \<in> set cs. \<forall>c' \<in> set cs. managed c \<longrightarrow> managed c' \<longrightarrow> medium c = medium c' \<longrightarrow> medium c \<noteq> None \<longrightarrow> c = c') \<and>
     (\<forall>c \<in> set cs. managed c \<longrightarrow> medium c = None \<longrightarrow> obsolete c)"

definition scan_ready :: "(int \<times> int) list \<Rightarrow> int \<Rightarrow> candidate list \<Rightarrow> bool" where
  "scan_ready pending free cs \<longleftrightarrow> numbered free cs \<and> (\<forall>(k, m) \<in> set pending. k < free) \<and>
     one_each (managed_movie pending) movie_version_id (\<lambda>c. movie_version_id c = None) cs \<and>
     one_each (managed_show is_series_scope) candidate_series (\<lambda>_. False) cs \<and>
     one_each (managed_show is_season_scope) season_id (\<lambda>_. False) cs \<and>
     one_each (managed_show is_episode_scope) episode_id (\<lambda>_. False) cs"

text \<open>What the scan of one scope promises; \<open>admitted\<close> targets are not waiting for a resync.\<close>

definition stage_done ::
  "(candidate \<Rightarrow> bool) \<Rightarrow> (candidate \<Rightarrow> int option) \<Rightarrow> (candidate \<Rightarrow> bool) \<Rightarrow> (candidate \<Rightarrow> bool) \<Rightarrow> evaluator \<Rightarrow>
   reclaim_rule list \<Rightarrow> (scan_target \<Rightarrow> bool) \<Rightarrow> scan_target list \<Rightarrow> candidate list \<Rightarrow> int \<Rightarrow> int \<Rightarrow> candidate list \<Rightarrow> bool" where
  "stage_done managed medium obsolete in_scope ev rs admitted targets cs free free' cs' \<longleftrightarrow>
     filter (\<lambda>c. \<not> unrequested in_scope c) cs' = filter (\<lambda>c. \<not> unrequested in_scope c) cs \<and>
     one_each managed medium obsolete cs' \<and> numbered free' cs' \<and> free \<le> free' \<and> clocks_kept free cs cs' \<and>
     (\<forall>c \<in> set cs'. managed c \<longrightarrow> (\<exists>t \<in> set targets. candidate_on c t \<and> matched_by_rules ev rs c t)) \<and>
     (\<forall>t \<in> set targets. \<forall>rule \<in> set rs. normalize_rule_target rule = target_scope_name t \<longrightarrow> target_can_match t \<longrightarrow>
        (\<exists>fs. ev rule t = Ok (True, fs)) \<longrightarrow> admitted t \<longrightarrow> (\<exists>c \<in> set cs'. managed c \<and> candidate_on c t))"

lemma somes_filter_subseq: "subseq (somes (map key (filter p rs))) (somes (map key rs))"
proof (induction rs)
  case (Cons r rs)
  then show ?case by (cases "key r") auto
qed simp

context candidate_scope_sync
begin

lemma tidy_one_each: "tidy cs \<longleftrightarrow> one_each managed medium obsolete cs"
  by (simp add: tidy_def one_each_def)

lemma one_each_fewer:
  assumes "one_each managed medium obsolete cs" and "\<And>c. managed c \<Longrightarrow> c \<in> set cs' \<Longrightarrow> c \<in> set cs"
  shows "one_each managed medium obsolete cs'"
  using assms unfolding one_each_def by blast

lemma scope_ready:
  assumes "collect_scope rt ev i opts rows lib rs name = Ok records" "library_keyed lib"
    and of: "\<And>t r. t \<in> set (scope_targets rt i opts rows lib name) \<Longrightarrow> record_of r t \<Longrightarrow> belongs r \<and> key r = Some (target_medium t)"
    and "one_each managed medium obsolete cs" "numbered free cs" "reserved \<subseteq> {i. i < free}"
  shows "ready (filter p records) free cs"
proof -
  have "subseq (somes (map key records)) (map target_medium (scope_targets rt i opts rows lib name))"
    using assms(1) of collected_keys[of rt ev "rules_for name rs" "scope_targets rt i opts rows lib name" records key]
    by (auto simp: collect_scope_def split: if_splits)
  then have "distinct (somes (map key records))" by (rule subseq_distinct) (rule scope_targets_distinct[OF assms(2)])
  then have "distinct (somes (map key (filter p records)))" by (rule subseq_distinct[OF somes_filter_subseq])
  moreover have "belongs r" if "r \<in> set records" for r using collect_scope_sound[OF assms(1) that] of by metis
  ultimately show ?thesis using assms(4-6) by (simp add: ready_def tidy_one_each)
qed

lemma scope_stage:
  assumes p: "process_scope (rules_for name rs) (collect_scope rt ev i opts rows lib rs name) sync in_scope (n, free, cs) = Ok (n', free', cs')"
    and lib: "library_keyed lib" and ok: "one_each managed medium obsolete cs" "numbered free cs" "reserved \<subseteq> {i. i < free}"
    and sync: "\<And>records. sync records = sync_candidates now managed medium key field obsolete (filter p records)"
    and gone: "\<And>c. managed c \<Longrightarrow> unrequested in_scope c"
    and of: "\<And>t r. t \<in> set (scope_targets rt i opts rows lib name) \<Longrightarrow> record_of r t \<Longrightarrow> belongs r \<and> key r = Some (target_medium t)"
    and on: "\<And>t r c. t \<in> set (scope_targets rt i opts rows lib name) \<Longrightarrow> record_of r t \<Longrightarrow> came_from now free cs r c \<Longrightarrow> candidate_on c t"
    and names: "\<And>t. t \<in> set (scope_targets rt i opts rows lib name) \<Longrightarrow> target_scope_name t = name"
    and all: "\<And>t r. admitted t \<Longrightarrow> record_of r t \<Longrightarrow> p r"
  shows "stage_done managed medium obsolete in_scope ev rs admitted (scope_targets rt i opts rows lib name) cs free free' cs'"
proof -
  let ?collected = "collect_scope rt ev i opts rows lib rs name"
  obtain records where r: "?collected = Ok records" and d: "scope_done now in_scope (filter p records) free cs free' cs'"
    by (rule process_scope_done[OF p _ sync scope_ready[OF _ lib of ok] gone]) (simp add: collect_scope_def)
  have sound: "\<exists>t \<in> set (scope_targets rt i opts rows lib name). candidate_on c t \<and> matched_by_rules ev rs c t"
    if c: "c \<in> set cs'" "managed c" for c
  proof -
    obtain rec where rec: "rec \<in> set records" "came_from now free cs rec c" using d c by (auto simp: scope_done_def)
    show ?thesis
    proof (rule collect_scope_sound[OF r rec(1)])
      fix t assume t: "t \<in> set (scope_targets rt i opts rows lib name)" "record_of rec t" "record_rule_ids rec \<noteq> []"
        and "record_rule_ids rec = map rule_id (filter (rule_hits ev t) rs)"
      then have "matched_by_rules ev rs c t" using came_from_rules[OF rec(2)] by (simp add: matched_by_rules_def)
      with on[OF t(1,2) rec(2)] t(1) show ?thesis by blast
    qed
  qed
  have complete: "\<exists>c \<in> set cs'. managed c \<and> candidate_on c t"
    if t: "t \<in> set (scope_targets rt i opts rows lib name)" "rule \<in> set rs" "normalize_rule_target rule = target_scope_name t"
      "target_can_match t" "ev rule t = Ok (True, fs)" "admitted t" for t rule fs
  proof -
    note n = names[OF t(1)]
    obtain rec where rec: "rec \<in> set records" "record_of rec t"
      using collect_scope_complete[OF r t(1) n t(2) t(3)[unfolded n] t(4,5)] .
    with all[OF t(6)] d have "\<exists>c \<in> set cs'. managed c \<and> came_from now free cs rec c" by (simp add: scope_done_def)
    with on[OF t(1) rec(2)] show ?thesis by blast
  qed
  show ?thesis
    unfolding stage_done_def using d sound complete by (simp only: scope_done_def tidy_one_each) blast
qed

end

section \<open>The four scopes in turn\<close>

definition all_targets ::
  "runtime \<Rightarrow> scan_inputs \<Rightarrow> scan_options \<Rightarrow> protected_media list \<Rightarrow> scan_library \<Rightarrow> scan_target list" where
  "all_targets rt i opts rows lib = concat (map (scope_targets rt i opts rows lib) scope_names)"

lemma kept_outside:
  "filter P xs = filter P ys \<Longrightarrow> P c \<Longrightarrow> c \<in> set xs \<longleftrightarrow> c \<in> set ys"
  by (metis (mono_tags, lifting) mem_Collect_eq set_filter)

lemmas scope_name_simps = scope_targets_def scope_names_def

lemma movie_stage_facts:
  assumes "t \<in> set (scope_targets rt i opts rows lib ''movie_version'')" "record_of r t"
  shows "record_type r = MOVIE \<and> record_movie r \<noteq> None \<and> movie_version_id r = Some (target_medium t) \<and>
    movie_record_key r = Some (target_medium t)"
    "movie_sync.came_from pending now free cs r c \<Longrightarrow> candidate_on c t"
proof -
  obtain m v where t: "t = Version_Target m v" using assms(1) target_shape(1) by (fastforce simp: scope_targets_def)
  with assms(2) have r: "record_type r = MOVIE" "record_movie r = Some (movie_no m)" "movie_version_id r = Some (mv_id v)"
    by (simp_all add: record_of_simps)
  then show "record_type r = MOVIE \<and> record_movie r \<noteq> None \<and> movie_version_id r = Some (target_medium t) \<and>
    movie_record_key r = Some (target_medium t)"
    using t by (simp add: movie_record_key_def)
  with r t show "candidate_on c t" if "movie_sync.came_from pending now free cs r c"
    using that by (auto simp: movie_sync.came_from_def candidate_on_def target_type_def managed_movie_def refresh_candidate_def)
qed

lemma series_stage_facts:
  assumes "t \<in> set (scope_targets rt i opts rows lib ''series'')" "record_of r t"
  shows "record_type r = SERIES \<and> is_series_scope r \<and> record_series r = Some (target_medium t) \<and> target_scope_name t = ''series''"
    "series_sync.came_from now free cs r c \<Longrightarrow> candidate_on c t"
proof -
  obtain s where t: "t = Series_Target s" using assms(1) target_shape(2) by (fastforce simp: scope_targets_def)
  with assms(2) show "record_type r = SERIES \<and> is_series_scope r \<and> record_series r = Some (target_medium t) \<and> target_scope_name t = ''series''"
    by (simp add: record_of_simps is_series_scope_def)
  with assms(2) t show "candidate_on c t" if "series_sync.came_from now free cs r c"
    using that by (auto simp: record_of_simps series_sync.came_from_def candidate_on_def target_type_def managed_show_def is_series_scope_def)
qed

lemma season_stage_facts:
  assumes "t \<in> set (scope_targets rt i opts rows lib ''season'')" "record_of r t"
  shows "record_type r = SERIES \<and> is_season_scope r \<and> record_series r \<noteq> None \<and> season_record_key r = Some (target_medium t) \<and>
      target_scope_name t = ''season''"
    "season_sync.came_from now free cs r c \<Longrightarrow> (\<And>c. c \<in> set cs \<Longrightarrow> managed_show is_season_scope c \<Longrightarrow> placed lib c) \<Longrightarrow> candidate_on c t"
proof -
  obtain s se where t: "t = Season_Target s se" "s \<in> set (scan_shows lib)" "se \<in> set (series_seasons s)"
    using assms(1) target_shape(3) by (fastforce simp: scope_targets_def)
  with assms(2) show "record_type r = SERIES \<and> is_season_scope r \<and> record_series r \<noteq> None \<and> season_record_key r = Some (target_medium t) \<and>
      target_scope_name t = ''season''"
    by (simp add: record_of_simps is_season_scope_def season_record_key_def)
  with assms(2) t show "candidate_on c t"
    if "season_sync.came_from now free cs r c" "\<And>c. c \<in> set cs \<Longrightarrow> managed_show is_season_scope c \<Longrightarrow> placed lib c"
    using that
    by (fastforce simp: record_of_simps season_sync.came_from_def candidate_on_def target_type_def managed_show_def is_season_scope_def
      season_record_key_def placed_def)
qed

lemma episode_stage_facts:
  assumes "t \<in> set (scope_targets rt i opts rows lib ''episode'')" "record_of r t"
  shows "record_type r = SERIES \<and> is_episode_scope r \<and> record_series r \<noteq> None \<and> episode_record_key r = Some (target_medium t) \<and>
      target_scope_name t = ''episode''"
    "episode_sync.came_from now free cs r c \<Longrightarrow> (\<And>c. c \<in> set cs \<Longrightarrow> managed_show is_episode_scope c \<Longrightarrow> placed lib c) \<Longrightarrow> candidate_on c t"
proof -
  obtain s se e where t: "t = Episode_Target s se e" "s \<in> set (scan_shows lib)" "se \<in> set (series_seasons s)" "e \<in> set (season_episodes se)"
    using assms(1) target_shape(4) by (fastforce simp: scope_targets_def)
  with assms(2) show "record_type r = SERIES \<and> is_episode_scope r \<and> record_series r \<noteq> None \<and> episode_record_key r = Some (target_medium t) \<and>
      target_scope_name t = ''episode''"
    by (simp add: record_of_simps is_episode_scope_def episode_record_key_def)
  with assms(2) t show "candidate_on c t"
    if "episode_sync.came_from now free cs r c" "\<And>c. c \<in> set cs \<Longrightarrow> managed_show is_episode_scope c \<Longrightarrow> placed lib c"
    using that
    by (fastforce simp: record_of_simps episode_sync.came_from_def candidate_on_def target_type_def managed_show_def is_episode_scope_def
      episode_record_key_def placed_def)
qed

definition movie_rows :: "candidate \<Rightarrow> bool" where "movie_rows c \<longleftrightarrow> candidate_type c = MOVIE"
definition series_rows :: "candidate \<Rightarrow> bool" where "series_rows c \<longleftrightarrow> candidate_type c = SERIES \<and> is_series_scope c"
definition season_rows :: "candidate \<Rightarrow> bool" where "season_rows c \<longleftrightarrow> candidate_type c = SERIES \<and> is_season_scope c"
definition episode_rows :: "candidate \<Rightarrow> bool" where "episode_rows c \<longleftrightarrow> candidate_type c = SERIES \<and> is_episode_scope c"

lemmas row_defs = movie_rows_def series_rows_def season_rows_def episode_rows_def unrequested_def managed_movie_def managed_show_def

lemma rows_apart:
  "unrequested movie_rows c \<Longrightarrow> \<not> unrequested series_rows c \<and> \<not> unrequested season_rows c \<and> \<not> unrequested episode_rows c"
  "unrequested series_rows c \<Longrightarrow> \<not> unrequested movie_rows c \<and> \<not> unrequested season_rows c \<and> \<not> unrequested episode_rows c"
  "unrequested season_rows c \<Longrightarrow> \<not> unrequested movie_rows c \<and> \<not> unrequested series_rows c \<and> \<not> unrequested episode_rows c"
  "unrequested episode_rows c \<Longrightarrow> \<not> unrequested movie_rows c \<and> \<not> unrequested series_rows c \<and> \<not> unrequested season_rows c"
  by (auto simp: row_defs is_series_scope_def is_season_scope_def is_episode_scope_def)

lemma managed_rows:
  "managed_movie pending c \<longleftrightarrow> unrequested movie_rows c \<and> candidate_id c \<notin> fst ` set pending"
  "managed_show is_series_scope c \<longleftrightarrow> unrequested series_rows c"
  "managed_show is_season_scope c \<longleftrightarrow> unrequested season_rows c"
  "managed_show is_episode_scope c \<longleftrightarrow> unrequested episode_rows c"
  by (auto simp: row_defs)

lemma scopes_cover:
  "delete_request_id c = None \<Longrightarrow>
   unrequested movie_rows c \<or> unrequested series_rows c \<or> unrequested season_rows c \<or> unrequested episode_rows c"
  by (cases "candidate_type c") (auto simp: row_defs is_series_scope_def is_season_scope_def is_episode_scope_def)

lemma process_scopes_stages:
  assumes "process_scopes rt ev i pending lib rs rows free cs = Ok (n, free', cs')"
  obtains n1 f1 c1 n2 f2 c2 n3 f3 c3 where
    "process_scope (rules_for ''movie_version'' rs) (collect_scope rt ev i candidate_options rows lib rs ''movie_version'')
       (sync_movie_version_candidates (scan_now i) pending) movie_rows
       (\<lparr>candidates_created = 0, candidates_updated = 0, candidates_removed = 0\<rparr>, free, cs) = Ok (n1, f1, c1)"
    "process_scope (rules_for ''series'' rs) (collect_scope rt ev i candidate_options rows lib rs ''series'')
       (sync_series_candidates (scan_now i)) series_rows (n1, f1, c1) = Ok (n2, f2, c2)"
    "process_scope (rules_for ''season'' rs) (collect_scope rt ev i candidate_options rows lib rs ''season'')
       (sync_season_candidates (scan_now i)) season_rows (n2, f2, c2) = Ok (n3, f3, c3)"
    "process_scope (rules_for ''episode'' rs) (collect_scope rt ev i candidate_options rows lib rs ''episode'')
       (sync_episode_candidates (scan_now i)) episode_rows (n3, f3, c3) = Ok (n, free', cs')"
  using assms unfolding process_scopes_def Let_def rbind_Ok_iff
    movie_rows_def[symmetric, abs_def] series_rows_def[symmetric, abs_def] season_rows_def[symmetric, abs_def] episode_rows_def[symmetric, abs_def]
  by (metis prod_cases3)

lemma target_names:
  assumes "t \<in> set (scope_targets rt i opts rows lib name)" "name \<in> set scope_names"
  shows "target_scope_name t = name"
  using assms(2) assms(1)[unfolded scope_targets_def]
  by (auto simp: scope_names_def dest!: target_shape)

lemma movie_stage:
  assumes "process_scope (rules_for ''movie_version'' rs) (collect_scope rt ev i opts rows lib rs ''movie_version'')
      (sync_movie_version_candidates now pending) movie_rows (n, free, cs) = Ok (n', free', cs')"
    and "library_keyed lib" "one_each (managed_movie pending) movie_version_id (\<lambda>c. movie_version_id c = None) cs" "numbered free cs"
    and "set (map fst pending) \<subseteq> {k. k < free}"
  shows "stage_done (managed_movie pending) movie_version_id (\<lambda>c. movie_version_id c = None) movie_rows ev rs
    (\<lambda>t. target_movie t \<notin> Some ` snd ` set pending) (scope_targets rt i opts rows lib ''movie_version'') cs free free' cs'"
proof (rule movie_sync.scope_stage[OF assms sync_movie_version_candidates_def _ _ movie_stage_facts(2)])
  show "(record_type r = MOVIE \<and> record_movie r \<noteq> None \<and> movie_version_id r \<noteq> None) \<and> movie_record_key r = Some (target_medium t)"
    if "t \<in> set (scope_targets rt i opts rows lib ''movie_version'')" "record_of r t" for t r
    using movie_stage_facts(1)[OF that] by blast
  show "\<not> (\<exists>m \<in> set (map snd pending). record_movie r = Some m)"
    if "target_movie t \<notin> Some ` snd ` set pending" "record_of r t" for t r
    using that by (auto simp: record_of_def)
qed (auto simp: managed_rows(1) intro: target_names simp: scope_names_def)

lemma series_stage:
  assumes "process_scope (rules_for ''series'' rs) (collect_scope rt ev i opts rows lib rs ''series'')
      (sync_series_candidates now) series_rows (n, free, cs) = Ok (n', free', cs')"
    and "library_keyed lib" "one_each (managed_show is_series_scope) candidate_series (\<lambda>_. False) cs" "numbered free cs"
  shows "stage_done (managed_show is_series_scope) candidate_series (\<lambda>_. False) series_rows ev rs
    (\<lambda>t. True) (scope_targets rt i opts rows lib ''series'') cs free free' cs'"
proof (rule series_sync.scope_stage[where p = "\<lambda>_. True", OF assms _ _ _ _ series_stage_facts(2)])
  show "(record_type r = SERIES \<and> is_series_scope r \<and> record_series r \<noteq> None) \<and> record_series r = Some (target_medium t)"
    if "t \<in> set (scope_targets rt i opts rows lib ''series'')" "record_of r t" for t r
    using series_stage_facts(1)[OF that] by simp
qed (auto simp: managed_rows(2) sync_series_candidates_def scope_names_def intro: target_names)

lemma season_stage:
  assumes "process_scope (rules_for ''season'' rs) (collect_scope rt ev i opts rows lib rs ''season'')
      (sync_season_candidates now) season_rows (n, free, cs) = Ok (n', free', cs')"
    and "library_keyed lib" "one_each (managed_show is_season_scope) season_id (\<lambda>_. False) cs" "numbered free cs"
    and "\<And>c. c \<in> set cs \<Longrightarrow> managed_show is_season_scope c \<Longrightarrow> placed lib c"
  shows "stage_done (managed_show is_season_scope) season_id (\<lambda>_. False) season_rows ev rs
    (\<lambda>t. True) (scope_targets rt i opts rows lib ''season'') cs free free' cs'"
proof (rule season_sync.scope_stage[where p = "\<lambda>_. True", OF assms(1-4)])
  show "(record_type r = SERIES \<and> is_season_scope r \<and> record_series r \<noteq> None) \<and> season_record_key r = Some (target_medium t)"
    if "t \<in> set (scope_targets rt i opts rows lib ''season'')" "record_of r t" for t r
    using season_stage_facts(1)[OF that] by simp
  show "candidate_on c t" if "t \<in> set (scope_targets rt i opts rows lib ''season'')" "record_of r t" "season_sync.came_from now free cs r c" for t r c
    by (rule season_stage_facts(2)[OF that assms(5)])
qed (auto simp: managed_rows(3) sync_season_candidates_def scope_names_def intro: target_names)

lemma episode_stage:
  assumes "process_scope (rules_for ''episode'' rs) (collect_scope rt ev i opts rows lib rs ''episode'')
      (sync_episode_candidates now) episode_rows (n, free, cs) = Ok (n', free', cs')"
    and "library_keyed lib" "one_each (managed_show is_episode_scope) episode_id (\<lambda>_. False) cs" "numbered free cs"
    and "\<And>c. c \<in> set cs \<Longrightarrow> managed_show is_episode_scope c \<Longrightarrow> placed lib c"
  shows "stage_done (managed_show is_episode_scope) episode_id (\<lambda>_. False) episode_rows ev rs
    (\<lambda>t. True) (scope_targets rt i opts rows lib ''episode'') cs free free' cs'"
proof (rule episode_sync.scope_stage[where p = "\<lambda>_. True", OF assms(1-4)])
  show "(record_type r = SERIES \<and> is_episode_scope r \<and> record_series r \<noteq> None) \<and> episode_record_key r = Some (target_medium t)"
    if "t \<in> set (scope_targets rt i opts rows lib ''episode'')" "record_of r t" for t r
    using episode_stage_facts(1)[OF that] by simp
  show "candidate_on c t" if "t \<in> set (scope_targets rt i opts rows lib ''episode'')" "record_of r t" "episode_sync.came_from now free cs r c" for t r c
    by (rule episode_stage_facts(2)[OF that assms(5)])
qed (auto simp: managed_rows(4) sync_episode_candidates_def scope_names_def intro: target_names)

lemma stage_kept:
  "stage_done managed medium obsolete in_scope ev rs admitted targets cs free free' cs' \<Longrightarrow> \<not> unrequested in_scope c \<Longrightarrow>
   c \<in> set cs' \<longleftrightarrow> c \<in> set cs"
  unfolding stage_done_def by (elim conjE) (erule kept_outside[where P = "\<lambda>c. \<not> unrequested in_scope c"], simp)

lemma stage_requested:
  assumes "stage_done managed medium obsolete in_scope ev rs admitted targets cs free free' cs'"
  shows "filter (\<lambda>c. delete_request_id c \<noteq> None) cs' = filter (\<lambda>c. delete_request_id c \<noteq> None) cs"
proof -
  have "filter (\<lambda>c. delete_request_id c \<noteq> None) xs =
      filter (\<lambda>c. delete_request_id c \<noteq> None) (filter (\<lambda>c. \<not> unrequested in_scope c) xs)" for xs
    unfolding filter_filter by (auto simp: unrequested_def intro: filter_cong)
  with assms show ?thesis unfolding stage_done_def by metis
qed

lemma stage_counted:
  "stage_done managed medium obsolete in_scope ev rs admitted targets cs free free' cs' \<Longrightarrow> numbered free' cs' \<and> free \<le> free' \<and>
   one_each managed medium obsolete cs' \<and> clocks_kept free cs cs'"
  by (simp add: stage_done_def)

lemma stage_sound:
  "stage_done managed medium obsolete in_scope ev rs admitted targets cs free free' cs' \<Longrightarrow> c \<in> set cs' \<Longrightarrow> managed c \<Longrightarrow>
   \<exists>t \<in> set targets. candidate_on c t \<and> matched_by_rules ev rs c t"
  by (simp add: stage_done_def)

lemma stage_complete:
  "stage_done managed medium obsolete in_scope ev rs admitted targets cs free free' cs' \<Longrightarrow> t \<in> set targets \<Longrightarrow> rule \<in> set rs \<Longrightarrow>
   normalize_rule_target rule = target_scope_name t \<Longrightarrow> target_can_match t \<Longrightarrow> ev rule t = Ok (True, fs) \<Longrightarrow> admitted t \<Longrightarrow>
   \<exists>c \<in> set cs'. managed c \<and> candidate_on c t"
  unfolding stage_done_def by blast

text \<open>The four stages with the tables between them.\<close>

definition chained ::
  "(int \<times> int) list \<Rightarrow> evaluator \<Rightarrow> reclaim_rule list \<Rightarrow> (string \<Rightarrow> scan_target list) \<Rightarrow> int \<Rightarrow> candidate list \<Rightarrow>
   int \<Rightarrow> candidate list \<Rightarrow> int \<Rightarrow> candidate list \<Rightarrow> int \<Rightarrow> candidate list \<Rightarrow> int \<Rightarrow> candidate list \<Rightarrow> bool" where
  "chained pending ev rs targets free cs f1 c1 f2 c2 f3 c3 free' cs' \<longleftrightarrow>
     stage_done (managed_movie pending) movie_version_id (\<lambda>c. movie_version_id c = None) movie_rows ev rs
       (\<lambda>t. target_movie t \<notin> Some ` snd ` set pending) (targets ''movie_version'') cs free f1 c1 \<and>
     stage_done (managed_show is_series_scope) candidate_series (\<lambda>_. False) series_rows ev rs (\<lambda>t. True) (targets ''series'') c1 f1 f2 c2 \<and>
     stage_done (managed_show is_season_scope) season_id (\<lambda>_. False) season_rows ev rs (\<lambda>t. True) (targets ''season'') c2 f2 f3 c3 \<and>
     stage_done (managed_show is_episode_scope) episode_id (\<lambda>_. False) episode_rows ev rs (\<lambda>t. True) (targets ''episode'') c3 f3 free' cs'"

lemma process_scopes_chained:
  assumes ps: "process_scopes rt ev i pending lib rs rows free cs = Ok (n, free', cs')"
    and start: "scan_ready pending free cs" and lib: "library_keyed lib" and pl: "\<And>c. c \<in> set cs \<Longrightarrow> placed lib c"
  obtains f1 c1 f2 c2 f3 c3 where "chained pending ev rs (scope_targets rt i candidate_options rows lib) free cs f1 c1 f2 c2 f3 c3 free' cs'"
proof (rule process_scopes_stages[OF ps])
  fix n1 f1 c1 n2 f2 c2 n3 f3 c3
  assume
    p: "process_scope (rules_for ''movie_version'' rs) (collect_scope rt ev i candidate_options rows lib rs ''movie_version'')
       (sync_movie_version_candidates (scan_now i) pending) movie_rows
       (\<lparr>candidates_created = 0, candidates_updated = 0, candidates_removed = 0\<rparr>, free, cs) = Ok (n1, f1, c1)"
    "process_scope (rules_for ''series'' rs) (collect_scope rt ev i candidate_options rows lib rs ''series'')
       (sync_series_candidates (scan_now i)) series_rows (n1, f1, c1) = Ok (n2, f2, c2)"
    "process_scope (rules_for ''season'' rs) (collect_scope rt ev i candidate_options rows lib rs ''season'')
       (sync_season_candidates (scan_now i)) season_rows (n2, f2, c2) = Ok (n3, f3, c3)"
    "process_scope (rules_for ''episode'' rs) (collect_scope rt ev i candidate_options rows lib rs ''episode'')
       (sync_episode_candidates (scan_now i)) episode_rows (n3, f3, c3) = Ok (n, free', cs')"
  have num: "numbered free cs" and pend: "set (map fst pending) \<subseteq> {k. k < free}"
    and one: "one_each (managed_movie pending) movie_version_id (\<lambda>c. movie_version_id c = None) cs"
      "one_each (managed_show is_series_scope) candidate_series (\<lambda>_. False) cs"
      "one_each (managed_show is_season_scope) season_id (\<lambda>_. False) cs"
      "one_each (managed_show is_episode_scope) episode_id (\<lambda>_. False) cs"
    using start by (auto simp: scan_ready_def)
  note s1 = movie_stage[OF p(1) lib one(1) num pend]
  have one1: "one_each (managed_show is_series_scope) candidate_series (\<lambda>_. False) c1"
    by (rule series_sync.one_each_fewer[OF one(2)]) (use stage_kept[OF s1] rows_apart(2) in \<open>simp add: managed_rows\<close>)
  note s2 = series_stage[OF p(2) lib one1 conjunct1[OF stage_counted[OF s1]]]
  have in2: "c \<in> set cs" if "managed_show is_season_scope c" "c \<in> set c2" for c
    using that stage_kept[OF s1] stage_kept[OF s2] rows_apart(3) by (simp add: managed_rows)
  note s3 = season_stage[OF p(3) lib season_sync.one_each_fewer[OF one(3) in2] conjunct1[OF stage_counted[OF s2]] pl[OF in2]]
  have in3: "c \<in> set cs" if "managed_show is_episode_scope c" "c \<in> set c3" for c
    using that stage_kept[OF s1] stage_kept[OF s2] stage_kept[OF s3] rows_apart(4) by (simp add: managed_rows)
  note s4 = episode_stage[OF p(4) lib episode_sync.one_each_fewer[OF one(4) in3] conjunct1[OF stage_counted[OF s3]] pl[OF in3]]
  show thesis
    by (rule that[unfolded chained_def, OF conjI[OF s1 conjI[OF s2 conjI[OF s3 s4]]]])
qed

lemma chainedD:
  assumes "chained pending ev rs targets free cs f1 c1 f2 c2 f3 c3 free' cs'"
  shows "stage_done (managed_movie pending) movie_version_id (\<lambda>c. movie_version_id c = None) movie_rows ev rs
      (\<lambda>t. target_movie t \<notin> Some ` snd ` set pending) (targets ''movie_version'') cs free f1 c1"
    "stage_done (managed_show is_series_scope) candidate_series (\<lambda>_. False) series_rows ev rs (\<lambda>t. True) (targets ''series'') c1 f1 f2 c2"
    "stage_done (managed_show is_season_scope) season_id (\<lambda>_. False) season_rows ev rs (\<lambda>t. True) (targets ''season'') c2 f2 f3 c3"
    "stage_done (managed_show is_episode_scope) episode_id (\<lambda>_. False) episode_rows ev rs (\<lambda>t. True) (targets ''episode'') c3 f3 free' cs'"
  using assms by (simp_all only: chained_def)

text \<open>What a stage has put in its scope is there at the end.\<close>

lemma chained_final:
  assumes "chained pending ev rs targets free cs f1 c1 f2 c2 f3 c3 free' cs'"
  shows "unrequested movie_rows c \<Longrightarrow> c \<in> set cs' \<longleftrightarrow> c \<in> set c1"
    "unrequested series_rows c \<Longrightarrow> c \<in> set cs' \<longleftrightarrow> c \<in> set c2"
    "unrequested season_rows c \<Longrightarrow> c \<in> set cs' \<longleftrightarrow> c \<in> set c3"
  using stage_kept[OF chainedD(2)[OF assms]] stage_kept[OF chainedD(3)[OF assms]] stage_kept[OF chainedD(4)[OF assms]] rows_apart
  by metis+

lemma chained_requested:
  assumes "chained pending ev rs targets free cs f1 c1 f2 c2 f3 c3 free' cs'"
  shows "filter (\<lambda>c. delete_request_id c \<noteq> None) cs' = filter (\<lambda>c. delete_request_id c \<noteq> None) cs"
  using chainedD[OF assms, THEN stage_requested] by simp

lemma chained_ready:
  assumes ch: "chained pending ev rs targets free cs f1 c1 f2 c2 f3 c3 free' cs'" and start: "scan_ready pending free cs"
  shows "scan_ready pending free' cs'"
proof -
  note k = chainedD[OF ch, THEN stage_counted]
  have "one_each (managed_movie pending) movie_version_id (\<lambda>c. movie_version_id c = None) cs'"
    by (rule movie_sync.one_each_fewer) (use k(1) chained_final(1)[OF ch] in \<open>auto simp: managed_rows\<close>)
  moreover have "one_each (managed_show is_series_scope) candidate_series (\<lambda>_. False) cs'"
    by (rule series_sync.one_each_fewer) (use k(2) chained_final(2)[OF ch] in \<open>auto simp: managed_rows\<close>)
  moreover have "one_each (managed_show is_season_scope) season_id (\<lambda>_. False) cs'"
    by (rule season_sync.one_each_fewer) (use k(3) chained_final(3)[OF ch] in \<open>auto simp: managed_rows\<close>)
  ultimately show ?thesis using k start by (fastforce simp: scan_ready_def)
qed

lemma chained_clocks:
  assumes ch: "chained pending ev rs targets free cs f1 c1 f2 c2 f3 c3 free' cs'"
  shows "clocks_kept free cs cs'"
proof -
  note k = chainedD[OF ch, THEN stage_counted]
  have "clocks_kept free cs c2" using clocks_kept_trans[of free cs c1 f1 c2] k by blast
  then have "clocks_kept free cs c3" using clocks_kept_trans[of free cs c2 f2 c3] k by force
  then show ?thesis using clocks_kept_trans[of free cs c3 f3 cs'] k by force
qed

text \<open>What the scan of all scopes promises: every candidate is on a target that its rules match, and every match has one.\<close>

definition scanned ::
  "(int \<times> int) list \<Rightarrow> evaluator \<Rightarrow> reclaim_rule list \<Rightarrow> scan_target list \<Rightarrow> candidate list \<Rightarrow> bool" where
  "scanned pending ev rs targets cs \<longleftrightarrow>
     (\<forall>c \<in> set cs. delete_request_id c = None \<longrightarrow> candidate_id c \<notin> fst ` set pending \<longrightarrow>
        (\<exists>t \<in> set targets. candidate_on c t \<and> matched_by_rules ev rs c t)) \<and>
     (\<forall>t \<in> set targets. \<forall>rule \<in> set rs. normalize_rule_target rule = target_scope_name t \<longrightarrow> target_can_match t \<longrightarrow>
        (\<exists>fs. ev rule t = Ok (True, fs)) \<longrightarrow> target_movie t \<notin> Some ` snd ` set pending \<longrightarrow>
        (\<exists>c \<in> set cs. delete_request_id c = None \<and> candidate_on c t))"

lemma chained_sound:
  assumes ch: "chained pending ev rs targets free cs f1 c1 f2 c2 f3 c3 free' cs'"
    and c: "c \<in> set cs'" "delete_request_id c = None" "candidate_id c \<notin> fst ` set pending"
  shows "\<exists>name \<in> set scope_names. \<exists>t \<in> set (targets name). candidate_on c t \<and> matched_by_rules ev rs c t"
  using scopes_cover[OF c(2)]
proof (elim disjE)
  assume "unrequested movie_rows c"
  with stage_sound[OF chainedD(1)[OF ch], of c] chained_final(1)[OF ch] c show ?thesis by (simp add: managed_rows scope_names_def)
next
  assume "unrequested series_rows c"
  with stage_sound[OF chainedD(2)[OF ch], of c] chained_final(2)[OF ch] c show ?thesis by (simp add: managed_rows scope_names_def)
next
  assume "unrequested season_rows c"
  with stage_sound[OF chainedD(3)[OF ch], of c] chained_final(3)[OF ch] c show ?thesis by (simp add: managed_rows scope_names_def)
next
  assume "unrequested episode_rows c"
  with stage_sound[OF chainedD(4)[OF ch], of c] c show ?thesis by (simp add: managed_rows scope_names_def)
qed

lemma chained_complete:
  assumes ch: "chained pending ev rs targets free cs f1 c1 f2 c2 f3 c3 free' cs'"
    and t: "name \<in> set scope_names" "t \<in> set (targets name)" "target_movie t \<notin> Some ` snd ` set pending"
    and m: "rule \<in> set rs" "normalize_rule_target rule = target_scope_name t" "target_can_match t" "ev rule t = Ok (True, fs)"
  shows "\<exists>c \<in> set cs'. delete_request_id c = None \<and> candidate_on c t"
proof -
  note d = chainedD[OF ch, THEN stage_complete, OF _ m]
  consider "name = ''movie_version''" | "name = ''series''" | "name = ''season''" | "name = ''episode''"
    using t(1) by (auto simp: scope_names_def)
  then show ?thesis
    by cases (use d t chained_final[OF ch] in \<open>fastforce simp: managed_rows unrequested_def\<close>)+
qed

lemma process_scopes_scanned:
  assumes ps: "process_scopes rt ev i pending lib rs rows free cs = Ok (n, free', cs')"
    and start: "scan_ready pending free cs" and lib: "library_keyed lib" and pl: "\<And>c. c \<in> set cs \<Longrightarrow> placed lib c"
  shows "scan_ready pending free' cs'" and "clocks_kept free cs cs'"
    and "filter (\<lambda>c. delete_request_id c \<noteq> None) cs' = filter (\<lambda>c. delete_request_id c \<noteq> None) cs"
    and "scanned pending ev rs (all_targets rt i candidate_options rows lib) cs'"
proof -
  obtain f1 c1 f2 c2 f3 c3 where
    ch: "chained pending ev rs (scope_targets rt i candidate_options rows lib) free cs f1 c1 f2 c2 f3 c3 free' cs'"
    using process_scopes_chained[OF assms] .
  show "scan_ready pending free' cs'" by (rule chained_ready[OF ch start])
  show "clocks_kept free cs cs'" by (rule chained_clocks[OF ch])
  show "filter (\<lambda>c. delete_request_id c \<noteq> None) cs' = filter (\<lambda>c. delete_request_id c \<noteq> None) cs" by (rule chained_requested[OF ch])
  show "scanned pending ev rs (all_targets rt i candidate_options rows lib) cs'"
    unfolding scanned_def all_targets_def using chained_sound[OF ch] chained_complete[OF ch] by fastforce
qed

end
