(* ===== verification/Cleanup_Results.thy ===== *)
theory Cleanup_Results
  imports Cleanup_Scan
begin

text \<open>
  What a whole scan (\<open>scan_with_db\<close>) leaves behind: no candidate is protected, the candidates are the
  matches of the candidate rules, missing data lifts no protection, and no grace period starts anew.
  Each is shown on a small library as well.
\<close>

section \<open>The brake and the announcements leave the subjects alone\<close>

definition same_subject :: "candidate \<Rightarrow> candidate \<Rightarrow> bool" where
  "same_subject c c' \<longleftrightarrow> candidate_id c' = candidate_id c \<and> delete_request_id c' = delete_request_id c \<and>
     candidate_type c' = candidate_type c \<and> candidate_movie c' = candidate_movie c \<and> candidate_series c' = candidate_series c \<and>
     matched_rule_ids c' = matched_rule_ids c \<and> movie_version_id c' = movie_version_id c \<and> season_id c' = season_id c \<and>
     episode_id c' = episode_id c"

lemma same_subject_refl [simp]: "same_subject c c"
  by (simp add: same_subject_def)

lemma spike_frame:
  "protected_rows (snd (postpone_candidate_spike now before k db)) = protected_rows db \<and>
   list_all2 same_subject (candidates db) (candidates (snd (postpone_candidate_spike now before k db)))"
  by (auto simp: postpone_candidate_spike_def Let_def list_all2_map2 same_subject_def intro!: list.rel_refl)

lemma reconcile_candidate_frame:
  assumes "reconcile_candidate now c db = Ok (c', ids, db')"
  shows "protected_rows db' = protected_rows db \<and> same_subject c c'"
  using assms
  by (auto simp: reconcile_candidate_def rbind_Ok_iff record_candidate_event_def insert_event_def Let_def same_subject_def
    split: if_splits prod.splits option.splits)

lemma reconcile_all_frame:
  "reconcile_all now cs db = Ok (cs', ids, db') \<Longrightarrow> protected_rows db' = protected_rows db \<and> list_all2 same_subject cs cs'"
proof (induction cs arbitrary: db cs' ids)
  case (Cons c cs)
  then obtain c1 ids1 db1 cs2 ids2 where "reconcile_candidate now c db = Ok (c1, ids1, db1)"
    "reconcile_all now cs db1 = Ok (cs2, ids2, db')" "cs' = c1 # cs2"
    by (auto simp: rbind_Ok_iff)
  with Cons.IH[of db1 cs2 ids2] reconcile_candidate_frame show ?case by auto
qed simp

lemma announce_frame:
  "reconcile_candidate_schedule_events now db = Ok (ids, db') \<Longrightarrow>
   protected_rows db' = protected_rows db \<and> list_all2 same_subject (candidates db) (candidates db')"
  unfolding reconcile_candidate_schedule_events_def rbind_Ok_iff using reconcile_all_frame by fastforce

lemma same_subject_trans: "same_subject c c' \<Longrightarrow> same_subject c' c'' \<Longrightarrow> same_subject c c''"
  by (simp add: same_subject_def)

lemma finish_frame:
  assumes "finish_scan now before n db = Ok (res, ids, db')"
  shows "protected_rows db' = protected_rows db" "list_all2 same_subject (candidates db) (candidates db')"
proof -
  let ?braked = "snd (postpone_candidate_spike now before (candidates_created n) db)"
  have "reconcile_candidate_schedule_events now ?braked = Ok (ids, db')"
    using assms by (auto simp: finish_scan_def rbind_Ok_iff)
  note a = announce_frame[OF this]
  show "protected_rows db' = protected_rows db" using a spike_frame by simp
  show "list_all2 same_subject (candidates db) (candidates db')"
    using list_all2_trans[of same_subject same_subject same_subject, OF same_subject_trans conjunct2[OF spike_frame] conjunct2[OF a]] .
qed

lemma candidate_on_subject: "same_subject c c' \<Longrightarrow> candidate_on c' t \<longleftrightarrow> candidate_on c t"
  by (simp add: same_subject_def candidate_on_def)

lemma matched_by_rules_subject: "same_subject c c' \<Longrightarrow> matched_by_rules ev rs c' t \<longleftrightarrow> matched_by_rules ev rs c t"
  by (simp add: same_subject_def matched_by_rules_def)

lemma scanned_subjects:
  assumes "scanned pending ev rs targets cs" "list_all2 same_subject cs cs'"
  shows "scanned pending ev rs targets cs'"
proof -
  have backward: "\<exists>c \<in> set cs. same_subject c c'" if "c' \<in> set cs'" for c'
    using assms(2) that by (metis in_set_conv_nth list_all2_conv_all_nth)
  have forward: "\<exists>c' \<in> set cs'. same_subject c c'" if "c \<in> set cs" for c
    using assms(2) that by (metis in_set_conv_nth list_all2_conv_all_nth)
  show ?thesis unfolding scanned_def
  proof (intro conjI ballI impI)
    fix c' assume c': "c' \<in> set cs'" "delete_request_id c' = None" "candidate_id c' \<notin> fst ` set pending"
    then obtain c where c: "c \<in> set cs" "same_subject c c'" using backward by blast
    with c' assms(1) obtain t where "t \<in> set targets" "candidate_on c t" "matched_by_rules ev rs c t"
      by (auto simp: scanned_def same_subject_def)
    with c(2) show "\<exists>t \<in> set targets. candidate_on c' t \<and> matched_by_rules ev rs c' t"
      using candidate_on_subject matched_by_rules_subject by blast
  next
    fix t rule assume "t \<in> set targets" "rule \<in> set rs" "normalize_rule_target rule = target_scope_name t" "target_can_match t"
      "\<exists>fs. ev rule t = Ok (True, fs)" "target_movie t \<notin> Some ` snd ` set pending"
    then obtain c where c: "c \<in> set cs" "delete_request_id c = None" "candidate_on c t"
      using assms(1) unfolding scanned_def by blast
    with forward obtain c' where c': "c' \<in> set cs'" "same_subject c c'" by blast
    moreover have "delete_request_id c' = None" using c(2) c'(2) by (simp add: same_subject_def)
    moreover have "candidate_on c' t" using c(3) candidate_on_subject[OF c'(2)] by simp
    ultimately show "\<exists>c \<in> set cs'. delete_request_id c = None \<and> candidate_on c t" by blast
  qed
qed

section \<open>A whole scan\<close>

definition flagging_rules :: "runtime \<Rightarrow> provider_state \<Rightarrow> reclaim_rule list \<Rightarrow> reclaim_rule list" where
  "flagging_rules rt pr all_rules =
     filter (\<lambda>r. normalize_rule_outcome r = ''candidate'') (usable_rules rt pr (scan_rules all_rules))"

lemma scan_with_db_scanned:
  assumes scan: "scan_with_db rt ev order_check i pr pending lib all_rules free db = Ok (res, ids, db')"
    and start: "scan_ready pending free (candidates db)" and lib: "library_keyed lib"
    and pl: "\<And>c. c \<in> set (candidates db) \<Longrightarrow> placed lib c"
  shows "scanned pending ev (flagging_rules rt pr all_rules) (all_targets rt i candidate_options (protected_rows db') lib) (candidates db')"
proof (cases "scan_rules all_rules = []")
  case True
  with scan have "candidates db' = filter (\<lambda>c. delete_request_id c \<noteq> None) (candidates db)"
    by (auto simp: scan_with_db_def)
  with True show ?thesis
    by (auto simp: scanned_def flagging_rules_def usable_rules_def without_seerr_def)
next
  case False
  with scan obtain rows n free' cs where
    ps: "process_scopes rt ev i pending lib (flagging_rules rt pr all_rules) rows free (candidates db) = Ok (n, free', cs)"
    and fin: "finish_scan (scan_now i) (set (map candidate_id (candidates db))) n (db\<lparr>protected_rows := rows, candidates := cs\<rparr>) = Ok (res, ids, db')"
    unfolding scan_with_db_def flagging_rules_def Let_def by (auto simp: rbind_Ok_iff)
  from process_scopes_scanned(4)[OF ps start lib pl] finish_frame[OF fin] show ?thesis
    by (auto intro: scanned_subjects)
qed

section \<open>Protected media are never proposed\<close>

lemma scope_targets_open:
  assumes "t \<in> set (all_targets rt i opts rows lib)" "exclude_protected opts" "row \<in> set rows" "active_protection (scan_now i) row"
  shows "\<not> target_covered row t"
  using assms(1) movie_targets_open[OF _ assms(2-4)] series_targets_open[OF _ assms(2-4)]
    season_targets_open[OF _ assms(2-4)] episode_targets_open[OF _ assms(2-4)]
  by (auto simp: all_targets_def scope_targets_def split: if_splits)

lemma candidate_on_reached:
  "candidate_on c t \<Longrightarrow>
   protection_reaches row (candidate_type c) (candidate_movie c) (candidate_series c) c \<longleftrightarrow> target_covered row t"
  by (cases t) (auto simp: candidate_on_def target_covered_def protection_reaches_def target_type_def movie_scope_overlap_def
    series_scope_overlap_def)

text \<open>C3: a scan leaves protected media alone.  After a scan no unrequested candidate lies in the scope of a
  protection in force, save those that wait for a resync, which a scan does not touch.\<close>

theorem scan_spares_protected_media:
  assumes "scan_with_db rt ev order_check i pr pending lib all_rules free db = Ok (res, ids, db')"
    and "scan_ready pending free (candidates db)" "library_keyed lib" "list_all (placed lib) (candidates db)"
    and "c \<in> set (candidates db')" "delete_request_id c = None" "candidate_id c \<notin> fst ` set pending"
    and "row \<in> set (protected_rows db')" "active_protection (scan_now i) row"
  shows "\<not> protection_reaches row (candidate_type c) (candidate_movie c) (candidate_series c) c"
proof -
  obtain t where t: "t \<in> set (all_targets rt i candidate_options (protected_rows db') lib)" "candidate_on c t"
    using scan_with_db_scanned[OF assms(1-3)] assms(4-7) unfolding scanned_def list_all_iff by blast
  from scope_targets_open[OF t(1) _ assms(8,9)] candidate_on_reached[OF t(2)] show ?thesis
    by (simp add: candidate_options_def)
qed

section \<open>Missing data does not lift a protection\<close>

lemma kept_some:
  assumes "r \<in> set rows" "managed_key r = Some k" "k \<notin> set seen" "\<And>row. managed_key row = Some k \<Longrightarrow> p row"
  shows "\<exists>row \<in> set (kept_rows w p seen rows). managed_key row = Some k"
  using assms(1,3)
proof (induction rows arbitrary: seen)
  case (Cons r' rows)
  have rule: "source x = ''rule''" if "managed_key x = Some k" for x using that by (auto simp: managed_key_def split: if_splits)
  show ?case
  proof (cases "managed_key r' = Some k")
    case True
    with Cons.prems(2) assms(4)[OF True] rule[OF True] show ?thesis by (cases "w k") auto
  next
    case False
    with Cons.prems(1) assms(2) have r: "r \<in> set rows" by auto
    show ?thesis
    proof (cases "source r' = ''rule''")
      case True
      with False Cons.prems(2) Cons.IH[OF r, of seen] Cons.IH[OF r, of "the (managed_key r') # seen"] show ?thesis
        by (auto split: option.splits)
    qed (use Cons.IH[OF r Cons.prems(2)] in auto)
  qed
qed simp

lemma preserved_by_key:
  "managed_key row = Some k \<Longrightarrow> managed_key row' = Some k \<Longrightarrow> preserved_protection ids keys row' = preserved_protection ids keys row"
  by (auto simp: managed_key_def row_key_def preserved_protection_def split: if_splits)

lemma preserved_rule_scanned: "k \<in> preserved_rule_ids rt pr rs \<Longrightarrow> rs \<noteq> []"
  by (auto simp: preserved_rule_ids_def protect_ids_def without_seerr_def split: if_splits)

lemma scan_reconciles:
  assumes "scan_with_db rt ev order_check i pr pending lib all_rules free db = Ok (res, ids, db')" "scan_rules all_rules \<noteq> []"
  obtains records where "protected_rows db' = fst (reconcile_protections rt
      (filter (\<lambda>r. normalize_rule_outcome r = ''protect'') (usable_rules rt pr (scan_rules all_rules))) records
      (preserved_rule_ids rt pr (scan_rules all_rules)) (sonarr_preserved pr) (protected_rows db))"
  using assms unfolding scan_with_db_def Let_def by (auto simp: rbind_Ok_iff dest!: finish_frame(1))

lemma managed_key_fields:
  "managed_key row = Some (row_key k row0) \<Longrightarrow> source row = ''rule'' \<and> source_rule_id row = Some k \<and> row_key k row = row_key k row0"
  by (auto simp: managed_key_def row_key_def split: if_splits)

lemma preserved_rows_kept:
  assumes "scan_with_db rt ev order_check i pr pending lib all_rules free db = Ok (res, ids, db')"
    and "row \<in> set (protected_rows db)" "source row = ''rule''" "source_rule_id row = Some k"
    and "k \<in> preserved_rule_ids rt pr (scan_rules all_rules)"
  shows "\<exists>row' \<in> set (protected_rows db'). source row' = ''rule'' \<and> source_rule_id row' = Some k \<and>
    row_key k row' = row_key k row \<and> (permanent row' \<or> row' \<in> set (protected_rows db))"
proof -
  obtain records where r: "protected_rows db' = fst (reconcile_protections rt
      (filter (\<lambda>r. normalize_rule_outcome r = ''protect'') (usable_rules rt pr (scan_rules all_rules))) records
      (preserved_rule_ids rt pr (scan_rules all_rules)) (sonarr_preserved pr) (protected_rows db))"
    using scan_reconciles[OF assms(1) preserved_rule_scanned[OF assms(5)]] .
  have key: "managed_key row = Some (row_key k row)" using assms(3,4) by (simp add: managed_key_def)
  have "preserved_protection (preserved_rule_ids rt pr (scan_rules all_rules)) (sonarr_preserved pr) row"
    using assms(4,5) by (simp add: preserved_protection_def)
  then have p: "preserved_protection (preserved_rule_ids rt pr (scan_rules all_rules)) (sonarr_preserved pr) row'"
    if "managed_key row' = Some (row_key k row)" for row' using preserved_by_key[OF key that] by simp
  have "\<exists>row' \<in> set (protected_rows db'). managed_key row' = Some (row_key k row)"
    unfolding r reconcile_shape set_append by (rule bexE[OF kept_some[OF assms(2) key _ p]]) (auto intro: bexI)
  then obtain row' where row': "row' \<in> set (protected_rows db')" "managed_key row' = Some (row_key k row)" by blast
  note f = managed_key_fields[OF row'(2)]
  have "permanent row' \<or> row' \<in> set (protected_rows db)"
    using reconciled_sound[OF row'(1)[unfolded r]] f unfolding stands_for_def by blast
  with f row'(1) show ?thesis by blast
qed

text \<open>
  What a rule asks for, and which fields cannot be trusted: those on Seerr's requests when Seerr was not
  reached, those on recorded playback when a provider failed or left gaps (the names of who has watched a title
  whole come from the media servers and are no part of it).
\<close>

definition rule_reads :: "runtime \<Rightarrow> reclaim_rule \<Rightarrow> string \<Rightarrow> bool" where
  "rule_reads rt r f \<longleftrightarrow> (\<exists>d \<in> set (collect_rule_conditions rt None (rule_definition r)). node_text rt d ''field'' = f)"

definition recorded_playback :: "string \<Rightarrow> bool" where
  "recorded_playback f \<longleftrightarrow> starts_with ''playback_history.'' f \<or> starts_with ''playback.'' f \<and> f \<noteq> ''playback.fully_watched_usernames''"

definition data_missing :: "provider_state \<Rightarrow> string \<Rightarrow> bool" where
  "data_missing pr f \<longleftrightarrow> \<not> seerr_ready pr \<and> starts_with ''seerr.'' f \<or>
     (playback_blocking pr \<or> playback_gaps pr) \<and> recorded_playback f"

definition is_rule_field :: "string \<Rightarrow> bool" where
  "is_rule_field f \<longleftrightarrow> List.member (map fst field_labels) f"

lemma collected_by_field:
  "collect_rule_conditions rt (Some f) v = filter (\<lambda>d. node_text rt d ''field'' = f) (collect_rule_conditions rt None v)"
proof -
  have "iter_condition_nodes rt (Some f) n = filter (\<lambda>d. node_text rt d ''field'' = f) (iter_condition_nodes rt None n)" for n
  proof (induction rt "Some f" n rule: iter_condition_nodes.induct)
    case (1 rt d)
    then show ?case by (auto simp: filter_concat comp_def split: pyval.splits intro!: arg_cong[where f = concat] map_cong)
  qed simp_all
  then show ?thesis by (simp add: collect_rule_conditions_def split: option.splits)
qed

lemma rule_reads_uses: "rule_reads rt r f \<Longrightarrow> List.member names f \<Longrightarrow> rule_uses rt names r"
  by (auto simp: rule_uses_def list_ex_iff rule_reads_def collected_by_field filter_empty_conv)

lemma field_kinds:
  "list_all (\<lambda>f. starts_with ''seerr.'' f \<longrightarrow> List.member [''seerr.requested'', ''seerr.requested_by_user_ids'', ''seerr.requester_has_watched'',
       ''seerr.requester_watched_after_request'', ''seerr.last_requested_at'', ''seerr.days_since_last_requested''] f) (map fst field_labels)"
  "list_all (\<lambda>f. recorded_playback f \<longrightarrow> List.member (all_playback_rule_fields @ user_scoped_playback_fields) f) (map fst field_labels)"
  by code_simp+

lemma missing_is_preserved:
  assumes "rule \<in> set all_rules" "rule_enabled rule" "normalize_rule_outcome rule = ''protect''"
    and "rule_reads rt rule f" "is_rule_field f" "data_missing pr f"
  shows "rule_id rule \<in> preserved_rule_ids rt pr (scan_rules all_rules)"
proof -
  have r: "rule \<in> set (scan_rules all_rules)" using assms(1-3) by (simp add: scan_rules_def)
  have f: "f \<in> set (map fst field_labels)" using assms(5) by (simp add: is_rule_field_def)
  have seerr: "rule_uses_seerr_fields rt rule" if "starts_with ''seerr.'' f"
    unfolding rule_uses_seerr_fields_def using rule_reads_uses[OF assms(4)] field_kinds(1) f that by (simp only: list_all_iff)
  have playback: "rule_uses_playback_fields rt rule" if "recorded_playback f"
    unfolding rule_uses_playback_fields_def using rule_reads_uses[OF assms(4)] field_kinds(2) f that by (simp only: list_all_iff)
  show ?thesis
    using assms(6) r seerr playback assms(3)
    by (auto simp: data_missing_def preserved_rule_ids_def protect_ids_def without_seerr_def)
qed

text \<open>C6: missing data lifts no protection.  When an enabled protect rule asks for a field on Seerr's requests
  and Seerr was not reached, or for a field on recorded playback and the playback data failed or had gaps, every
  row the rule has made is still there after the scan, as it was or made permanent.\<close>

theorem outage_keeps_protections:
  assumes "scan_with_db rt ev order_check i pr pending lib all_rules free db = Ok (res, ids, db')"
    and "rule \<in> set all_rules" "rule_enabled rule" "normalize_rule_outcome rule = ''protect''"
    and "rule_reads rt rule f" "is_rule_field f" "data_missing pr f"
    and "row \<in> set (protected_rows db)" "source row = ''rule''" "source_rule_id row = Some (rule_id rule)"
  shows "\<exists>row' \<in> set (protected_rows db'). source row' = ''rule'' \<and> source_rule_id row' = Some (rule_id rule) \<and>
    row_key (rule_id rule) row' = row_key (rule_id rule) row \<and> (permanent row' \<or> row' \<in> set (protected_rows db))"
  using preserved_rows_kept[OF assms(1,8-10) missing_is_preserved[OF assms(2-7)]] .

text \<open>C4: the candidates of a scan are the matches of the candidate rules.  Each unrequested candidate is on an
  open medium and names exactly the rules in use that match it, in their order; and each open medium that one of
  them matches has its candidate.  Candidates that wait for a resync, and the movies they are about, are left out.\<close>

theorem scan_proposes_the_matches:
  assumes "scan_with_db rt ev order_check i pr pending lib all_rules free db = Ok (res, ids, db')"
    and "scan_ready pending free (candidates db)" "library_keyed lib" "list_all (placed lib) (candidates db)"
  shows "(\<forall>c \<in> set (candidates db'). delete_request_id c = None \<and> candidate_id c \<notin> fst ` set pending \<longrightarrow>
        (\<exists>t \<in> set (all_targets rt i candidate_options (protected_rows db') lib).
           candidate_on c t \<and> matched_by_rules ev (flagging_rules rt pr all_rules) c t)) \<and>
      (\<forall>t \<in> set (all_targets rt i candidate_options (protected_rows db') lib). \<forall>rule \<in> set (flagging_rules rt pr all_rules).
        normalize_rule_target rule = target_scope_name t \<and> target_can_match t \<and> (\<exists>fs. ev rule t = Ok (True, fs)) \<and>
        target_movie t \<notin> Some ` snd ` set pending \<longrightarrow>
        (\<exists>c \<in> set (candidates db'). delete_request_id c = None \<and> candidate_on c t))"
  using scan_with_db_scanned[OF assms(1-3)] assms(4) unfolding scanned_def list_all_iff by blast

section \<open>A new scan restarts no grace period\<close>

lemma spike_clocks:
  "c \<in> set (candidates (snd (postpone_candidate_spike now before k db))) \<Longrightarrow> candidate_id c \<in> before \<Longrightarrow> c \<in> set (candidates db)"
  by (auto simp: postpone_candidate_spike_def Let_def split: if_splits)

lemma reconcile_candidate_clock:
  "reconcile_candidate now c db = Ok (c', ids, db') \<Longrightarrow> same_clock c c'"
  by (auto simp: reconcile_candidate_def rbind_Ok_iff same_clock_def split: if_splits prod.splits)

lemma reconcile_all_clocks: "reconcile_all now cs db = Ok (cs', ids, db') \<Longrightarrow> list_all2 same_clock cs cs'"
proof (induction cs arbitrary: db cs' ids)
  case (Cons c cs)
  then obtain c1 ids1 db1 cs2 ids2 where "reconcile_candidate now c db = Ok (c1, ids1, db1)"
    "reconcile_all now cs db1 = Ok (cs2, ids2, db')" "cs' = c1 # cs2"
    by (auto simp: rbind_Ok_iff)
  with Cons.IH[of db1 cs2 ids2] reconcile_candidate_clock show ?case by auto
qed simp

lemma finish_clocks:
  assumes "finish_scan now before n db = Ok (res, ids, db')" "c \<in> set (candidates db')" "candidate_id c \<in> before"
  shows "\<exists>c0 \<in> set (candidates db). same_clock c0 c"
proof -
  let ?braked = "snd (postpone_candidate_spike now before (candidates_created n) db)"
  have "list_all2 same_clock (candidates ?braked) (candidates db')"
    using assms(1) reconcile_all_clocks by (fastforce simp: finish_scan_def reconcile_candidate_schedule_events_def rbind_Ok_iff)
  then obtain c0 where c0: "c0 \<in> set (candidates ?braked)" "same_clock c0 c"
    using assms(2) by (metis in_set_conv_nth list_all2_conv_all_nth)
  moreover have "candidate_id c0 \<in> before" using c0(2) assms(3) by (simp add: same_clock_def)
  ultimately show ?thesis using spike_clocks by blast
qed

text \<open>C5: a scan restarts no grace period.\<close>

theorem rescan_keeps_the_clock:
  assumes "scan_with_db rt ev order_check i pr pending lib all_rules free db = Ok (res, ids, db')"
    and "scan_ready pending free (candidates db)" "library_keyed lib" "list_all (placed lib) (candidates db)"
    and "c0 \<in> set (candidates db)" "c \<in> set (candidates db')" "candidate_id c = candidate_id c0"
  shows "created_at c = created_at c0 \<and> timer_started_at c = timer_started_at c0 \<and> postponed_until c = postponed_until c0 \<and>
    cancelled_at c = cancelled_at c0"
proof -
  have num: "numbered free (candidates db)" using assms(2) by (simp add: scan_ready_def)
  have "\<exists>c1 \<in> set (candidates db). same_clock c1 c"
  proof (cases "scan_rules all_rules = []")
    case True
    with assms(1,6) show ?thesis using same_clock_refl by (fastforce simp: scan_with_db_def)
  next
    case False
    with assms(1) obtain rows n free' cs where
      ps: "process_scopes rt ev i pending lib (flagging_rules rt pr all_rules) rows free (candidates db) = Ok (n, free', cs)"
      and fin: "finish_scan (scan_now i) (set (map candidate_id (candidates db))) n (db\<lparr>protected_rows := rows, candidates := cs\<rparr>) = Ok (res, ids, db')"
      unfolding scan_with_db_def flagging_rules_def Let_def by (auto simp: rbind_Ok_iff)
    obtain c2 where c2: "c2 \<in> set cs" "same_clock c2 c" using finish_clocks[OF fin assms(6)] assms(5,7) by auto
    have "candidate_id c2 < free" using num assms(5,7) c2(2) by (auto simp: numbered_def same_clock_def)
    moreover have "clocks_kept free (candidates db) cs"
      by (rule process_scopes_scanned(2)[OF ps assms(2,3)]) (use assms(4) in \<open>simp add: list_all_iff\<close>)
    ultimately obtain c1 where "c1 \<in> set (candidates db)" "same_clock c1 c2" using c2(1) unfolding clocks_kept_def by force
    with same_clock_trans[OF _ c2(2)] show ?thesis by blast
  qed
  then obtain c1 where c1: "c1 \<in> set (candidates db)" "same_clock c1 c" by blast
  then have "c1 = c0"
    using num assms(5,7) by (auto simp: numbered_def same_clock_def distinct_map dest: inj_onD)
  with c1(2) show ?thesis by (simp add: same_clock_def)
qed

section \<open>A small library\<close>

definition demo_rule_row :: "int \<Rightarrow> string \<Rightarrow> string \<Rightarrow> pyval \<Rightarrow> reclaim_rule" where
  "demo_rule_row i outcome target defn =
     \<lparr>rule_id = i, rule_action = Some [(''outcome'', PStr outcome)], rule_enabled = True, rule_name = ''rule'',
      rule_media_type = MOVIE, rule_target_scope = target, rule_definition = defn\<rparr>"

definition demo_scan_version :: "int \<Rightarrow> scan_version" where
  "demo_scan_version i = \<lparr>mv_id = i, mv_media = 1, mv_service = PLEX, mv_item = ''i'', mv_media_id = None, mv_path = None, version_size = Some 7\<rparr>"

definition demo_scan_library :: scan_library where
  "demo_scan_library =
     \<lparr>scan_movies = [\<lparr>movie_no = 1, movie_tmdb = None, movie_removed = False, movie_size = None,
                      movie_versions = [demo_scan_version 11, demo_scan_version 12, demo_scan_version 13]\<rparr>],
      scan_shows = [], scan_episode_versions = []\<rparr>"

definition demo_movie_candidate :: "int \<Rightarrow> int \<Rightarrow> candidate" where
  "demo_movie_candidate i v = demo_candidate\<lparr>candidate_id := i, candidate_type := MOVIE, candidate_movie := Some 1,
     candidate_series := None, movie_version_id := Some v, season_id := None\<rparr>"

text \<open>Versions 11 and 12 are candidates; now the second rule protects version 12, and version 13 becomes one.\<close>

definition demo_scan_rules :: "reclaim_rule list" where
  "demo_scan_rules = [demo_rule_row 1 ''candidate'' ''movie_version'' PNone, demo_rule_row 2 ''protect'' ''movie_version'' PNone]"

definition demo_evaluator :: evaluator where
  "demo_evaluator r t = Ok (rule_id r = 1 \<or> target_medium t = 12, [], [[(''display'', PStr ''old'')]])"

definition demo_inputs :: scan_inputs where
  "demo_inputs = \<lparr>scan_now = 730001 * day_us, favorites_settings = None, favorite_rows = []\<rparr>"

definition demo_providers :: "bool \<Rightarrow> provider_state" where
  "demo_providers ready = \<lparr>seerr_ready = ready, playback_blocking = False, playback_gaps = False, sonarr_preserved = {}\<rparr>"

definition demo_scan_tables :: tables where
  "demo_scan_tables = demo_tables\<lparr>protected_rows := [], candidates := [demo_movie_candidate 2 11, demo_movie_candidate 3 12]\<rparr>"

definition demo_scan :: "(sync_counts option \<times> int list \<times> tables) result" where
  "demo_scan = scan_with_db demo_runtime demo_evaluator (\<lambda>_ _. None) demo_inputs (demo_providers True) [] demo_scan_library
     demo_scan_rules 4 demo_scan_tables"

lemma demo_scan_result:
  obtains res ids db' where "demo_scan = Ok (res, ids, db')"
     "map (\<lambda>c. (candidate_id c, movie_version_id c, delete_request_id c)) (candidates db') = [(2, Some 11, None), (4, Some 13, None)]"
     "map movie_version_id (protected_rows db') = [Some 12]" "list_all (active_protection (scan_now demo_inputs)) (protected_rows db')"
proof -
  have ok: "(case demo_scan of Ok (res, ids, db') \<Rightarrow>
      map (\<lambda>c. (candidate_id c, movie_version_id c, delete_request_id c)) (candidates db') = [(2, Some 11, None), (4, Some 13, None)] \<and>
      map movie_version_id (protected_rows db') = [Some 12] \<and> list_all (active_protection (scan_now demo_inputs)) (protected_rows db')
    | Raise _ \<Rightarrow> False)"
    by code_simp
  have "is_ok demo_scan" by code_simp
  then obtain out where "demo_scan = Ok out" unfolding is_ok_iff by (elim exE)
  moreover obtain res ids db' where "out = (res, ids, db')" by (cases out)
  ultimately have d: "demo_scan = Ok (res, ids, db')" by simp
  from ok[unfolded d] show thesis by (intro that[OF d]) simp_all
qed

lemma demo_scan_ready:
  "scan_ready [] 4 (candidates demo_scan_tables)" "library_keyed demo_scan_library" "list_all (placed demo_scan_library) (candidates demo_scan_tables)"
  by (simp_all add: scan_ready_def one_each_def numbered_def demo_scan_tables_def demo_movie_candidate_def demo_candidate_def
    managed_movie_def managed_show_def library_keyed_def demo_scan_library_def demo_scan_version_def placed_def)

theorem scan_spares_protected_media_witness:
  "\<exists>(db' :: tables) c row. c \<in> set (candidates db') \<and> row \<in> set (protected_rows db') \<and> movie_version_id c = Some 11 \<and> movie_version_id row = Some 12 \<and>
     \<not> protection_reaches row (candidate_type c) (candidate_movie c) (candidate_series c) c"
proof -
  obtain res ids db' where d: "demo_scan = Ok (res, ids, db')"
    "map (\<lambda>c. (candidate_id c, movie_version_id c, delete_request_id c)) (candidates db') = [(2, Some 11, None), (4, Some 13, None)]"
    "map movie_version_id (protected_rows db') = [Some 12]" "list_all (active_protection (scan_now demo_inputs)) (protected_rows db')"
    by (rule demo_scan_result)
  obtain c c' row where c: "candidates db' = [c, c']" "protected_rows db' = [row]" using d(2,3) by auto
  have "\<not> protection_reaches row (candidate_type c) (candidate_movie c) (candidate_series c) c"
    by (rule scan_spares_protected_media[OF d(1)[unfolded demo_scan_def] demo_scan_ready]) (use c d in auto)
  with c d show ?thesis by (intro exI[of _ db'] exI[of _ c] exI[of _ row]) auto
qed

theorem scan_proposes_the_matches_witness:
  "\<exists>(db' :: tables). (\<exists>c \<in> set (candidates db'). candidate_id c = 4) \<and> (\<forall>c \<in> set (candidates db'). delete_request_id c = None \<longrightarrow>
     (\<exists>t \<in> set (all_targets demo_runtime demo_inputs candidate_options (protected_rows db') demo_scan_library).
        candidate_on c t \<and> matched_by_rules demo_evaluator (flagging_rules demo_runtime (demo_providers True) demo_scan_rules) c t))"
proof -
  obtain res ids db' where d: "demo_scan = Ok (res, ids, db')"
    "map (\<lambda>c. (candidate_id c, movie_version_id c, delete_request_id c)) (candidates db') = [(2, Some 11, None), (4, Some 13, None)]"
    by (rule demo_scan_result)
  from d(2) scan_proposes_the_matches[OF d(1)[unfolded demo_scan_def] demo_scan_ready] show ?thesis
    by (intro exI[of _ db']) auto
qed

theorem rescan_keeps_the_clock_witness:
  "\<exists>(db' :: tables). \<exists>c \<in> set (candidates db'). candidate_id c = 2 \<and> created_at c = PDT (730000 * day_us) None"
proof -
  obtain res ids db' where d: "demo_scan = Ok (res, ids, db')"
    "map (\<lambda>c. (candidate_id c, movie_version_id c, delete_request_id c)) (candidates db') = [(2, Some 11, None), (4, Some 13, None)]"
    by (rule demo_scan_result)
  obtain c c' where cs: "candidates db' = [c, c']" using d(2) by auto
  with d(2) have c: "c \<in> set (candidates db')" "candidate_id c = 2" by auto
  have "created_at c = created_at (demo_movie_candidate 2 11)"
    using rescan_keeps_the_clock[OF d(1)[unfolded demo_scan_def] demo_scan_ready _ c(1), of "demo_movie_candidate 2 11"] c(2)
    by (simp add: demo_scan_tables_def demo_movie_candidate_def)
  with c show ?thesis by (intro exI[of _ db'] bexI[of _ c]) (simp_all add: demo_movie_candidate_def demo_candidate_def)
qed

text \<open>Seerr cannot be reached, or the playback data has gaps: the row of a rule that asks for it stays.\<close>

definition demo_reading_rule :: "string \<Rightarrow> reclaim_rule" where
  "demo_reading_rule field = demo_rule_row 2 ''protect'' ''movie_version''
     (PDict [(''root'', PDict [(''type'', PStr ''condition''), (''field'', PStr field)])])"

definition demo_kept_row :: protected_media where
  "demo_kept_row = (demo_row None True None)\<lparr>movie_version_id := Some 12, protected_type := MOVIE, protected_movie := Some 1,
     protected_series := None, source := ''rule'', source_rule_id := Some 2\<rparr>"

definition demo_gaps :: provider_state where
  "demo_gaps = \<lparr>seerr_ready = True, playback_blocking = False, playback_gaps = True, sonarr_preserved = {}\<rparr>"

definition demo_outage :: "provider_state \<Rightarrow> string \<Rightarrow> (sync_counts option \<times> int list \<times> tables) result" where
  "demo_outage pr field = scan_with_db demo_runtime (\<lambda>_ _. Ok (False, [], [])) (\<lambda>_ _. None) demo_inputs pr [] demo_scan_library
     [demo_reading_rule field] 4 (demo_scan_tables\<lparr>protected_rows := [demo_kept_row]\<rparr>)"

lemma demo_outage_runs:
  "is_ok (demo_outage (demo_providers False) ''seerr.requested'')" "is_ok (demo_outage demo_gaps ''playback.play_count'')"
  by code_simp+

lemma demo_reads: "rule_reads demo_runtime (demo_reading_rule f) f"
  by (simp add: rule_reads_def demo_reading_rule_def demo_rule_row_def collect_rule_conditions_def rule_root_def
    node_is_disabled_def node_text_def dget_def dget_or_def)

theorem outage_keeps_protections_witness:
  "(\<exists>res ids db'. demo_outage (demo_providers False) ''seerr.requested'' = Ok (res, ids, db') \<and>
      (\<exists>row \<in> set (protected_rows db'). source_rule_id row = Some 2)) \<and>
   (\<exists>res ids db'. demo_outage demo_gaps ''playback.play_count'' = Ok (res, ids, db') \<and>
      (\<exists>row \<in> set (protected_rows db'). source_rule_id row = Some 2))"
proof -
  have kept: "\<exists>res ids db'. demo_outage pr f = Ok (res, ids, db') \<and> (\<exists>row \<in> set (protected_rows db'). source_rule_id row = Some 2)"
    if "is_ok (demo_outage pr f)" "is_rule_field f" "data_missing pr f" for pr f
  proof -
    from that(1) obtain out where "demo_outage pr f = Ok out" unfolding is_ok_iff by blast
    moreover obtain res ids db' where "out = (res, ids, db')" by (cases out)
    ultimately have d: "demo_outage pr f = Ok (res, ids, db')" by simp
    have "\<exists>row \<in> set (protected_rows db'). source row = ''rule'' \<and> source_rule_id row = Some 2 \<and>
        row_key 2 row = row_key 2 demo_kept_row \<and> (permanent row \<or> row \<in> set [demo_kept_row])"
      using outage_keeps_protections[OF d[unfolded demo_outage_def] _ _ _ demo_reads that(2,3), of demo_kept_row]
      by (simp add: demo_kept_row_def demo_reading_rule_def demo_rule_row_def normalize_rule_outcome_def normalize_outcome_value_def
        action_of_def dget_def)
    with d show ?thesis by blast
  qed
  have "is_rule_field ''seerr.requested''" "data_missing (demo_providers False) ''seerr.requested''"
    "is_rule_field ''playback.play_count''" "data_missing demo_gaps ''playback.play_count''"
    by code_simp+
  with kept demo_outage_runs show ?thesis by blast
qed

end
