(* ===== verification/Revalidation.thy ===== *)
theory Revalidation
  imports Cleanup_Results
begin

text \<open>
  The automatic deletion run (\<open>_delete_cleanup_candidates_unlocked\<close> in \<open>tasks/cleanup.py\<close>): of the chosen
  candidates, those that owe their place to what has been watched are tried once more on fresh data
  (\<open>_revalidate_auto_delete_candidate_ids\<close>) before anything is handed to the deletion.  Whether the
  playback data could be had, and the deletion itself, are inputs.
\<close>

section \<open>Revalidation\<close>

type_synonym target_key = "string \<times> int"

definition key_in_scope :: "media_type \<Rightarrow> int option \<Rightarrow> 'a scope_scheme \<Rightarrow> target_key option" where
  "key_in_scope t in_series s =
     (if t = MOVIE then map_option (\<lambda>v. (''movie_version'', v)) (movie_version_id s)
      else if episode_id s \<noteq> None then map_option (\<lambda>e. (''episode'', e)) (episode_id s)
      else if season_id s \<noteq> None then map_option (\<lambda>n. (''season'', n)) (season_id s)
      else map_option (\<lambda>i. (''series'', i)) in_series)"

definition candidate_target_key :: "candidate \<Rightarrow> target_key option" where
  "candidate_target_key c = key_in_scope (candidate_type c) (candidate_series c) c"

definition record_target_key :: "matched_record \<Rightarrow> target_key option" where
  "record_target_key r = key_in_scope (record_type r) (record_series r) r"

text \<open>A preview: protected and favourite media are left out when some rule is there to delete.\<close>

definition preview_options :: "reclaim_rule list \<Rightarrow> (string \<Rightarrow> int set option) \<Rightarrow> string \<Rightarrow> scan_options" where
  "preview_options rs only name =
     (let guarded = (rs = [] \<or> list_ex (\<lambda>r. normalize_rule_outcome r = ''candidate'') rs)
      in \<lparr>exclude_favorites = guarded, exclude_protected = guarded, only_targets = only name\<rparr>)"

definition collect_rule_preview_matches ::
  "runtime \<Rightarrow> evaluator \<Rightarrow> (int \<Rightarrow> int set option \<Rightarrow> string option) \<Rightarrow> scan_inputs \<Rightarrow> protected_media list \<Rightarrow> scan_library \<Rightarrow>
   (string \<Rightarrow> int set option) \<Rightarrow> reclaim_rule list \<Rightarrow> matched_record list result" where
  "collect_rule_preview_matches rt ev order_check i rows lib only rs =
     collect_rule_match_records rt ev order_check i (preview_options rs only) rows lib rs"

record revalidation =
  revalidated_ids :: "int list"
  revalidated_out :: nat
  playback_unavailable :: nat

text \<open>The matched rules of a candidate that are enabled and opted in.\<close>

definition applicable_rules :: "(int \<times> reclaim_rule) list \<Rightarrow> candidate \<Rightarrow> int list" where
  "applicable_rules by_id c =
     filter (\<lambda>k. case map_of by_id k of
                   None \<Rightarrow> False
                 | Some r \<Rightarrow> rule_action r \<noteq> None \<and> dget (action_of (rule_action r)) ''auto_delete_enabled'' = PBool True)
       (matched_rule_ids c)"

definition watch_dependent :: "runtime \<Rightarrow> (int \<times> reclaim_rule) list \<Rightarrow> candidate \<Rightarrow> bool" where
  "watch_dependent rt by_id c =
     list_ex (rule_uses_watch_sensitive_fields rt) (somes_of (map_of by_id) (applicable_rules by_id c))"

definition targets_by_scope :: "candidate list \<Rightarrow> string \<Rightarrow> int set option" where
  "targets_by_scope cs name =
     (let ids = map snd (filter (\<lambda>k. fst k = name) (somes (map candidate_target_key cs)))
      in if ids = [] then None else Some (set ids))"

text \<open>One of the candidate's rules has matched its target again.\<close>

definition still_matched :: "(int \<times> reclaim_rule) list \<Rightarrow> matched_record list \<Rightarrow> candidate \<Rightarrow> bool" where
  "still_matched by_id records c \<longleftrightarrow> candidate_target_key c \<noteq> None \<and>
     list_ex (\<lambda>r. record_target_key r = candidate_target_key c \<and>
                  list_ex (List.member (applicable_rules by_id c)) (record_rule_ids r)) records"

text \<open>\<open>playback\<close> is the error of the playback data, if any, and the number of targets without any.\<close>

definition revalidate_auto_delete_candidate_ids ::
  "runtime \<Rightarrow> evaluator \<Rightarrow> (int \<Rightarrow> int set option \<Rightarrow> string option) \<Rightarrow> scan_inputs \<Rightarrow> string option \<times> nat \<Rightarrow>
   scan_library \<Rightarrow> reclaim_rule list \<Rightarrow> tables \<Rightarrow> int list \<Rightarrow> revalidation" where
  "revalidate_auto_delete_candidate_ids rt ev order_check i playback lib all_rules db ids =
     (let cs = filter (\<lambda>c. delete_request_id c = None \<and> List.member ids (candidate_id c)) (candidates db);
          named = concat (map matched_rule_ids cs);
          by_id = rules_by_id (filter (\<lambda>r. List.member named (rule_id r) \<and> rule_enabled r) all_rules);
          affected = filter (watch_dependent rt by_id) cs;
          passed = map candidate_id (filter (\<lambda>c. \<not> watch_dependent rt by_id c) cs);
          closed = \<lparr>revalidated_ids = filter (List.member passed) ids, revalidated_out = length affected,
                    playback_unavailable = length affected\<rparr>
      in if ids = [] then \<lparr>revalidated_ids = [], revalidated_out = 0, playback_unavailable = 0\<rparr>
         else if affected = [] then
           \<lparr>revalidated_ids = filter (List.member (map candidate_id cs)) ids, revalidated_out = 0, playback_unavailable = 0\<rparr>
         else (let used = somes_of (map_of by_id) (uniq (concat (map (applicable_rules by_id) affected)))
               in case collect_rule_preview_matches rt ev order_check i (protected_rows db) lib (targets_by_scope affected) used of
                    Raise _ \<Rightarrow> closed
                  | Ok records \<Rightarrow>
                      if some_text (fst playback) then closed
                      else (let retained = passed @ map candidate_id (filter (still_matched by_id records) affected)
                            in \<lparr>revalidated_ids = filter (List.member retained) ids,
                                revalidated_out = length (filter (\<lambda>c. \<not> still_matched by_id records c) affected),
                                playback_unavailable = min (snd playback) (length affected)\<rparr>)))"

section \<open>The run\<close>

record delete_summary =
  sum_eligible :: nat
  sum_waiting :: nat
  sum_skipped :: nat
  sum_revalidated_out :: nat
  sum_unavailable :: nat
  sum_deleted :: nat
  sum_failed :: nat
  sum_deferred :: nat

text \<open>
  The ids handed to the deletion, if it is called at all, and the summary; \<open>delete_candidates\<close> gives the
  numbers of deleted, failed and deferred candidates.
\<close>

definition delete_cleanup_candidates ::
  "runtime \<Rightarrow> evaluator \<Rightarrow> (int \<Rightarrow> int set option \<Rightarrow> string option) \<Rightarrow> scan_inputs \<Rightarrow> string option \<times> nat \<Rightarrow>
   scan_library \<Rightarrow> library \<Rightarrow> reclaim_rule list \<Rightarrow> (int list \<Rightarrow> nat \<times> nat \<times> nat) \<Rightarrow> tables \<Rightarrow>
   (int list option \<times> delete_summary) result" where
  "delete_cleanup_candidates rt ev order_check i playback lib owned all_rules delete_candidates db =
     rbind (select_auto_delete_eligible_candidate_ids (scan_now i) db owned) (\<lambda>(ids, skipped, waiting).
       if ids = [] then
         Ok (None, \<lparr>sum_eligible = 0, sum_waiting = waiting, sum_skipped = skipped, sum_revalidated_out = 0, sum_unavailable = 0,
                   sum_deleted = 0, sum_failed = 0, sum_deferred = 0\<rparr>)
       else (let v = revalidate_auto_delete_candidate_ids rt ev order_check i playback lib all_rules db ids;
                 kept = revalidated_ids v;
                 skipped' = skipped + revalidated_out v
             in if kept = [] then
                  Ok (None, \<lparr>sum_eligible = 0, sum_waiting = waiting, sum_skipped = skipped', sum_revalidated_out = revalidated_out v,
                            sum_unavailable = playback_unavailable v, sum_deleted = 0, sum_failed = 0, sum_deferred = 0\<rparr>)
                else (let (deleted, failed, deferred) = delete_candidates kept
                      in Ok (Some kept, \<lparr>sum_eligible = length kept, sum_waiting = waiting, sum_skipped = skipped',
                            sum_revalidated_out = revalidated_out v, sum_unavailable = playback_unavailable v,
                            sum_deleted = deleted, sum_failed = failed, sum_deferred = deferred\<rparr>))))"

section \<open>What a preview finds\<close>

definition target_key_of :: "scan_target \<Rightarrow> target_key" where
  "target_key_of t = (target_scope_name t, target_medium t)"

lemma record_target_key_of: "record_of r t \<Longrightarrow> record_target_key r = Some (target_key_of t)"
  by (cases t) (simp_all add: record_of_simps record_target_key_def key_in_scope_def target_key_of_def)

text \<open>The rule matches on the target, which the options leave open.\<close>

definition confirms ::
  "runtime \<Rightarrow> evaluator \<Rightarrow> scan_inputs \<Rightarrow> (string \<Rightarrow> scan_options) \<Rightarrow> protected_media list \<Rightarrow> scan_library \<Rightarrow> reclaim_rule \<Rightarrow>
   target_key \<Rightarrow> bool" where
  "confirms rt ev i opts rows lib rule key \<longleftrightarrow>
     (\<exists>name \<in> set scope_names. \<exists>t \<in> set (scope_targets rt i (opts name) rows lib name).
        target_key_of t = key \<and> (\<exists>fs. ev rule t = Ok (True, fs)))"

lemma collected_confirms:
  assumes "collect_rule_match_records rt ev order_check i opts rows lib rs = Ok records" "r \<in> set records" "k \<in> set (record_rule_ids r)"
  shows "\<exists>rule \<in> set rs. rule_id rule = k \<and> (\<exists>key. record_target_key r = Some key \<and> confirms rt ev i opts rows lib rule key)"
proof -
  obtain found where f: "rmap (\<lambda>name. collect_scope rt ev i (opts name) rows lib rs name) scope_names = Ok found" "r \<in> set (concat found)"
    using assms(1,2) by (auto simp: collect_rule_match_records_def rbind_Ok_iff)
  then obtain ys where "ys \<in> set found" "r \<in> set ys" by auto
  with set_rmap[OF f(1)] obtain name where n: "name \<in> set scope_names" "collect_scope rt ev i (opts name) rows lib rs name = Ok ys" by blast
  show ?thesis
  proof (rule collect_scope_sound[OF n(2) \<open>r \<in> set ys\<close>])
    fix t assume t: "t \<in> set (scope_targets rt i (opts name) rows lib name)" "record_of r t"
      and m: "\<And>k. k \<in> set (record_rule_ids r) \<Longrightarrow> \<exists>rule \<in> set rs. rule_id rule = k \<and> normalize_rule_target rule = target_scope_name t \<and>
        (\<exists>fs. ev rule t = Ok (True, fs))"
    from m[OF assms(3)] t n(1) record_target_key_of[OF t(2)] show ?thesis unfolding confirms_def by blast
  qed
qed

section \<open>What is handed over was confirmed\<close>

definition auto_deletes :: "reclaim_rule \<Rightarrow> bool" where
  "auto_deletes r \<longleftrightarrow> rule_action r \<noteq> None \<and> dget (action_of (rule_action r)) ''auto_delete_enabled'' = PBool True"

lemma applicable_iff:
  "k \<in> set (applicable_rules by_id c) \<longleftrightarrow> k \<in> set (matched_rule_ids c) \<and> (\<exists>r. map_of by_id k = Some r \<and> auto_deletes r)"
  by (auto simp: applicable_rules_def auto_deletes_def split: option.splits)

lemma map_of_rules_by_id_distinct:
  assumes "distinct (map rule_id rs)" "r \<in> set rs"
  shows "map_of (rules_by_id rs) (rule_id r) = Some r"
proof -
  have "rule_id r \<in> fst ` set (rules_by_id rs)" using assms(2) by (force simp: rules_by_id_def keys_dupdate)
  then obtain r' where r': "map_of (rules_by_id rs) (rule_id r) = Some r'" by (metis domD dom_map_of_conv_image_fst)
  with map_of_rules_by_id[OF this] assms show ?thesis by (metis distinct_map inj_onD)
qed

lemma watch_dependent_iff:
  "watch_dependent rt by_id c \<longleftrightarrow>
   (\<exists>k \<in> set (matched_rule_ids c). \<exists>r. map_of by_id k = Some r \<and> auto_deletes r \<and> rule_uses_watch_sensitive_fields rt r)"
  (is "_ \<longleftrightarrow> ?right")
proof
  assume "watch_dependent rt by_id c"
  then obtain k r where "k \<in> set (applicable_rules by_id c)" "map_of by_id k = Some r" "rule_uses_watch_sensitive_fields rt r"
    by (auto simp: watch_dependent_def list_ex_iff set_somes_of)
  then show ?right unfolding applicable_iff by auto
next
  assume ?right
  then obtain k r where r: "k \<in> set (matched_rule_ids c)" "map_of by_id k = Some r" "auto_deletes r" "rule_uses_watch_sensitive_fields rt r"
    by blast
  then have "k \<in> set (applicable_rules by_id c)" unfolding applicable_iff by simp
  with r have "r \<in> set (somes_of (map_of by_id) (applicable_rules by_id c))" by (auto simp: set_somes_of)
  with r(4) show "watch_dependent rt by_id c" unfolding watch_dependent_def list_ex_iff by blast
qed

definition rules_named :: "reclaim_rule list \<Rightarrow> tables \<Rightarrow> int list \<Rightarrow> (int \<times> reclaim_rule) list" where
  "rules_named all_rules db ids =
     rules_by_id (filter (\<lambda>r. List.member (concat (map matched_rule_ids
       (filter (\<lambda>c. delete_request_id c = None \<and> List.member ids (candidate_id c)) (candidates db)))) (rule_id r) \<and> rule_enabled r) all_rules)"

definition confirmed ::
  "runtime \<Rightarrow> evaluator \<Rightarrow> scan_inputs \<Rightarrow> scan_library \<Rightarrow> protected_media list \<Rightarrow> (int \<times> reclaim_rule) list \<Rightarrow> candidate \<Rightarrow> bool" where
  "confirmed rt ev i lib rows by_id c \<longleftrightarrow>
     (\<exists>key used only rule. candidate_target_key c = Some key \<and> rule \<in> set used \<and> rule_id rule \<in> set (applicable_rules by_id c) \<and>
        map_of by_id (rule_id rule) = Some rule \<and> confirms rt ev i (preview_options used only) rows lib rule key)"

lemma revalidated:
  assumes "k \<in> set (revalidated_ids (revalidate_auto_delete_candidate_ids rt ev order_check i playback lib all_rules db ids))"
  shows "k \<in> set ids \<and> (\<exists>c \<in> set (candidates db). candidate_id c = k \<and> delete_request_id c = None \<and>
    (watch_dependent rt (rules_named all_rules db ids) c \<longrightarrow>
       \<not> some_text (fst playback) \<and> confirmed rt ev i lib (protected_rows db) (rules_named all_rules db ids) c))"
proof -
  let ?by = "rules_named all_rules db ids"
  let ?cs = "filter (\<lambda>c. delete_request_id c = None \<and> List.member ids (candidate_id c)) (candidates db)"
  let ?affected = "filter (watch_dependent rt ?by) ?cs"
  let ?used = "somes_of (map_of ?by) (uniq (concat (map (applicable_rules ?by) ?affected)))"
  let ?only = "targets_by_scope ?affected"
  let ?preview = "collect_rule_preview_matches rt ev order_check i (protected_rows db) lib ?only ?used"
  have "k \<in> candidate_id ` {c \<in> set ?cs. \<not> watch_dependent rt ?by c} \<or>
      (\<exists>records. \<not> some_text (fst playback) \<and> ?preview = Ok records \<and> k \<in> candidate_id ` {c \<in> set ?affected. still_matched ?by records c})"
    using assms unfolding revalidate_auto_delete_candidate_ids_def rules_named_def[symmetric] Let_def
    by (auto simp: filter_empty_conv split: if_splits result.splits)
  then consider c where "c \<in> set ?cs" "candidate_id c = k" "\<not> watch_dependent rt ?by c"
    | c records where "c \<in> set ?affected" "candidate_id c = k" "\<not> some_text (fst playback)" "?preview = Ok records" "still_matched ?by records c"
    by blast
  then show ?thesis
  proof cases
    case 1
    then show ?thesis by auto
  next
    case 2
    then obtain r j where rj: "r \<in> set records" "record_target_key r = candidate_target_key c" "j \<in> set (record_rule_ids r)"
      "j \<in> set (applicable_rules ?by c)" unfolding still_matched_def list_ex_iff by auto
    from collected_confirms[OF 2(4)[unfolded collect_rule_preview_matches_def] rj(1,3)] obtain rule key where
      m: "rule \<in> set ?used" "rule_id rule = j" "record_target_key r = Some key"
        "confirms rt ev i (preview_options ?used ?only) (protected_rows db) lib rule key" by blast
    then obtain j' where "map_of ?by j' = Some rule" by (auto simp: set_somes_of)
    moreover from this have "rule_id rule = j'" unfolding rules_named_def by (auto dest: map_of_rules_by_id)
    ultimately have "confirmed rt ev i lib (protected_rows db) ?by c"
      unfolding confirmed_def using m rj by (intro exI[of _ key] exI[of _ ?used] exI[of _ ?only] exI[of _ rule]) auto
    with 2 show ?thesis by auto
  qed
qed

lemma delete_cleanup_shape:
  assumes "delete_cleanup_candidates rt ev order_check i playback lib owned all_rules delete_candidates db = Ok (Some ids, s)"
  obtains chosen skipped waiting where
    "select_auto_delete_eligible_candidate_ids (scan_now i) db owned = Ok (chosen, skipped, waiting)"
    "ids = revalidated_ids (revalidate_auto_delete_candidate_ids rt ev order_check i playback lib all_rules db chosen)"
  using assms by (auto simp: delete_cleanup_candidates_def rbind_Ok_iff Let_def split: if_splits prod.splits)

text \<open>C8: stale matches are not deleted.  When an enabled rule of a candidate that opts into automatic deletion depends on
  what was watched, the candidate is handed on only with whole playback data and a new match on it.\<close>

theorem stale_matches_are_not_deleted:
  assumes "delete_cleanup_candidates rt ev order_check i playback lib owned all_rules delete_candidates db = Ok (Some ids, s)"
    and "distinct (map candidate_id (candidates db))" "distinct (map rule_id all_rules)"
    and "c \<in> set (candidates db)" "candidate_id c \<in> set ids"
    and "rule \<in> set all_rules" "rule_enabled rule" "auto_deletes rule" "rule_id rule \<in> set (matched_rule_ids c)"
    and "rule_uses_watch_sensitive_fields rt rule"
  shows "\<not> some_text (fst playback) \<and>
    (\<exists>used only. \<exists>rule' \<in> set used. rule' \<in> set all_rules \<and> rule_enabled rule' \<and> auto_deletes rule' \<and>
       rule_id rule' \<in> set (matched_rule_ids c) \<and>
       (\<exists>key. candidate_target_key c = Some key \<and>
              confirms rt ev i (preview_options used only) (protected_rows db) lib rule' key))"
proof -
  obtain chosen skipped waiting where
    sh: "ids = revalidated_ids (revalidate_auto_delete_candidate_ids rt ev order_check i playback lib all_rules db chosen)"
    by (rule delete_cleanup_shape[OF assms(1)])
  note k = assms(5)[unfolded sh]
  let ?by = "rules_named all_rules db chosen"
  from revalidated[OF k] obtain c' where c': "candidate_id c \<in> set chosen" "c' \<in> set (candidates db)" "candidate_id c' = candidate_id c"
    "delete_request_id c' = None" "watch_dependent rt ?by c' \<longrightarrow> \<not> some_text (fst playback) \<and> confirmed rt ev i lib (protected_rows db) ?by c'"
    by blast
  have "c' = c" using c'(2,3) assms(2,4) by (metis distinct_map inj_onD)
  have d: "distinct (map rule_id (filter p all_rules))" for p by (rule distinct_map_filter[OF assms(3)])
  have "map_of ?by (rule_id rule) = Some rule"
    unfolding rules_named_def
    by (rule map_of_rules_by_id_distinct[OF d]) (use assms(4,6,7,9) c' \<open>c' = c\<close> in auto)
  then have "watch_dependent rt ?by c" using assms(8-10) unfolding watch_dependent_iff by blast
  with c'(5) \<open>c' = c\<close> have v: "\<not> some_text (fst playback)" "confirmed rt ev i lib (protected_rows db) ?by c" by blast+
  then obtain key used only rule' where f: "candidate_target_key c = Some key" "rule' \<in> set used"
    "rule_id rule' \<in> set (applicable_rules ?by c)" "map_of ?by (rule_id rule') = Some rule'"
    "confirms rt ev i (preview_options used only) (protected_rows db) lib rule' key"
    unfolding confirmed_def by blast
  have "rule' \<in> set all_rules \<and> rule_enabled rule'" using map_of_rules_by_id[OF f(4)[unfolded rules_named_def]] by auto
  moreover have "auto_deletes rule'" "rule_id rule' \<in> set (matched_rule_ids c)" using f(3,4) by (auto simp: applicable_iff)
  ultimately show ?thesis using v(1) f(1,2,5) by blast
qed

section \<open>A version that nobody has watched\<close>

definition demo_watch_rule :: reclaim_rule where
  "demo_watch_rule = \<lparr>rule_id = 1, rule_action = Some [(''auto_delete_enabled'', PBool True)], rule_enabled = True, rule_name = ''rule'',
     rule_media_type = MOVIE, rule_target_scope = ''movie_version'',
     rule_definition = PDict [(''root'', PDict [(''type'', PStr ''condition''), (''field'', PStr ''watch.never_watched'')])]\<rparr>"

definition demo_due :: tables where
  "demo_due = demo_tables\<lparr>protected_rows := [], candidates := [demo_movie_candidate 2 11]\<rparr>"

definition demo_deletion :: "(int list option \<times> delete_summary) result" where
  "demo_deletion = delete_cleanup_candidates demo_runtime demo_evaluator (\<lambda>_ _. None) (demo_inputs\<lparr>scan_now := 730100 * day_us\<rparr>)
     (None, 0) demo_scan_library demo_library [demo_watch_rule] (\<lambda>ids. (length ids, 0, 0)) demo_due"

lemma demo_watch_sensitive: "rule_uses_watch_sensitive_fields demo_runtime demo_watch_rule"
  by code_simp

theorem stale_matches_are_not_deleted_witness:
  "\<exists>used only key. \<exists>rule \<in> set used.
     confirms demo_runtime demo_evaluator (demo_inputs\<lparr>scan_now := 730100 * day_us\<rparr>) (preview_options used only) [] demo_scan_library rule key"
proof -
  have "is_ok demo_deletion" by code_simp
  then obtain out where out: "demo_deletion = Ok out" unfolding is_ok_iff by (elim exE)
  have ids: "(case demo_deletion of Ok r \<Rightarrow> fst r | Raise _ \<Rightarrow> None) = Some [2]" by code_simp
  have d: "demo_deletion = Ok (Some [2], snd out)" using ids[unfolded out] out by (cases out) simp
  have "protected_rows demo_due = []" by (simp add: demo_due_def)
  moreover have "candidate_id (demo_movie_candidate 2 11) = 2" "1 \<in> set (matched_rule_ids (demo_movie_candidate 2 11))"
    by (simp_all add: demo_movie_candidate_def demo_candidate_def)
  ultimately show ?thesis
    using stale_matches_are_not_deleted[OF d[unfolded demo_deletion_def], of "demo_movie_candidate 2 11" demo_watch_rule] demo_watch_sensitive
    by (simp add: demo_due_def demo_watch_rule_def auto_deletes_def action_of_def dget_Cons dget_Nil) blast
qed

end
