(* ===== verification/Guarded_Run.thy ===== *)
theory Guarded_Run
  imports Candidate_Scan "HOL-Library.Multiset"
begin

text \<open>
  Deleting or moving a list of candidates (\<open>_run_playback_guarded_candidates_impl\<close> in \<open>tasks/cleanup.py\<close>):
  the candidates are grouped by medium, those of a group that are played are deferred, and the rest of
  the group is handed to the deletion or the move.  The second part is the preparation of a deletion and
  its routes (\<open>_delete_candidates_prepared\<close>, \<open>_delete_specific_candidates_impl\<close>).  A run is a sequence of
  numbered steps: one per candidate that is looked at, one per checkpoint of the work on a group and one for
  the work itself.  The work (its checkpoints and what it comes to) is a parameter; so are the time, the servers'
  answers and the disk, which differ from step to step.
\<close>

section \<open>What a run meets\<close>

text \<open>
  What the work on a group comes to: its counts, or the deferral that stopped it with the candidates then left.
  \<open>world_work\<close> gives it with the paths of the checkpoints that the work passes through on the way.
\<close>

datatype group_outcome =
  Group_Done nat nat
| Group_Deferred deferral "int list"

record run_world =
  world_clock :: "nat \<Rightarrow> int \<Rightarrow> int"
  world_fetch :: "nat \<Rightarrow> int \<Rightarrow> fetched"
  world_disk :: "nat \<Rightarrow> disk"
  world_store :: "nat \<Rightarrow> store"
  world_lists :: "nat \<Rightarrow> fpath \<Rightarrow> bool"
  world_work :: "nat \<Rightarrow> playback_operation option \<Rightarrow> int list \<Rightarrow> group_outcome \<times> target_path list list"

text \<open>What a run reads first: the rules, the default behaviour, the targets, the pending resyncs; the check of a show's order.\<close>

record run_inputs =
  run_rules :: "reclaim_rule list"
  run_fallback :: arr_action
  run_target :: "candidate \<Rightarrow> playback_target"
  run_pending :: "int list"
  run_order :: "int \<Rightarrow> int set option \<Rightarrow> string option"

datatype run_deferral = Resync_Pending | Playback deferral

record run_result =
  run_succeeded :: nat
  run_failed :: nat
  run_deferrals :: "(int \<times> run_deferral) list"
  run_marked :: "(int \<times> string) list"
  run_handed :: "(nat \<times> playback_operation option \<times> int list) list"

section \<open>Groups\<close>

type_synonym group_key = "media_type \<times> int option \<times> bool"

definition run_actions :: "run_inputs \<Rightarrow> rule_table" where
  "run_actions i = map (\<lambda>(k, r). (k, rule_action r)) (rules_by_id (run_rules i))"

definition file_free :: "run_inputs \<Rightarrow> bool \<Rightarrow> candidate \<Rightarrow> bool result" where
  "file_free i moving c = (if moving then Ok False else keeps_files (run_actions i) (run_fallback i) (matched_rule_ids c))"

text \<open>\<open>candidate.movie_id or candidate.series_id\<close>\<close>

definition group_medium :: "candidate \<Rightarrow> int option" where
  "group_medium c = (if candidate_movie c = None \<or> candidate_movie c = Some 0 then candidate_series c else candidate_movie c)"

fun add_to_group :: "group_key \<Rightarrow> candidate \<Rightarrow> (group_key \<times> candidate list) list \<Rightarrow> (group_key \<times> candidate list) list" where
  "add_to_group k c [] = [(k, [c])]"
| "add_to_group k c (g # gs) = (if fst g = k then (k, snd g @ [c]) # gs else g # add_to_group k c gs)"

fun group_candidates ::
  "run_inputs \<Rightarrow> bool \<Rightarrow> candidate list \<Rightarrow> (group_key \<times> candidate list) list \<Rightarrow> (group_key \<times> candidate list) list result" where
  "group_candidates i moving [] gs = Ok gs"
| "group_candidates i moving (c # cs) gs =
     rbind (file_free i moving c) (\<lambda>free.
       group_candidates i moving cs (add_to_group (candidate_type c, group_medium c, free) c gs))"

section \<open>One group\<close>

text \<open>What befalls a candidate before its group is handed over.\<close>

datatype admission = Misordered string | Held deferral | Admitted playback_target

definition candidate_misordered :: "runtime \<Rightarrow> run_inputs \<Rightarrow> candidate \<Rightarrow> string option" where
  "candidate_misordered rt i c =
     (if candidate_uses_episode_numbering rt (rules_by_id (run_rules i)) (candidate_series c) (season_id c) (episode_id c)
           (matched_rule_ids c)
      then run_order i (the (candidate_series c)) (candidate_arr_config_ids (run_actions i) Sonarr (matched_rule_ids c))
      else None)"

definition admit ::
  "runtime \<Rightarrow> run_world \<Rightarrow> run_inputs \<Rightarrow> bool \<Rightarrow> bool \<Rightarrow> nat \<Rightarrow> playback_guard \<Rightarrow> candidate \<Rightarrow> admission \<times> playback_guard" where
  "admit rt w i moving free n g c =
     (if some_text (candidate_misordered rt i c) then (Misordered (or_empty (candidate_misordered rt i c)), g)
      else if free then (Admitted (run_target i c), g)
      else case expand_local_target (world_disk w n) (world_store w n) (world_lists w n) g
                  (moving \<or> should_move_instead_of_delete (run_actions i) (matched_rule_ids c)) (run_target i c) of
             Inl d \<Rightarrow> (Held d, g)
           | Inr t \<Rightarrow>
               (case check_target (world_clock w n) (world_fetch w n) g t of
                  (Some d, g') \<Rightarrow> (Held d, g')
                | (None, g') \<Rightarrow> (Admitted t, g')))"

fun admit_group ::
  "runtime \<Rightarrow> run_world \<Rightarrow> run_inputs \<Rightarrow> bool \<Rightarrow> bool \<Rightarrow> nat \<Rightarrow> playback_guard \<Rightarrow> candidate list \<Rightarrow>
   (int \<times> admission) list \<times> nat \<times> playback_guard" where
  "admit_group rt w i moving free n g [] = ([], n, g)"
| "admit_group rt w i moving free n g (c # cs) =
     (let (a, g1) = admit rt w i moving free n g c;
          (rest, n', g') = admit_group rt w i moving free (n + 1) g1 cs
      in ((candidate_id c, a) # rest, n', g'))"

definition marked_of :: "(int \<times> admission) list \<Rightarrow> (int \<times> string) list" where
  "marked_of as = somes (map (\<lambda>(k, a). case a of Misordered e \<Rightarrow> Some (k, e) | _ \<Rightarrow> None) as)"

definition held_of :: "(int \<times> admission) list \<Rightarrow> (int \<times> run_deferral) list" where
  "held_of as = somes (map (\<lambda>(k, a). case a of Held d \<Rightarrow> Some (k, Playback d) | _ \<Rightarrow> None) as)"

definition admitted_of :: "(int \<times> admission) list \<Rightarrow> (int \<times> playback_target) list" where
  "admitted_of as = somes (map (\<lambda>(k, a). case a of Admitted t \<Rightarrow> Some (k, t) | _ \<Rightarrow> None) as)"

definition group_target :: "(int \<times> playback_target) list \<Rightarrow> playback_target" where
  "group_target ks = foldl extend_target empty_target (map snd ks)"

text \<open>
  The checkpoints of the work, one step each; without an operation they do nothing.  They are the only calls by which the
  work asks the servers, so they alone change the snapshots of the guard.
\<close>

fun work_checkpoints :: "run_world \<Rightarrow> nat \<Rightarrow> target_path list list \<Rightarrow> playback_operation \<Rightarrow> nat \<times> playback_operation" where
  "work_checkpoints w n [] op = (n, op)"
| "work_checkpoints w n (paths # pss) op =
     work_checkpoints w (n + 1) pss (snd (playback_checkpoint (world_clock w n) (world_fetch w n) paths op))"

definition after_work :: "run_world \<Rightarrow> nat \<Rightarrow> target_path list list \<Rightarrow> playback_operation option \<Rightarrow> playback_guard \<Rightarrow> nat \<times> playback_guard" where
  "after_work w n pss op g =
     (case op of None \<Rightarrow> (n, g) | Some op' \<Rightarrow> (let (n', op'') = work_checkpoints w n pss op' in (n', op_guard op'')))"

text \<open>The steps taken, the guard and the result so far.  A group is handed over at the step its work begins with.\<close>

type_synonym run_state = "nat \<times> playback_guard \<times> run_result"

definition run_group ::
  "runtime \<Rightarrow> run_world \<Rightarrow> run_inputs \<Rightarrow> bool \<Rightarrow> group_key \<times> candidate list \<Rightarrow> run_state \<Rightarrow> run_state" where
  "run_group rt w i moving kg st =
     (let (n, g, res) = st;
          free = snd (snd (fst kg));
          (as, n1, g1) = admit_group rt w i moving free n g (snd kg);
          allowed = map fst (admitted_of as);
          res1 = res\<lparr>run_failed := run_failed res + length (marked_of as), run_marked := run_marked res @ marked_of as,
                     run_deferrals := dupdate (run_deferrals res) (held_of as)\<rparr>
      in if allowed = [] then (n1, g1, res1)
         else (let op = (if free then None
                         else Some \<lparr>op_guard = g1, op_target = group_target (admitted_of as), completed_steps = []\<rparr>);
                   (outcome, pss) = world_work w n1 op allowed;
                   (n2, g2) = after_work w n1 pss op g1;
                   res2 = res1\<lparr>run_handed := run_handed res1 @ [(n1, op, allowed)]\<rparr>
               in (n2 + 1, g2,
                   case outcome of
                     Group_Done s f \<Rightarrow> res2\<lparr>run_succeeded := run_succeeded res2 + s, run_failed := run_failed res2 + f\<rparr>
                   | Group_Deferred d left \<Rightarrow>
                       (let remaining = filter (List.member left) (uniq allowed)
                        in res2\<lparr>run_succeeded := run_succeeded res2 + (length (uniq allowed) - length remaining),
                                run_deferrals := dupdate (run_deferrals res2) (map (\<lambda>k. (k, Playback d)) remaining)\<rparr>))))"

section \<open>The run\<close>

definition considered_candidates :: "run_inputs \<Rightarrow> candidate list \<Rightarrow> int list \<Rightarrow> candidate list" where
  "considered_candidates i cs ids =
     filter (\<lambda>c. List.member ids (candidate_id c) \<and> \<not> List.member (run_pending i) (candidate_id c)) cs"

definition run_playback_guarded_candidates ::
  "runtime \<Rightarrow> run_world \<Rightarrow> run_inputs \<Rightarrow> bool \<Rightarrow> playback_guard \<Rightarrow> candidate list \<Rightarrow> int list \<Rightarrow> run_result result" where
  "run_playback_guarded_candidates rt w i moving g cs ids =
     (let pending = filter (List.member ids) (run_pending i);
          start = \<lparr>run_succeeded = 0, run_failed = 0, run_deferrals = dupdate [] (map (\<lambda>k. (k, Resync_Pending)) pending),
                   run_marked = [], run_handed = []\<rparr>
      in if ids = [] then Ok start
         else rbind (group_candidates i moving (considered_candidates i cs ids) [])
                (\<lambda>gs. Ok (snd (snd (foldl (\<lambda>st kg. run_group rt w i moving kg st) (0, g, start) gs)))))"

section \<open>Groups hold every candidate once\<close>

lemma mset_add_to_group: "mset (concat (map snd (add_to_group k c gs))) = add_mset c (mset (concat (map snd gs)))"
  by (induction gs) auto

lemma mset_groups:
  "group_candidates i moving cs gs = Ok gs' \<Longrightarrow> mset (concat (map snd gs')) = mset (concat (map snd gs)) + mset cs"
  by (induction cs arbitrary: gs) (auto simp: rbind_Ok_iff mset_add_to_group)

definition group_ok :: "run_inputs \<Rightarrow> bool \<Rightarrow> group_key \<times> candidate list \<Rightarrow> bool" where
  "group_ok i moving kg \<longleftrightarrow> (\<forall>c \<in> set (snd kg). fst kg = (candidate_type c, group_medium c, snd (snd (fst kg))) \<and>
     file_free i moving c = Ok (snd (snd (fst kg))))"

lemma add_to_group_ok:
  "list_all (group_ok i moving) gs \<Longrightarrow> file_free i moving c = Ok free \<Longrightarrow>
   list_all (group_ok i moving) (add_to_group (candidate_type c, group_medium c, free) c gs)"
  by (induction gs) (auto simp: group_ok_def)

lemma groups_ok:
  "group_candidates i moving cs gs = Ok gs' \<Longrightarrow> list_all (group_ok i moving) gs \<Longrightarrow> list_all (group_ok i moving) gs'"
  by (induction cs arbitrary: gs) (auto simp: rbind_Ok_iff add_to_group_ok)

section \<open>Who is admitted\<close>

definition guard_frame :: "playback_guard \<Rightarrow> playback_guard \<Rightarrow> bool" where
  "guard_frame g g' \<longleftrightarrow> guard_enabled g' = guard_enabled g \<and> guard_mappings g' = guard_mappings g \<and>
     guard_configs g' = guard_configs g \<and> defer_when_unavailable g' = defer_when_unavailable g"

lemma guard_frame_refl [simp]: "guard_frame g g"
  by (simp add: guard_frame_def)

lemma guard_frame_trans: "guard_frame g g' \<Longrightarrow> guard_frame g' g'' \<Longrightarrow> guard_frame g g''"
  by (simp add: guard_frame_def)

lemma expanded_target: "expand_local_target env t can_list g moving target = Inr target' \<Longrightarrow> covers_target target' target"
  by (auto simp: expand_local_target_def Let_def split: if_splits prod.splits)

text \<open>
  The answers a run can rest on at a step: those that the guard it started with had kept, and those given at one of its
  steps up to this one.
\<close>

definition heard :: "run_world \<Rightarrow> playback_guard \<Rightarrow> nat \<Rightarrow> answer_history" where
  "heard w g0 n cid taken snap \<longleftrightarrow>
     (cid, taken, snap) \<in> set (guard_snapshots g0) \<or>
     (\<exists>m \<le> n. taken = world_clock w m cid \<and> snap = fetched_snapshot (world_fetch w m cid))"

lemma heard_now: "m \<le> n \<Longrightarrow> heard w g0 n cid (world_clock w m cid) (fetched_snapshot (world_fetch w m cid))"
  unfolding heard_def by blast

lemma heard_later: "heard w g0 n cid taken snap \<Longrightarrow> n \<le> n' \<Longrightarrow> heard w g0 n' cid taken snap"
  unfolding heard_def using le_trans by blast

lemma answers_later: "answers_from (heard w g0 n) g \<Longrightarrow> n \<le> n' \<Longrightarrow> answers_from (heard w g0 n') g"
  by (erule answers_from_mono) (rule heard_later)

text \<open>What a run keeps of its guard at a step: the settings, and answers that it can rest on.\<close>

definition guard_at :: "run_world \<Rightarrow> playback_guard \<Rightarrow> nat \<Rightarrow> playback_guard \<Rightarrow> bool" where
  "guard_at w g0 n g \<longleftrightarrow> guard_enabled g0 \<and> guard_frame g0 g \<and> answers_from (heard w g0 n) g"

lemma guard_at_later: "guard_at w g0 n g \<Longrightarrow> n \<le> n' \<Longrightarrow> guard_at w g0 n' g"
  unfolding guard_at_def using answers_later by blast

lemma checked_guard_at:
  assumes "check_target (world_clock w n) (world_fetch w n) g t = (d, g')" "guard_at w g0 n g"
  shows "guard_at w g0 n g'"
  using assms check_target_frame[OF assms(1)] check_target_answers[OF assms(1), of "heard w g0 n"] heard_now[of n n w g0]
  unfolding guard_at_def guard_frame_def by auto

lemma work_checkpoints_guard_at:
  "work_checkpoints w n pss op = (n', op') \<Longrightarrow> guard_at w g0 n (op_guard op) \<Longrightarrow> n \<le> n' \<and> guard_at w g0 n' (op_guard op')"
proof (induction pss arbitrary: n op)
  case (Cons paths pss)
  let ?op1 = "snd (playback_checkpoint (world_clock w n) (world_fetch w n) paths op)"
  have "guard_at w g0 n (op_guard ?op1)"
    using checked_guard_at[OF _ Cons.prems(2)] by (auto simp: playback_checkpoint_def Let_def split: prod.splits)
  then show ?case using Cons.IH[of "n + 1" ?op1] Cons.prems(1) guard_at_later[of w g0 n "op_guard ?op1" "n + 1"] by simp
qed simp

text \<open>A target that holds all the candidate's paths and servers was checked at a step from \<open>lo\<close> on and before \<open>hi\<close>, and found idle.\<close>

definition checked :: "run_world \<Rightarrow> playback_guard \<Rightarrow> nat \<Rightarrow> nat \<Rightarrow> playback_target \<Rightarrow> playback_target \<Rightarrow> bool" where
  "checked w g0 lo hi own t \<longleftrightarrow>
     covers_target t own \<and> (\<exists>n. lo \<le> n \<and> n < hi \<and> shown_idle (heard w g0 n) (world_clock w n) g0 t)"

lemma admit_guard_at: "admit rt w i moving free n g c = (a, g') \<Longrightarrow> guard_at w g0 n g \<Longrightarrow> guard_at w g0 n g'"
  by (auto simp: admit_def split: if_splits sum.splits prod.splits option.splits dest: checked_guard_at)

lemma admit_checked:
  assumes "admit rt w i moving free n g c = (Admitted t, g')" "guard_at w g0 n g"
  shows "\<not> some_text (candidate_misordered rt i c) \<and> (\<not> free \<longrightarrow> checked w g0 n (n + 1) (run_target i c) t)"
proof (cases free)
  case True
  with assms(1) show ?thesis by (auto simp: admit_def split: if_splits)
next
  case False
  with assms(1) obtain t' where e: "\<not> some_text (candidate_misordered rt i c)" "check_target (world_clock w n) (world_fetch w n) g t = (None, g')"
    "expand_local_target (world_disk w n) (world_store w n) (world_lists w n) g t' (run_target i c) = Inr t"
    by (auto simp: admit_def split: if_splits sum.splits prod.splits option.splits)
  have f: "guard_enabled g" "guard_configs g = guard_configs g0" "guard_mappings g = guard_mappings g0"
    "defer_when_unavailable g = defer_when_unavailable g0" "answers_from (heard w g0 n) g"
    using assms(2) by (auto simp: guard_at_def guard_frame_def)
  have "shown_idle (heard w g0 n) (world_clock w n) g t"
    by (rule passed_check_shows_idle[OF e(2) f(1,5)]) (simp add: heard_now)
  then show ?thesis using e(1) expanded_target[OF e(3)] shown_idle_cong[OF f(2-4)] unfolding checked_def by auto
qed

definition admission_ok ::
  "runtime \<Rightarrow> run_world \<Rightarrow> run_inputs \<Rightarrow> bool \<Rightarrow> playback_guard \<Rightarrow> nat \<Rightarrow> nat \<Rightarrow> candidate list \<Rightarrow> int \<Rightarrow> playback_target \<Rightarrow> bool" where
  "admission_ok rt w i free g0 lo hi cs k t \<longleftrightarrow>
     (\<exists>c \<in> set cs. candidate_id c = k \<and> \<not> some_text (candidate_misordered rt i c) \<and> (\<not> free \<longrightarrow> checked w g0 lo hi (run_target i c) t))"

lemma checked_wider: "checked w g0 lo hi own t \<Longrightarrow> lo' \<le> lo \<Longrightarrow> hi \<le> hi' \<Longrightarrow> checked w g0 lo' hi' own t"
  unfolding checked_def by (meson le_trans less_le_trans)

lemma admit_group_ids: "admit_group rt w i moving free n g cs = (as, n', g') \<Longrightarrow> map fst as = map candidate_id cs"
  by (induction cs arbitrary: n g as) (auto split: prod.splits)

lemma admit_group_guard_at:
  "admit_group rt w i moving free n g cs = (as, n', g') \<Longrightarrow> guard_at w g0 n g \<Longrightarrow> n \<le> n' \<and> guard_at w g0 n' g'"
proof (induction cs arbitrary: n g as)
  case (Cons c cs)
  then obtain a g1 rest where "admit rt w i moving free n g c = (a, g1)" "admit_group rt w i moving free (n + 1) g1 cs = (rest, n', g')"
    by (auto split: prod.splits)
  with Cons.IH[of "n + 1" g1 rest] Cons.prems(2) admit_guard_at[of rt w i moving free n g c a g1 g0] guard_at_later[of w g0 n g1 "n + 1"]
  show ?case by auto
qed simp

lemma admit_group_checked:
  "admit_group rt w i moving free n g cs = (as, n', g') \<Longrightarrow> guard_at w g0 n g \<Longrightarrow> (k, Admitted t) \<in> set as \<Longrightarrow>
   admission_ok rt w i free g0 n n' cs k t"
proof (induction cs arbitrary: n g as)
  case (Cons c cs)
  then obtain a g1 rest where a: "admit rt w i moving free n g c = (a, g1)"
    and r: "admit_group rt w i moving free (n + 1) g1 cs = (rest, n', g')" and as: "as = (candidate_id c, a) # rest"
    by (auto split: prod.splits)
  have g1: "guard_at w g0 (n + 1) g1" using guard_at_later[OF admit_guard_at[OF a Cons.prems(2)]] by simp
  note n' = conjunct1[OF admit_group_guard_at[OF r g1]]
  show ?case
  proof (cases "(k, Admitted t) \<in> set rest")
    case True
    from Cons.IH[OF r g1 this] checked_wider[of w g0 "n + 1" n' _ t n n'] show ?thesis unfolding admission_ok_def by auto
  next
    case False
    with Cons.prems(3) as have "a = Admitted t" "k = candidate_id c" by auto
    with admit_checked[of rt w i moving free n g c t g1 g0] a Cons.prems(2) n' checked_wider[of w g0 n "n + 1" _ t n n']
    show ?thesis unfolding admission_ok_def by auto
  qed
qed simp

lemma admitted_of_in: "(k, t) \<in> set (admitted_of as) \<longleftrightarrow> (k, Admitted t) \<in> set as"
  by (induction as) (auto simp: admitted_of_def split: admission.splits)

lemma group_target_paths: "set (target_paths (foldl extend_target t0 ts)) = set (target_paths t0) \<union> (\<Union>t \<in> set ts. set (target_paths t))"
  by (induction ts arbitrary: t0) (auto simp: extend_target_def)

section \<open>What is handed over\<close>

text \<open>A candidate handed over with an operation was checked, with all that the operation watches; without one it keeps its files.\<close>

definition handed_ok ::
  "runtime \<Rightarrow> run_world \<Rightarrow> run_inputs \<Rightarrow> bool \<Rightarrow> playback_guard \<Rightarrow> candidate list \<Rightarrow> nat set \<Rightarrow> nat \<Rightarrow>
   playback_operation option \<Rightarrow> int \<Rightarrow> bool" where
  "handed_ok rt w i moving g0 cs steps n1 op k \<longleftrightarrow>
     (\<exists>c \<in> set cs. candidate_id c = k \<and> \<not> some_text (candidate_misordered rt i c) \<and>
        (case op of
           None \<Rightarrow> file_free i moving c = Ok True
         | Some o' \<Rightarrow> \<exists>lo t. (\<forall>m \<in> steps. m < lo \<or> n1 \<le> m) \<and> checked w g0 lo n1 (run_target i c) t \<and>
             set (target_paths t) \<subseteq> set (target_paths (op_target o'))))"

definition handed_all_ok where
  "handed_all_ok rt w i moving g0 cs res \<longleftrightarrow>
     (\<forall>(n1, op, ids) \<in> set (run_handed res). \<forall>k \<in> set ids. handed_ok rt w i moving g0 cs (fst ` set (run_handed res)) n1 op k)"

lemma handed_ok_later:
  "handed_ok rt w i moving g0 cs steps n1 op k \<Longrightarrow> n1 \<le> n2 \<Longrightarrow> handed_ok rt w i moving g0 cs (insert n2 steps) n1 op k"
  unfolding handed_ok_def by (cases op) auto

text \<open>Between two groups: the guard is one of the run, and every group handed over so far was handed over before.\<close>

definition between_groups where
  "between_groups rt w i moving g0 cs st \<longleftrightarrow>
     guard_at w g0 (fst st) (fst (snd st)) \<and> (\<forall>m \<in> fst ` set (run_handed (snd (snd st))). m < fst st) \<and>
     handed_all_ok rt w i moving g0 cs (snd (snd st))"

lemma run_group_between:
  assumes "group_ok i moving kg" "set (snd kg) \<subseteq> set cs"
    and "between_groups rt w i moving g0 cs (n, g, res)" "run_group rt w i moving kg (n, g, res) = (n', g', res')"
  shows "between_groups rt w i moving g0 cs (n', g', res')"
proof -
  let ?free = "snd (snd (fst kg))"
  have g: "guard_at w g0 n g" and old: "\<forall>m \<in> fst ` set (run_handed res). m < n" and h: "handed_all_ok rt w i moving g0 cs res"
    using assms(3) by (auto simp: between_groups_def)
  obtain as n1 g1 where a: "admit_group rt w i moving ?free n g (snd kg) = (as, n1, g1)" by (rule prod_cases3)
  note g1 = admit_group_guard_at[OF a g]
  let ?op = "if ?free then None else Some \<lparr>op_guard = g1, op_target = group_target (admitted_of as), completed_steps = []\<rparr>"
  let ?ids = "map fst (admitted_of as)"
  have ok: "handed_ok rt w i moving g0 cs (insert n1 (fst ` set (run_handed res))) n1 ?op k" if k: "k \<in> set ?ids" for k
  proof -
    obtain t where t: "(k, t) \<in> set (admitted_of as)" using k by auto
    then obtain c where c: "c \<in> set (snd kg)" "candidate_id c = k" "\<not> some_text (candidate_misordered rt i c)"
      "\<not> ?free \<longrightarrow> checked w g0 n n1 (run_target i c) t"
      using admit_group_checked[OF a g] unfolding admitted_of_in admission_ok_def by blast
    have "set (target_paths t) \<subseteq> set (target_paths (group_target (admitted_of as)))"
      using t unfolding group_target_def group_target_paths by force
    with c old assms(1,2) show ?thesis unfolding handed_ok_def group_ok_def by (cases ?free) fastforce+
  qed
  show ?thesis
  proof (cases "?ids = []")
    case True
    then have "n' = n1" "g' = g1" "run_handed res' = run_handed res" using assms(4) a by (auto simp: run_group_def Let_def)
    with g1 old h show ?thesis unfolding between_groups_def handed_all_ok_def by force
  next
    case False
    obtain outcome pss where wk: "world_work w n1 ?op ?ids = (outcome, pss)" by force
    obtain n2 g2 where af: "after_work w n1 pss ?op g1 = (n2, g2)" by force
    have r: "n' = n2 + 1" "g' = g2" "run_handed res' = run_handed res @ [(n1, ?op, ?ids)]"
      using assms(4) a False wk af by (auto simp: run_group_def Let_def split: prod.splits group_outcome.splits)
    have n2: "n1 \<le> n2 \<and> guard_at w g0 n2 g2"
      using af g1 work_checkpoints_guard_at[of w n1 pss _ n2 _ g0] by (auto simp: after_work_def split: if_splits prod.splits)
    have "handed_all_ok rt w i moving g0 cs res'"
      using ok h handed_ok_later[of rt w i moving g0 cs "fst ` set (run_handed res)" _ _ _ n1] old g1
      unfolding handed_all_ok_def r(3) by fastforce
    with n2 guard_at_later[of w g0 n2 g2 "n2 + 1"] old g1 show ?thesis unfolding between_groups_def r(1,2) by (auto simp: r(3))
  qed
qed

lemma run_groups_handed:
  assumes "list_all (group_ok i moving) gs" "set (concat (map snd gs)) \<subseteq> set cs" "between_groups rt w i moving g0 cs st"
  shows "between_groups rt w i moving g0 cs (foldl (\<lambda>st kg. run_group rt w i moving kg st) st gs)"
  using assms
proof (induction gs arbitrary: st)
  case (Cons kg gs)
  obtain n g res where st: "st = (n, g, res)" by (rule prod_cases3)
  obtain n' g' res' where r: "run_group rt w i moving kg st = (n', g', res')" by (rule prod_cases3)
  have "between_groups rt w i moving g0 cs (n', g', res')"
    by (rule run_group_between[OF _ _ Cons.prems(3)[unfolded st] r[unfolded st]]) (use Cons.prems(1,2) in auto)
  with Cons.IH[of "(n', g', res')"] Cons.prems(1,2) r show ?case by simp
qed simp

definition run_start :: "run_inputs \<Rightarrow> int list \<Rightarrow> run_result" where
  "run_start i ids =
     \<lparr>run_succeeded = 0, run_failed = 0, run_deferrals = dupdate [] (map (\<lambda>k. (k, Resync_Pending)) (filter (List.member ids) (run_pending i))),
      run_marked = [], run_handed = []\<rparr>"

lemma run_shape:
  assumes "run_playback_guarded_candidates rt w i moving g cs ids = Ok res"
  obtains gs where "group_candidates i moving (considered_candidates i cs ids) [] = Ok gs"
    "res = snd (snd (foldl (\<lambda>st kg. run_group rt w i moving kg st) (0, g, run_start i ids) gs))"
proof (cases "ids = []")
  case True
  then have "res = run_start i ids" using assms by (simp add: run_playback_guarded_candidates_def run_start_def)
  moreover have "considered_candidates i cs ids = []" using True by (simp add: considered_candidates_def)
  ultimately show thesis by (intro that[of "[]"]) simp_all
next
  case False
  with assms show thesis by (auto simp: run_playback_guarded_candidates_def run_start_def[symmetric] rbind_Ok_iff intro: that)
qed

lemma run_handed_ok:
  assumes "run_playback_guarded_candidates rt w i moving g cs ids = Ok res" "guard_enabled g"
  shows "handed_all_ok rt w i moving g (considered_candidates i cs ids) res"
proof -
  obtain gs where gs: "group_candidates i moving (considered_candidates i cs ids) [] = Ok gs"
    "res = snd (snd (foldl (\<lambda>st kg. run_group rt w i moving kg st) (0, g, run_start i ids) gs))"
    by (rule run_shape[OF assms(1)])
  have "set (concat (map snd gs)) = set (considered_candidates i cs ids)"
    using arg_cong[OF mset_groups[OF gs(1)], of set_mset] by simp
  moreover have "list_all (group_ok i moving) gs" by (rule groups_ok[OF gs(1)]) simp
  moreover have "between_groups rt w i moving g (considered_candidates i cs ids) (0, g, run_start i ids)"
    using assms(2) by (auto simp: between_groups_def handed_all_ok_def run_start_def guard_at_def answers_from_def heard_def)
  ultimately show ?thesis
    using run_groups_handed[of i moving gs "considered_candidates i cs ids" rt w g "(0, g, run_start i ids)"]
    unfolding gs(2) between_groups_def by simp
qed

text \<open>C9: what is handed over is idle.  A candidate that a run hands to a deletion or move touching files was checked at
  a step of the run after the group before it was handed over.  At that step the run held a record of each server, less
  than thirty seconds old, in which no session plays a file recorded for the candidate; the record was given at a step
  of the run up to that one, or kept by the guard from before the run.  Where unavailable servers are to defer, the
  record of a server of the candidate is an answer and no failure.\<close>

theorem handed_over_candidates_are_idle:
  assumes "run_playback_guarded_candidates rt w i moving g cs ids = Ok res" "run_target i = candidate_playback_target own db"
    and "guard_enabled g" "(n1, Some op, handed) \<in> set (run_handed res)" "candidate_id c \<in> set handed" "c \<in> set cs"
    and "distinct (map candidate_id cs)"
  shows "\<exists>n < n1. (\<forall>(m, _) \<in> set (run_handed res). m < n \<or> n1 \<le> m) \<and>
    (\<forall>(cid, s) \<in> set (guard_configs g). \<exists>taken snap. world_clock w n cid - taken < max_snapshot_age \<and>
       ((cid, taken, snap) \<in> set (guard_snapshots g) \<or>
        (\<exists>m \<le> n. taken = world_clock w m cid \<and> snap = fetched_snapshot (world_fetch w m cid))) \<and>
       (\<forall>x \<in> set (snapshot_sessions snap). \<forall>q \<in> set (session_paths x). \<forall>p \<in> set (candidate_files db c).
          normalize_fpath True False p \<noteq> [] \<longrightarrow> normalize_fpath True False q \<noteq> normalize_fpath True False p) \<and>
       (defer_when_unavailable g \<longrightarrow> cid \<in> relevant_configs (candidate_playback_target own db c) \<longrightarrow> available snap))"
proof -
  have "handed_ok rt w i moving g (considered_candidates i cs ids) (fst ` set (run_handed res)) n1 (Some op) (candidate_id c)"
    using run_handed_ok[OF assms(1,3)] assms(4,5) unfolding handed_all_ok_def by blast
  then obtain c' lo t where c': "c' \<in> set cs" "candidate_id c' = candidate_id c"
    and lo: "\<forall>m \<in> fst ` set (run_handed res). m < lo \<or> n1 \<le> m" and t: "checked w g lo n1 (run_target i c') t"
    unfolding handed_ok_def considered_candidates_def by auto
  have "c' = c" using c' assms(6,7) by (metis distinct_map inj_onD)
  let ?own = "candidate_playback_target own db c"
  obtain n where n: "lo \<le> n" "n < n1" and idle: "shown_idle (heard w g n) (world_clock w n) g ?own"
    using t \<open>c' = c\<close> assms(2) shown_idle_mono[where Q = "heard w g n" for n] unfolding checked_def by metis
  have free: "normalize_fpath True False q \<noteq> normalize_fpath True False p"
    if none: "plays_none g (set (target_paths ?own)) cid s snap" and hit: "x \<in> set (snapshot_sessions snap)" "q \<in> set (session_paths x)"
      "p \<in> set (candidate_files db c)" "normalize_fpath True False p \<noteq> []" for cid s snap x q p
  proof
    assume same: "normalize_fpath True False q = normalize_fpath True False p"
    obtain sv k d where "(p, sv, k, d) \<in> set (target_paths ?own)"
      using candidate_files_targeted[OF hit(3), of own] unfolding has_path_def by blast
    with none hit own_variant[OF hit(4)] own_variant[of q] same show False
      unfolding plays_none_def path_hit_def by fastforce
  qed
  have "\<exists>taken snap. world_clock w n cid - taken < max_snapshot_age \<and> heard w g n cid taken snap \<and>
      plays_none g (set (target_paths ?own)) cid s snap \<and>
      (defer_when_unavailable g \<longrightarrow> cid \<in> relevant_configs ?own \<longrightarrow> available snap)"
    if "(cid, s) \<in> set (guard_configs g)" for cid s
    using idle that unfolding shown_idle_def by blast
  with free n lo show ?thesis unfolding heard_def by (intro exI[of _ n]) (fastforce)
qed

section \<open>Nothing is forgotten, and nothing is handed over twice\<close>

definition outcome_ids :: "run_result \<Rightarrow> int list" where
  "outcome_ids res = map fst (run_marked res) @ concat (map (snd \<circ> snd) (run_handed res))"

lemma admission_split:
  "mset (map fst (marked_of as)) + mset (map fst (held_of as)) + mset (map fst (admitted_of as)) = mset (map fst as)"
  by (induction as) (auto simp: marked_of_def held_of_def admitted_of_def split: admission.splits)

definition settled_with :: "run_result \<Rightarrow> int set" where
  "settled_with res = fst ` set (run_deferrals res) \<union> set (outcome_ids res)"

lemma run_group_outcomes:
  assumes "run_group rt w i moving kg (n, g, res) = (n', g', res')"
  shows "set (map candidate_id (snd kg)) \<union> settled_with res \<subseteq> settled_with res'"
    and "\<exists>new. subseteq_mset (mset new) (mset (map candidate_id (snd kg))) \<and> mset (outcome_ids res') = mset (outcome_ids res) + mset new"
proof -
  let ?free = "snd (snd (fst kg))"
  obtain as n1 g1 where a: "admit_group rt w i moving ?free n g (snd kg) = (as, n1, g1)" by (rule prod_cases3)
  note ids = admit_group_ids[OF a]
  have s: "set (map candidate_id (snd kg)) = fst ` set (marked_of as) \<union> fst ` set (held_of as) \<union> fst ` set (admitted_of as)"
    unfolding ids[symmetric] set_mset_mset[symmetric] admission_split[of as, symmetric] by simp
  have out: "run_marked res' = run_marked res @ marked_of as"
      "concat (map (snd \<circ> snd) (run_handed res')) = concat (map (snd \<circ> snd) (run_handed res)) @ map fst (admitted_of as)"
    using assms a by (auto simp: run_group_def Let_def split: prod.splits group_outcome.splits if_splits)
  have "\<exists>extra. run_deferrals res' = dupdate (dupdate (run_deferrals res) (held_of as)) extra"
    using assms a
    by (auto simp: run_group_def Let_def split: prod.splits group_outcome.splits if_splits intro: exI[of _ "[]"])
  then obtain extra where d: "run_deferrals res' = dupdate (dupdate (run_deferrals res) (held_of as)) extra" ..
  have o: "set (outcome_ids res') = set (outcome_ids res) \<union> fst ` set (marked_of as) \<union> fst ` set (admitted_of as)"
    unfolding outcome_ids_def out set_append set_map image_Un by (simp only: Un_ac)
  show "set (map candidate_id (snd kg)) \<union> settled_with res \<subseteq> settled_with res'"
    unfolding settled_with_def o s d keys_dupdate by (simp only: Un_subset_iff) (simp add: subset_iff)
  show "\<exists>new. subseteq_mset (mset new) (mset (map candidate_id (snd kg))) \<and> mset (outcome_ids res') = mset (outcome_ids res) + mset new"
  proof (intro exI[of _ "map fst (marked_of as) @ map fst (admitted_of as)"] conjI)
    have "mset (map candidate_id (snd kg)) = mset (map fst (marked_of as) @ map fst (admitted_of as)) + mset (map fst (held_of as))"
      unfolding ids[symmetric] admission_split[of as, symmetric] by (simp add: ac_simps)
    then show "subseteq_mset (mset (map fst (marked_of as) @ map fst (admitted_of as))) (mset (map candidate_id (snd kg)))" by simp
    show "mset (outcome_ids res') = mset (outcome_ids res) + mset (map fst (marked_of as) @ map fst (admitted_of as))"
      unfolding outcome_ids_def out by (simp add: ac_simps)
  qed
qed

lemma run_groups_outcomes:
  shows "set (map candidate_id (concat (map snd gs))) \<union> settled_with res \<subseteq>
      settled_with (snd (snd (foldl (\<lambda>st kg. run_group rt w i moving kg st) (n, g, res) gs)))" (is ?settled)
    and "\<exists>new. subseteq_mset (mset new) (mset (map candidate_id (concat (map snd gs)))) \<and>
      mset (outcome_ids (snd (snd (foldl (\<lambda>st kg. run_group rt w i moving kg st) (n, g, res) gs)))) = mset (outcome_ids res) + mset new"
      (is ?outcomes)
proof -
  have "?settled \<and> ?outcomes"
  proof (induction gs arbitrary: n g res)
    case (Cons kg gs)
    obtain n' g' res' where r: "run_group rt w i moving kg (n, g, res) = (n', g', res')" by (rule prod_cases3)
    obtain new where new: "subseteq_mset (mset new) (mset (map candidate_id (snd kg)))"
      "mset (outcome_ids res') = mset (outcome_ids res) + mset new"
      using run_group_outcomes(2)[OF r] by blast
    let ?final = "snd (snd (foldl (\<lambda>st kg. run_group rt w i moving kg st) (n', g', res') gs))"
    obtain new' where new': "subseteq_mset (mset new') (mset (map candidate_id (concat (map snd gs))))"
      "mset (outcome_ids ?final) = mset (outcome_ids res') + mset new'"
      using Cons.IH[where n = n' and g = g' and res = res'] by blast
    have "subseteq_mset (mset (new @ new')) (mset (map candidate_id (concat (map snd (kg # gs)))))"
      using subset_mset.add_mono[OF new(1) new'(1)] by simp
    moreover have "mset (outcome_ids ?final) = mset (outcome_ids res) + mset (new @ new')" using new(2) new'(2) by simp
    moreover have "set (map candidate_id (concat (map snd (kg # gs)))) \<union> settled_with res \<subseteq> settled_with ?final"
      using run_group_outcomes(1)[OF r] Cons.IH[where n = n' and g = g' and res = res'] by auto
    moreover have "foldl (\<lambda>st kg. run_group rt w i moving kg st) (n, g, res) (kg # gs) =
        foldl (\<lambda>st kg. run_group rt w i moving kg st) (n', g', res') gs" using r by simp
    ultimately show ?case by metis
  qed simp
  then show ?settled ?outcomes by blast+
qed

lemma distinct_within:
  assumes "subseteq_mset (mset xs) (mset ys)" "distinct ys"
  shows "distinct xs"
proof -
  obtain M where "mset ys = mset xs + M" using assms(1) by (auto simp: mset_subset_eq_exists_conv)
  moreover obtain zs where "mset zs = M" using ex_mset by blast
  ultimately have "mset ys = mset (xs @ zs)" by simp
  with assms(2) show ?thesis using mset_eq_imp_distinct_iff by fastforce
qed

text \<open>C10: nothing is forgotten, and nothing is handed over twice.\<close>

theorem every_candidate_is_settled_once:
  assumes "run_playback_guarded_candidates rt w i moving g cs ids = Ok res" "distinct (map candidate_id cs)"
  shows "(\<forall>c \<in> set cs. candidate_id c \<in> set ids \<longrightarrow>
        candidate_id c \<in> fst ` set (run_deferrals res) \<or> candidate_id c \<in> fst ` set (run_marked res) \<or>
        (\<exists>(n, op, handed) \<in> set (run_handed res). candidate_id c \<in> set handed)) \<and>
      distinct (map fst (run_marked res) @ concat (map (snd \<circ> snd) (run_handed res))) \<and>
      (\<forall>k \<in> set (map fst (run_marked res) @ concat (map (snd \<circ> snd) (run_handed res))).
        k \<in> set ids \<and> k \<in> candidate_id ` set cs \<and> k \<notin> set (run_pending i))"
proof -
  obtain gs where gs: "group_candidates i moving (considered_candidates i cs ids) [] = Ok gs"
    "res = snd (snd (foldl (\<lambda>st kg. run_group rt w i moving kg st) (0, g, run_start i ids) gs))"
    by (rule run_shape[OF assms(1)])
  let ?cs = "considered_candidates i cs ids"
  have m: "mset (concat (map snd gs)) = mset ?cs" using mset_groups[OF gs(1)] by simp
  have start: "outcome_ids (run_start i ids) = []" by (simp add: run_start_def outcome_ids_def)
  obtain new where new: "subseteq_mset (mset new) (mset (map candidate_id (concat (map snd gs))))" "mset (outcome_ids res) = mset new"
    using run_groups_outcomes(2)[of gs rt w i moving 0 g "run_start i ids"] unfolding gs(2)[symmetric] start by auto
  have sub: "subseteq_mset (mset (outcome_ids res)) (mset (map candidate_id ?cs))"
    using new arg_cong[OF m, of "image_mset candidate_id"] by simp
  have "distinct (map candidate_id ?cs)" unfolding considered_candidates_def by (rule distinct_map_filter[OF assms(2)])
  then have dis: "distinct (outcome_ids res)" by (rule distinct_within[OF sub])
  have "set (outcome_ids res) \<subseteq> candidate_id ` set ?cs" using mset_subset_eqD[OF sub] by fastforce
  then have known: "\<forall>k \<in> set (outcome_ids res). k \<in> set ids \<and> k \<in> candidate_id ` set cs \<and> k \<notin> set (run_pending i)"
    by (auto simp: considered_candidates_def)
  have all: "candidate_id c \<in> fst ` set (run_deferrals res) \<or> candidate_id c \<in> fst ` set (run_marked res) \<or>
      (\<exists>(n, op, handed) \<in> set (run_handed res). candidate_id c \<in> set handed)" if "candidate_id c \<in> settled_with res" for c
    using that by (auto simp: settled_with_def outcome_ids_def)
  have "candidate_id c \<in> settled_with res" if c: "c \<in> set cs" "candidate_id c \<in> set ids" for c
  proof (cases "c \<in> set ?cs")
    case True
    then have "c \<in> set (concat (map snd gs))" using arg_cong[OF m, of set_mset] by (metis set_mset_mset)
    then show ?thesis using run_groups_outcomes(1)[of gs "run_start i ids" rt w i moving 0 g] unfolding gs(2) by auto
  next
    case False
    with c have "candidate_id c \<in> settled_with (run_start i ids)"
      by (auto simp: considered_candidates_def settled_with_def run_start_def keys_dupdate image_image)
    then show ?thesis using run_groups_outcomes(1)[of gs "run_start i ids" rt w i moving 0 g] unfolding gs(2) by auto
  qed
  with dis known all show ?thesis unfolding outcome_ids_def by blast
qed

section \<open>The routes of a deletion\<close>

text \<open>The handlers of the routes, with the numbers they return, and whether a server can delete media of a type.\<close>

record delete_handlers =
  change_profiles :: "int list \<Rightarrow> nat \<times> nat"
  move_specific :: "int list \<Rightarrow> nat \<times> nat"
  delete_movies :: "int list \<Rightarrow> nat"
  delete_shows :: "int list \<Rightarrow> nat"
  delete_seasons :: "int list \<Rightarrow> nat"
  delete_episodes :: "int list \<Rightarrow> nat"
  has_delete_route :: "media_type \<Rightarrow> bool"

definition wants_profile :: "rule_table \<Rightarrow> candidate \<Rightarrow> bool" where
  "wants_profile rs c \<longleftrightarrow> quality_profile_target rs (matched_rule_ids c) \<noteq> None"

definition profile_routed :: "rule_table \<Rightarrow> candidate list \<Rightarrow> candidate list" where
  "profile_routed rs cs = filter (wants_profile rs) cs"

definition move_routed :: "rule_table \<Rightarrow> candidate list \<Rightarrow> candidate list" where
  "move_routed rs cs = filter (\<lambda>c. \<not> wants_profile rs c \<and> should_move_instead_of_delete rs (matched_rule_ids c)) cs"

definition delete_routed :: "rule_table \<Rightarrow> candidate list \<Rightarrow> candidate list" where
  "delete_routed rs cs = filter (\<lambda>c. \<not> wants_profile rs c \<and> \<not> should_move_instead_of_delete rs (matched_rule_ids c)) cs"

text \<open>The numbers of processed and failed candidates.\<close>

definition delete_specific_candidates_impl :: "delete_handlers \<Rightarrow> rule_table \<Rightarrow> candidate list \<Rightarrow> int list \<Rightarrow> nat \<times> nat" where
  "delete_specific_candidates_impl h rs cs ids =
     (let rows = filter (\<lambda>c. List.member ids (candidate_id c)) cs;
          profile = map candidate_id (profile_routed rs rows);
          moves = map candidate_id (move_routed rs rows);
          deletes = map candidate_id (delete_routed rs rows);
          types = map candidate_type (delete_routed rs rows);
          (changed, change_failed) = (if profile \<noteq> [] then change_profiles h profile else (0, 0));
          (moved, move_failed) = (if moves \<noteq> [] then move_specific h moves else (0, 0));
          of_movies = (if List.member types MOVIE \<and> has_delete_route h MOVIE then delete_movies h deletes else 0);
          of_shows = (if List.member types SERIES \<and> has_delete_route h SERIES
                      then delete_shows h deletes + delete_seasons h deletes + delete_episodes h deletes else 0);
          deleted = of_movies + of_shows
      in (moved + deleted + changed, move_failed + (length deletes - deleted) + change_failed))"

datatype prune_outcome = Pruned | Prune_Deferred deferral | Prune_Failed

text \<open>The media leave their collections on the servers before anything else; when that fails, nothing is deleted.\<close>

definition delete_candidates_prepared ::
  "(int list \<Rightarrow> prune_outcome) \<Rightarrow> (int list \<Rightarrow> nat \<times> nat) \<Rightarrow> int list \<Rightarrow> deferral + nat \<times> nat" where
  "delete_candidates_prepared prune delete ids =
     (if uniq ids = [] then Inr (0, 0)
      else case prune (uniq ids) of
             Prune_Deferred d \<Rightarrow> Inl d
           | Prune_Failed \<Rightarrow> Inr (0, length (uniq ids))
           | Pruned \<Rightarrow> Inr (delete (uniq ids)))"

lemma routes_partition:
  "mset cs = mset (profile_routed rs cs) + mset (move_routed rs cs) + mset (delete_routed rs cs)"
  by (induction cs) (auto simp: profile_routed_def move_routed_def delete_routed_def)

lemma routes_length: "length cs = length (profile_routed rs cs) + length (move_routed rs cs) + length (delete_routed rs cs)"
  using arg_cong[OF routes_partition[of cs rs], of size] by simp

text \<open>When every handler accounts for what it is given, the deletion accounts for what it is given.\<close>

lemma delete_accounts:
  assumes "delete_specific_candidates_impl h rs cs ids = (processed, failed)"
    and "\<And>xs. fst (change_profiles h xs) + snd (change_profiles h xs) = length xs"
    and "\<And>xs. fst (move_specific h xs) + snd (move_specific h xs) = length xs"
    and "\<And>xs. delete_movies h xs + delete_shows h xs + delete_seasons h xs + delete_episodes h xs \<le> length xs"
  shows "processed + failed = length (filter (\<lambda>c. List.member ids (candidate_id c)) cs)"
proof -
  let ?rows = "filter (\<lambda>c. List.member ids (candidate_id c)) cs"
  note routes_length[of ?rows rs]
  moreover note assms(2)[of "map candidate_id (profile_routed rs ?rows)"] assms(3)[of "map candidate_id (move_routed rs ?rows)"]
    assms(4)[of "map candidate_id (delete_routed rs ?rows)"]
  ultimately show ?thesis
    using assms(1) by (auto simp: delete_specific_candidates_impl_def Let_def split: prod.splits if_splits)
qed

section \<open>A season that nobody watches\<close>

text \<open>Twenty seconds pass with each step, and the work on a group passes one checkpoint.\<close>

definition demo_world :: "string \<Rightarrow> run_world" where
  "demo_world played = \<lparr>world_clock = (\<lambda>n _. int n * 20000000), world_fetch = (\<lambda>_. demo_fetch played),
     world_disk = (\<lambda>_. \<lparr>sha256 = (\<lambda>c. c), renames = (\<lambda>_ _. True), copied = (\<lambda>_ c. Copied c), makes_dir = (\<lambda>_. True),
       removes = (\<lambda>_. True), resolved = (\<lambda>_. [])\<rparr>),
     world_store = (\<lambda>_. [([], Directory)]), world_lists = (\<lambda>_ _. True),
     world_work = (\<lambda>_ _ ids. (Group_Done (length ids) 0, [[]]))\<rparr>"

definition demo_run_inputs :: run_inputs where
  "demo_run_inputs = \<lparr>run_rules = [], run_fallback = Unmonitor, run_target = candidate_playback_target demo_ownership demo_media,
     run_pending = [], run_order = (\<lambda>_ _. None)\<rparr>"

text \<open>The guard still holds an answer a minute old, when the season was watched.\<close>

definition demo_run_guard :: playback_guard where
  "demo_run_guard = demo_guard\<lparr>guard_snapshots := [(1, -60000000, fetched_snapshot (demo_fetch ''/tv/a/e.mkv'' 1))]\<rparr>"

lemma demo_run_result:
  obtains res op where
    "run_playback_guarded_candidates demo_runtime (demo_world ''/m/b.mkv'') demo_run_inputs False demo_run_guard [demo_candidate] [1] = Ok res"
    "run_handed res = [(1, Some op, [1])]"
proof -
  let ?r = "run_playback_guarded_candidates demo_runtime (demo_world ''/m/b.mkv'') demo_run_inputs False demo_run_guard [demo_candidate] [1]"
  have "is_ok ?r" by code_simp
  then obtain res where r: "?r = Ok res" unfolding is_ok_iff by (elim exE)
  have "(case ?r of Ok res \<Rightarrow> map (\<lambda>(n, op, ids). (n, op \<noteq> None, ids)) (run_handed res) = [(1, True, [1])] | Raise _ \<Rightarrow> False)" by code_simp
  with r that show thesis by (auto simp: map_eq_Cons_conv)
qed

theorem handed_over_candidates_are_idle_witness:
  "\<exists>snap. snap = fetched_snapshot (world_fetch (demo_world ''/m/b.mkv'') 0 1) \<and>
    (\<forall>x \<in> set (snapshot_sessions snap). \<forall>q \<in> set (session_paths x). \<forall>p \<in> set (candidate_files demo_media demo_candidate).
        normalize_fpath True False p \<noteq> [] \<longrightarrow> normalize_fpath True False q \<noteq> normalize_fpath True False p)"
proof -
  obtain res op where
    r: "run_playback_guarded_candidates demo_runtime (demo_world ''/m/b.mkv'') demo_run_inputs False demo_run_guard [demo_candidate] [1] = Ok res"
    "run_handed res = [(1, Some op, [1])]" by (rule demo_run_result)
  from r(2) have h: "(1, Some op, [1]) \<in> set (run_handed res)" by simp
  have "run_target demo_run_inputs = candidate_playback_target demo_ownership demo_media" "guard_enabled demo_run_guard"
    "candidate_id demo_candidate \<in> set [1]" "demo_candidate \<in> set [demo_candidate]" "distinct (map candidate_id [demo_candidate])"
    by (simp_all add: demo_run_inputs_def demo_run_guard_def demo_guard_def demo_candidate_def)
  from handed_over_candidates_are_idle[OF r(1) this(1,2) h this(3-5)] show ?thesis
    by (auto simp: demo_run_guard_def demo_guard_def demo_world_def max_snapshot_age_def)
qed

theorem every_candidate_is_settled_once_witness:
  "\<exists>res. run_playback_guarded_candidates demo_runtime (demo_world ''/tv/a/e.mkv'') demo_run_inputs False demo_guard [demo_candidate] [1] = Ok res \<and>
     distinct (map fst (run_marked res) @ concat (map (snd \<circ> snd) (run_handed res)))"
proof -
  have "is_ok (run_playback_guarded_candidates demo_runtime (demo_world ''/tv/a/e.mkv'') demo_run_inputs False demo_guard [demo_candidate] [1])"
    by code_simp
  then obtain res where
    r: "run_playback_guarded_candidates demo_runtime (demo_world ''/tv/a/e.mkv'') demo_run_inputs False demo_guard [demo_candidate] [1] = Ok res"
    unfolding is_ok_iff by (elim exE)
  with every_candidate_is_settled_once[OF r] show ?thesis by simp
qed

end
