(* ===== verification/Spec2Isabelle.thy ===== *)
theory Spec2Isabelle
  imports Rule_Explain Auto_Delete_Run Webhook_Delivery Duplicates File_Safety Playback_Target Removal_Guard Revalidation Guarded_Run
begin

text \<open>
  Reclaimerr decides which titles of a media library may be deleted, announces the decision,
  protects what its users ask for, and deletes in background jobs.  This development models the
  parts of its Python backend that take those decisions, one theory per part, and proves the
  properties that make them safe.

  \<^bold>\<open>Theories and sources\<close> (under \<open>src/backend\<close>)
    \<^item> \<open>Prelude\<close>: results with errors, results of loops over lists, text helpers, the theorem collections.
    \<^item> \<open>Py_Values\<close>: the dynamic values of a rule definition (\<open>pyval\<close>), dictionaries as association
      lists, truth, equality, ordering and \<open>str\<close> of values.  What of Python or its
      libraries cannot be computed here (folding of case, number and date parsing, the rendering of values) is the record \<open>runtime\<close>.
    \<^item> \<open>Paths\<close>: \<open>core/utils/filesystem.py\<close>, normalisation of paths and path mappings.
    \<^item> \<open>Seerr_Identity\<close>: \<open>core/seerr_identity.py\<close>.  \<open>Rule_Actions\<close>: \<open>core/rule_actions.py\<close>.
    \<^item> \<open>Rule_Fields\<close>: the field and operator tables of \<open>core/rule_engine.py\<close> and \<open>core/playback_history_fields.py\<close>.
      \<open>Rule_Operators\<close>, \<open>Rule_Format\<close>, \<open>Rule_Eval\<close>: comparison, wording of reasons, the Boolean and
      the three-valued evaluation of a rule.  \<open>Rule_Verdict\<close>: their totality, agreement and monotonicity.
    \<^item> \<open>Auto_Delete\<close>: \<open>core/auto_delete.py\<close>, delays and states of a candidate.
    \<^item> \<open>Protection_Scope\<close>: \<open>core/protection_scope.py\<close>.  \<open>Candidate_Lifecycle\<close>:
      \<open>services/candidate_lifecycle.py\<close> over the tables it reads and writes.
      \<open>Auto_Delete_Run\<close>: the choice of candidates and the spike brake of \<open>tasks/cleanup.py\<close>.
    \<^item> \<open>Job_Queue\<close>: \<open>jobs/queue.py\<close> and \<open>jobs/policy.py\<close>.
    \<^item> \<open>Webhook_Delivery\<close>: \<open>services/lifecycle_webhooks.py\<close>, the answers of \<open>services/webhook_transport.py\<close> and the
      admin's endpoint and delivery operations of \<open>api/routes/settings/integrations.py\<close>.
    \<^item> \<open>Media\<close>, \<open>Duplicates\<close>: \<open>services/duplicates.py\<close>, from the tables to the plan of a deletion.
    \<^item> \<open>Rule_Validate\<close>, \<open>Rule_Explain\<close>: \<open>core/rule_engine.py\<close>, what a rule must satisfy to be stored
      and the explanation of its verdict for one title.
    \<^item> \<open>File_Store\<close>, \<open>File_Moves\<close>, \<open>File_Safety\<close>: the rest of \<open>core/utils/filesystem.py\<close>.  The disk is a store
      of entries addressed by paths; which calls the system refuses or leaves half done is the record
      \<open>disk\<close>.  Recursion over directories takes the interpreter's recursion limit as its fuel; a merge
      needs no more of it than the preflight before it.
    \<^item> \<open>Live_Sessions\<close>, \<open>Playback_Guard\<close>, \<open>Removal_Guard\<close>, \<open>Playback_Target\<close>: what the servers play
      (\<open>services/live_sessions.py\<close>), the guard that keeps it from being removed (\<open>services/playback_guard.py\<close>)
      and what of a candidate can be playing (\<open>candidate_playback_target\<close>, \<open>services/media_identity.py\<close>).
    \<^item> \<open>Arr_Routing\<close>: what the matched rules ask of Radarr and Sonarr (\<open>_get_arr_action\<close> and its
      neighbours in \<open>tasks/cleanup.py\<close>).
    \<^item> \<open>Rule_Use\<close>, \<open>Candidate_Scan\<close>, \<open>Managed_Protections\<close>, \<open>Candidate_Sync\<close>, \<open>Cleanup_Scan\<close>: the cleanup
      scan of \<open>tasks/cleanup.py\<close>: what of its data a rule reads, which media it is tried on, the records of
      its matches, the protections and candidates that follow from them, and the whole scan
      (\<open>_scan_with_db_impl\<close>); \<open>Cleanup_Results\<close> says what a scan leaves behind.
    \<^item> \<open>Revalidation\<close>: the automatic deletion run and the second trial of what depends on watching
      (\<open>_delete_cleanup_candidates_unlocked\<close>).  \<open>Guarded_Run\<close>: the run over groups of candidates under the
      playback guard (\<open>_run_playback_guarded_candidates_impl\<close>) and the routes of a deletion.

  \<^bold>\<open>State and operations\<close>  A database row is a record with the columns the operation uses, a
  table is a list of rows in the order of the row numbers, a query is a function of
  the lists, and a transaction returns the changed tables.  Instants are integers
  (microseconds) as in \<open>Auto_Delete\<close>; a naive and an aware datetime differ in the
  presence of an offset, and comparing them is the error that Python raises.  An exception is the
  left side of a result; a loop that stops at the first exception is \<open>rmap\<close>.  Python's integers
  are unbounded and so are \<open>int\<close>s here; fuel is used only for the recursion over directories.

  \<^bold>\<open>Lemmas\<close>  Each theory first shows what its operations return, then the invariant or the
  contract.  An interface is a locale, interpreted on the model: \<open>information_order\<close>
  (\<open>Rule_Verdict\<close>: filling in missing values keeps what was definite), \<open>coverage\<close>
  (\<open>Protection_Scope\<close>: when one row's scope contains another's), \<open>resource_policy\<close> (\<open>Job_Queue\<close>: the
  queue's exclusion rests only on resources that do not change while a job runs), \<open>store_steps\<close>
  (\<open>File_Safety\<close>: what sequencing, loops and handlers of file operations keep), \<open>candidate_scope_sync\<close>
  (\<open>Candidate_Sync\<close>: what the four synchronisations of candidates share).

  \<^bold>\<open>Hypotheses\<close>  Theorems over values assume \<open>plain\<close> field values (no nested containers where the code
  would raise \<open>TypeError\<close>); what a context records under its internal keys, such as the provenance in
  \<open>_history_sources\<close>, is free.  Theorems over protection rows assume the scope that
  the schema's writers keep (an episode row names its season).  Code outside the repository is a
  parameter: the \<open>runtime\<close>, file existence, the outcome of file operations, and the tables' foreign
  data.  Theorems on moves assume that a copy reported as complete is one, that two contents of one
  size and digest are equal, and that source and destination lie apart.

  \<^bold>\<open>Simplifications\<close>  A candidate's number is never given again (\<open>new_candidate\<close>); SQLite gives the highest number
  again once its row is gone, which within one scan happens when a scope removes the newest candidates, adds none and
  a later scope adds some.  Removing a directory that fails halfway (\<open>rmtree\<close>) leaves no more than
  \<open>shutil.rmtree\<close> leaves.  In \<open>Guarded_Run\<close> the work on a group is free but for asking the servers only at its
  checkpoints, and two attempts of one webhook delivery do not overlap, as the queue's resources ensure.

  \<^bold>\<open>Not modelled\<close>  The clients of external services, the web API's handlers, the
  synchronisation tasks, notifications, backups and diagnostics: they move data
  between the network and the database, and what they return is input here.
\<close>

section \<open>From an approved protection to the deletion run\<close>

text \<open>The request that protects exactly what a candidate speaks for.\<close>

definition protects_candidate :: "protected_media \<Rightarrow> candidate \<Rightarrow> bool" where
  "protects_candidate request c \<longleftrightarrow>
     protected_type request = candidate_type c \<and> movie_version_id request = movie_version_id c \<and>
     season_id request = season_id c \<and> episode_id request = episode_id c \<and>
     (if candidate_type c = MOVIE
      then protected_movie request = candidate_movie c \<and> candidate_movie c \<noteq> None
      else protected_series request = candidate_series c \<and> candidate_series c \<noteq> None)"

lemma row_covers_blocks:
  "row_covers row request \<Longrightarrow> protects_candidate request c \<Longrightarrow> blocks c (protected_movie row) (protected_series row) row"
  by (auto simp: row_covers_def protects_candidate_def blocks_def blocks_movie_def blocks_series_def
      movie_scope_overlap_def series_scope_overlap_def split: if_splits)

lemma row_covers_blocked:
  assumes "row \<in> set (protected_rows db)" "active_protection now row"
    and "row_covers row request" "protects_candidate request c"
  shows "candidate_blocked now db lib c"
proof (cases "candidate_type c = MOVIE")
  case True
  then obtain m where m: "candidate_movie c = Some m" "protected_movie row = Some m" "protected_type row = MOVIE"
    using assms(3,4) by (auto simp: protects_candidate_def row_covers_def)
  then have "m \<in> set (blocked_movie_ids now db lib)"
    using assms(1,2) by (force simp: blocked_movie_ids_def blocking_scopes_def)
  then show ?thesis using True m(1) by (simp add: candidate_blocked_def among_def)
next
  case False
  then obtain s where s: "candidate_series c = Some s" "protected_series row = Some s" "protected_type row = SERIES"
    using assms(3,4) by (cases "protected_type row") (auto simp: protects_candidate_def row_covers_def)
  then have "s \<in> set (blocked_series_ids now db lib)"
    using assms(1,2) by (force simp: blocked_series_ids_def blocking_scopes_def)
  then show ?thesis using False s(1) by (simp add: candidate_blocked_def among_def)
qed

text \<open>C1: approving a protection stops the deletion.  Once a protection that is still in force has been
  approved for what a candidate speaks for, the candidate's deletion is reported as blocked and
  no automatic run chooses it, at any time before the protection ends.\<close>

theorem approved_protection_stops_deletion:
  assumes "upsert_protection now request (protected_rows db) = ((row, created), rows')"
    and "permanent request \<or> (\<exists>e. expires_at request = Some e \<and> t < e)"
    and "protects_candidate request c"
    and "c \<in> set (candidates db)" "distinct (map candidate_id (candidates db))"
    and "select_auto_delete_eligible_candidate_ids t (db\<lparr>protected_rows := rows'\<rparr>) lib = Ok (ids, b, w)"
  shows "''protected'' \<in> set (candidate_deletion_blockers t (db\<lparr>protected_rows := rows'\<rparr>) c) \<and>
         candidate_id c \<notin> set ids"
proof -
  let ?db = "db\<lparr>protected_rows := rows'\<rparr>"
  have p: "row \<in> set (protected_rows ?db)" "row_covers row request" "active_protection t row"
    using upsert_facts[OF assms(1,2)] by simp_all
  have "protection_blocks t c row"
    using row_covers_blocks[OF p(2) assms(3)] p(3) by (simp add: protection_blocks_def)
  then have "''protected'' \<in> set (candidate_deletion_blockers t ?db c)"
    using p(1) by (auto simp: candidate_deletion_blockers_def list_ex_iff)
  moreover have "candidate_id c \<notin> set ids"
  proof
    assume "candidate_id c \<in> set ids"
    then obtain c' where "c' \<in> set (candidates db)" "candidate_id c' = candidate_id c" "\<not> candidate_blocked t ?db lib c'"
      using select_spec[OF assms(6)] by (auto simp: considered_def may_delete_def)
    moreover from this assms(4,5) have "c' = c" by (metis distinct_map inj_onD)
    ultimately show False using row_covers_blocked[OF p(1,3,2) assms(3)] by simp
  qed
  ultimately show ?thesis by blast
qed

definition demo_request :: protected_media where
  "demo_request = demo_row (Some 2) True None"

lemma demo_upsert_empty:
  "upsert_protection 0 demo_request (protected_rows demo_unprotected) = ((demo_request, True), [demo_request])"
  by (simp add: upsert_protection_def demo_request_def demo_row_def demo_unprotected_def Let_def)

lemma demo_run: "select_auto_delete_eligible_candidate_ids (730007 * day_us)
    (demo_unprotected\<lparr>protected_rows := [demo_request]\<rparr>) demo_library = Ok ([], 1, 0)"
  by code_simp

lemma approved_protection_stops_deletion_witness:
  "''protected'' \<in> set (candidate_deletion_blockers (730007 * day_us) (demo_unprotected\<lparr>protected_rows := [demo_request]\<rparr>) demo_candidate)"
proof -
  have "protects_candidate demo_request demo_candidate" "permanent demo_request"
    by (simp_all add: protects_candidate_def demo_request_def demo_row_def demo_candidate_def)
  then show ?thesis
    using approved_protection_stops_deletion[OF demo_upsert_empty _ _ _ _ demo_run, of demo_candidate]
    by (simp add: demo_unprotected_def demo_tables_def)
qed

end
